(* ===== verification/Prelude.thy ===== *)
theory Prelude
  imports Main "HOL-Library.Word" "HOL-Library.Monad_Syntax"
begin

text \<open>
  The vocabulary shared by every component of the model: the machine integers and byte
  strings the Rust sources use, the result types of \<^verbatim>\<open>std\<close> and of the
  \<^verbatim>\<open>futures 0.1\<close> polling protocol, addresses, and the generic lemmas on lists and
  options that the component proofs rest on.

  Two conventions hold throughout.
  A Rust function that can panic (or loop forever) returns \<open>'a option\<close>, and \<open>None\<close>
  means that the call does not return; a function without such a branch is total.
  A \<^verbatim>\<open>&mut self\<close> method takes the old value and returns the new one.
\<close>

section \<open>Machine integers, bytes and pointers\<close>

type_synonym u8 = "8 word"
type_synonym u32 = "32 word"
type_synonym u64 = "64 word"
type_synonym bytes = "u8 list"

text \<open>Lengths (\<^verbatim>\<open>usize\<close>) are natural numbers; the places where a sum of
  lengths could exceed the machine word are covered by explicit bounds.\<close>

abbreviation usize_max :: nat where
  "usize_max \<equiv> 2 ^ 64 - 1"

abbreviation isize_max :: nat where
  "isize_max \<equiv> 2 ^ 63 - 1"

text \<open>Raw C pointers are opaque numbers; \<open>0\<close> is the null pointer.\<close>

type_synonym ptr = nat

section \<open>Results and polls\<close>

text \<open>\<^verbatim>\<open>std::result::Result\<close>, \<^verbatim>\<open>futures::Async\<close>,
  \<^verbatim>\<open>futures::AsyncSink\<close> and \<^verbatim>\<open>futures::Poll\<close>.\<close>

datatype ('a, 'e) result = Ok 'a | Err 'e

datatype 'a async = Ready 'a | NotReady

datatype 'a async_sink = SinkReady | SinkNotReady 'a

type_synonym ('a, 'e) poll = "('a async, 'e) result"

fun map_err :: "('e \<Rightarrow> 'f) \<Rightarrow> ('a, 'e) result \<Rightarrow> ('a, 'f) result" where
  "map_err f (Ok a) = Ok a"
| "map_err f (Err e) = Err (f e)"

fun is_err :: "('a, 'e) result \<Rightarrow> bool" where
  "is_err (Ok _) = False"
| "is_err (Err _) = True"

fun is_not_ready :: "'a async \<Rightarrow> bool" where
  "is_not_ready NotReady = True"
| "is_not_ready (Ready _) = False"

fun result_bind :: "('a, 'e) result \<Rightarrow> ('a \<Rightarrow> ('b, 'e) result) \<Rightarrow> ('b, 'e) result" where
  "result_bind (Ok a) f = f a"
| "result_bind (Err e) f = Err e"

lemma map_err_eq_Ok [simp]: "map_err f r = Ok a \<longleftrightarrow> r = Ok a"
  by (cases r) auto

lemma is_err_map_err [simp]: "is_err (map_err f r) = is_err r"
  by (cases r) auto

lemma map_err_eq_Err: "map_err f r = Err e \<longleftrightarrow> (\<exists>e'. r = Err e' \<and> e = f e')"
  by (cases r) auto

lemma result_bind_eqs:
  "result_bind r f = Ok b \<longleftrightarrow> (\<exists>a. r = Ok a \<and> f a = Ok b)"
  "result_bind r f = Err e \<longleftrightarrow> r = Err e \<or> (\<exists>a. r = Ok a \<and> f a = Err e)"
  by (cases r; simp)+

lemma is_err_iff: "is_err r \<longleftrightarrow> (\<exists>e. r = Err e)"
  by (cases r) auto

section \<open>Socket addresses\<close>

text \<open>\<^verbatim>\<open>std::net::SocketAddr\<close>: the four octets of a v4 address as one word; the
  v6 variant carries flow information and scope as well.\<close>

datatype socket_addr =
    SocketAddrV4 "32 word" "16 word"
  | SocketAddrV6 "128 word" "16 word" u32 u32

text \<open>\<^verbatim>\<open>addr.ip().is_unspecified()\<close>.\<close>

fun ip_is_unspecified :: "socket_addr \<Rightarrow> bool" where
  "ip_is_unspecified (SocketAddrV4 ip port) = (ip = 0)"
| "ip_is_unspecified (SocketAddrV6 ip port flow scope) = (ip = 0)"

section \<open>Generic lemmas\<close>

named_theorems view_simps \<open>what an operation does to the observable state of a channel\<close>
named_theorems ctx_simps \<open>definitions of the operations on a stream context\<close>

lemma take_min_append:
  "n \<le> length xs + length ys \<Longrightarrow> take n (xs @ ys) = take n xs @ take (n - length xs) ys"
  by simp

lemma drop_eq_Nil_iff_le [simp]: "drop n xs = [] \<longleftrightarrow> length xs \<le> n"
  by simp

lemma option_case_None_Some_eq:
  "(case x of None \<Rightarrow> a | Some _ \<Rightarrow> a) = a"
  by (cases x) auto

lemma sum_list_concat_length: "length (concat xss) = sum_list (map length xss)"
  by (simp add: length_concat)

end
