(* ===== verification/Errors.thy ===== *)
theory Errors
  imports Prelude
begin

text \<open>
  \<^verbatim>\<open>src/error.rs\<close>: the error kinds, the error struct with its conversions, the
  rendering that \<^verbatim>\<open>#[fail(display)]\<close> derives, and the comparison of error kinds
  by discriminant.

  A payload that comes from another crate (\<^verbatim>\<open>failure::Error\<close>,
  \<^verbatim>\<open>io::Error\<close>, \<^verbatim>\<open>SpawnError\<close>) is represented by the text it
  displays: nothing in the sources looks further into it.  The backtrace that
  \<^verbatim>\<open>failure::Context\<close> records is left out.
\<close>

datatype error_kind =
    NetworkError
  | FFIError
  | OutOfMemoryError
  | Disconnected
  | Unknown
  | SendErrorKind bytes
  | TLSHandshakeError
  | InternalError
  | NoneUnicode
  | OpenSSLError
  | Custom string
  | Io string
  | Spawn string
  | SendOnUnidirectional

datatype error = MkError (kind: error_kind)

text \<open>The \<^verbatim>\<open>From\<close> conversions that the question mark operator and
  \<^verbatim>\<open>into()\<close> apply.\<close>

definition error_from_kind :: "error_kind \<Rightarrow> error" where
  "error_from_kind k = MkError k"

definition error_from_canceled :: error where
  "error_from_canceled = error_from_kind InternalError"

definition error_from_nul_error :: error where
  "error_from_nul_error = error_from_kind FFIError"

definition error_from_error_stack :: error where
  "error_from_error_stack = error_from_kind OpenSSLError"

definition error_from_failure :: "string \<Rightarrow> error" where
  "error_from_failure e = error_from_kind (Custom e)"

definition error_from_io :: "string \<Rightarrow> error" where
  "error_from_io e = error_from_kind (Io e)"

definition error_from_spawn :: "string \<Rightarrow> error" where
  "error_from_spawn e = error_from_kind (Spawn e)"

text \<open>The \<^verbatim>\<open>bail!\<close> macro: an early return of a \<^verbatim>\<open>failure\<close> message.\<close>

definition bail :: "string \<Rightarrow> ('a, error) result" where
  "bail msg = Err (error_from_failure msg)"

text \<open>\<^verbatim>\<open>ErrorFn\<close>: a closure that builds the error each time it is called.\<close>

type_synonym error_fn = "unit \<Rightarrow> error"

text \<open>The derived \<^verbatim>\<open>Display\<close>.\<close>

fun display_kind :: "error_kind \<Rightarrow> string" where
  "display_kind NetworkError = ''A network error occurred.''"
| "display_kind FFIError = ''A ffi error occurred.''"
| "display_kind OutOfMemoryError = ''Could not allocate new memory.''"
| "display_kind Disconnected = ''Disconnected.''"
| "display_kind Unknown = ''Unknown.''"
| "display_kind (SendErrorKind _) = ''Send failed.''"
| "display_kind TLSHandshakeError = ''An error occurred in the TLS handshake.''"
| "display_kind InternalError = ''An internal error occurred.''"
| "display_kind NoneUnicode = ''A string contains none unicode symbols.''"
| "display_kind OpenSSLError = ''An OpenSSL error occurred.''"
| "display_kind (Custom e) = ''Error '' @ e"
| "display_kind (Io e) = ''IO error '' @ e"
| "display_kind (Spawn e) = ''Spawn error '' @ e"
| "display_kind SendOnUnidirectional =
     ''Tried to send data on an unidirectional receiving side Stream.''"

definition display_error :: "error \<Rightarrow> string" where
  "display_error e = display_kind (kind e)"

text \<open>\<^verbatim>\<open>mem::discriminant\<close> numbers the variants in the order of their
  declaration, and \<^verbatim>\<open>PartialEq\<close> compares only these numbers.\<close>

fun discriminant :: "error_kind \<Rightarrow> nat" where
  "discriminant NetworkError = 0"
| "discriminant FFIError = 1"
| "discriminant OutOfMemoryError = 2"
| "discriminant Disconnected = 3"
| "discriminant Unknown = 4"
| "discriminant (SendErrorKind _) = 5"
| "discriminant TLSHandshakeError = 6"
| "discriminant InternalError = 7"
| "discriminant NoneUnicode = 8"
| "discriminant OpenSSLError = 9"
| "discriminant (Custom _) = 10"
| "discriminant (Io _) = 11"
| "discriminant (Spawn _) = 12"
| "discriminant SendOnUnidirectional = 13"

definition error_kind_eq :: "error_kind \<Rightarrow> error_kind \<Rightarrow> bool" where
  "error_kind_eq a b \<longleftrightarrow> discriminant a = discriminant b"

section \<open>Comparison of error kinds\<close>

text \<open>Erasing the payload gives a normal form, and two kinds compare equal exactly when
  their normal forms are the same value.\<close>

fun erase_payload :: "error_kind \<Rightarrow> error_kind" where
  "erase_payload (SendErrorKind _) = SendErrorKind []"
| "erase_payload (Custom _) = Custom []"
| "erase_payload (Io _) = Io []"
| "erase_payload (Spawn _) = Spawn []"
| "erase_payload k = k"

lemma error_kind_eq_erase: "error_kind_eq a b \<longleftrightarrow> erase_payload a = erase_payload b"
  by (cases a; cases b) (simp_all add: error_kind_eq_def)

lemma equivp_error_kind_eq: "equivp error_kind_eq"
  unfolding error_kind_eq_def by (auto intro!: equivpI simp: reflp_def symp_def transp_def)

end
