(* ===== verification/Channels.thy ===== *)
theory Channels
  imports Errors
begin

text \<open>
  \<^verbatim>\<open>src/channel_with_error.rs\<close>: channels whose receiving side can hand an error
  to the sending side.

  The channels underneath are \<^verbatim>\<open>futures::sync::mpsc\<close>, which is not part of the
  repository: the record \<open>mpsc\<close> collects the operations the sources call, and is an
  argument of every definition that calls one.  What the sources rely on is the locale
  \<open>mpsc_channel\<close>: an abstraction function onto \<open>chan_view\<close> (the buffered messages,
  the number of living senders, whether the receiver still accepts messages, and the bound)
  under which each operation has its documented effect.

  Both ends of a channel, and the error cell that travels with them, are handles to one
  shared object (in Rust, two \<^verbatim>\<open>Arc\<close>s cloned into the two ends when the channel
  is made); the record \<open>chan_err\<close> is that object.
\<close>

section \<open>The channel library\<close>

record ('ch, 'a) mpsc =
  mpsc_new :: "nat option \<Rightarrow> 'ch"  \<comment> \<open>\<open>None\<close>: \<^verbatim>\<open>unbounded()\<close>, \<open>Some n\<close>: \<^verbatim>\<open>channel(n)\<close>\<close>
  mpsc_poll :: "'ch \<Rightarrow> ('a option, unit) poll \<times> 'ch"
  mpsc_unbounded_send :: "'ch \<Rightarrow> 'a \<Rightarrow> (unit, 'a) result \<times> 'ch"
  mpsc_start_send :: "'ch \<Rightarrow> 'a \<Rightarrow> ('a async_sink, 'a) result \<times> 'ch"
  mpsc_poll_complete :: "'ch \<Rightarrow> (unit, 'a) poll \<times> 'ch"
  mpsc_is_closed :: "'ch \<Rightarrow> bool"
  mpsc_close :: "'ch \<Rightarrow> 'ch"
  mpsc_drop_rx :: "'ch \<Rightarrow> 'a list \<times> 'ch"  \<comment> \<open>the buffered messages are dropped with the receiver\<close>
  mpsc_drop_tx :: "'ch \<Rightarrow> 'ch"
  mpsc_clone_tx :: "'ch \<Rightarrow> 'ch"

record 'a chan_view =
  cv_buffer :: "'a list"
  cv_senders :: nat
  cv_open :: bool
  cv_bound :: "nat option"

text \<open>A channel is finished when no further message can come out of it.\<close>

definition view_ended :: "'a chan_view \<Rightarrow> bool" where
  "view_ended v \<longleftrightarrow> \<not> cv_open v \<or> cv_senders v = 0"

definition view_new :: "nat option \<Rightarrow> 'a chan_view" where
  "view_new n = \<lparr>cv_buffer = [], cv_senders = 1, cv_open = True, cv_bound = n\<rparr>"

definition view_poll :: "'a chan_view \<Rightarrow> ('a option, unit) poll \<times> 'a chan_view" where
  "view_poll v =
     (case cv_buffer v of
        m # ms \<Rightarrow> (Ok (Ready (Some m)), v\<lparr>cv_buffer := ms\<rparr>)
      | [] \<Rightarrow> (if view_ended v then (Ok (Ready None), v) else (Ok NotReady, v)))"

definition view_send :: "'a chan_view \<Rightarrow> 'a \<Rightarrow> (unit, 'a) result \<times> 'a chan_view" where
  "view_send v m =
     (if cv_open v then (Ok (), v\<lparr>cv_buffer := cv_buffer v @ [m]\<rparr>) else (Err m, v))"

text \<open>
  The documented behaviour.  A full bounded channel hands the message back
  (\<^verbatim>\<open>AsyncSink::NotReady\<close>); when it counts as full is left open here.
\<close>

locale mpsc_channel =
  fixes M :: "('ch, 'a) mpsc"
    and view :: "'ch \<Rightarrow> 'a chan_view"
  assumes view_of_new: "view (mpsc_new M n) = view_new n"
    and view_of_poll: "map_prod id view (mpsc_poll M c) = view_poll (view c)"
    and view_of_unbounded_send:
      "map_prod id view (mpsc_unbounded_send M c m) = view_send (view c) m"
    and start_send_closed:
      "\<not> cv_open (view c) \<Longrightarrow> map_prod id view (mpsc_start_send M c m) = (Err m, view c)"
    and start_send_open:
      "cv_open (view c) \<Longrightarrow>
       map_prod id view (mpsc_start_send M c m) =
         (Ok SinkReady, view c\<lparr>cv_buffer := cv_buffer (view c) @ [m]\<rparr>) \<or>
       cv_bound (view c) \<noteq> None \<and>
       map_prod id view (mpsc_start_send M c m) = (Ok (SinkNotReady m), view c)"
    and view_of_poll_complete: "view (snd (mpsc_poll_complete M c)) = view c"
    and is_closed_iff: "mpsc_is_closed M c \<longleftrightarrow> \<not> cv_open (view c)"
    and view_of_close: "view (mpsc_close M c) = view c\<lparr>cv_open := False\<rparr>"
    and view_of_drop_rx:
      "map_prod id view (mpsc_drop_rx M c) =
         (cv_buffer (view c), view c\<lparr>cv_buffer := [], cv_open := False\<rparr>)"
    and view_of_drop_tx:
      "view (mpsc_drop_tx M c) = view c\<lparr>cv_senders := cv_senders (view c) - 1\<rparr>"
    and view_of_clone_tx:
      "view (mpsc_clone_tx M c) = view c\<lparr>cv_senders := cv_senders (view c) + 1\<rparr>"
begin

lemma poll_fst [view_simps]: "fst (mpsc_poll M c) = fst (view_poll (view c))"
  using view_of_poll [of c] by (metis fst_map_prod id_apply)

lemma poll_snd [view_simps]: "view (snd (mpsc_poll M c)) = snd (view_poll (view c))"
  using view_of_poll [of c] by (metis snd_map_prod)

lemma unbounded_send_fst [view_simps]:
  "fst (mpsc_unbounded_send M c m) = fst (view_send (view c) m)"
  using view_of_unbounded_send [of c m] by (metis fst_map_prod id_apply)

lemma unbounded_send_snd [view_simps]:
  "view (snd (mpsc_unbounded_send M c m)) = snd (view_send (view c) m)"
  using view_of_unbounded_send [of c m] by (metis snd_map_prod)

lemma drop_rx_fst [view_simps]: "fst (mpsc_drop_rx M c) = cv_buffer (view c)"
  using view_of_drop_rx [of c] by (metis fst_conv fst_map_prod id_apply)

lemma drop_rx_snd [view_simps]:
  "view (snd (mpsc_drop_rx M c)) = view c\<lparr>cv_buffer := [], cv_open := False\<rparr>"
  using view_of_drop_rx [of c] by (metis snd_conv snd_map_prod)

lemmas [view_simps] =
  view_of_new view_of_close view_of_drop_tx view_of_clone_tx view_of_poll_complete is_closed_iff

lemma poll_never_errs: "fst (mpsc_poll M c) \<noteq> Err e"
  by (simp add: poll_fst view_poll_def split: list.split)

lemma start_send_cases:
  obtains (closed) "\<not> cv_open (view c)" "fst (mpsc_start_send M c m) = Err m"
      "view (snd (mpsc_start_send M c m)) = view c"
    | (accepted) "cv_open (view c)" "fst (mpsc_start_send M c m) = Ok SinkReady"
      "view (snd (mpsc_start_send M c m)) = view c\<lparr>cv_buffer := cv_buffer (view c) @ [m]\<rparr>"
    | (full) "cv_open (view c)" "fst (mpsc_start_send M c m) = Ok (SinkNotReady m)"
      "view (snd (mpsc_start_send M c m)) = view c" "cv_bound (view c) \<noteq> None"
proof (cases "mpsc_start_send M c m")
  case (Pair r c')
  then show ?thesis
    using start_send_closed [of c m] start_send_open [of c m] that
    by (cases "cv_open (view c)") auto
qed

end

text \<open>A channel that keeps its view as its state behaves as documented.  A bounded channel
  accepts one message more than its bound, the guaranteed slot of its one sender.\<close>

definition fifo_mpsc :: "('a chan_view, 'a) mpsc" where
  "fifo_mpsc =
     \<lparr>mpsc_new = view_new, mpsc_poll = view_poll, mpsc_unbounded_send = view_send,
      mpsc_start_send = (\<lambda>v m.
        if \<not> cv_open v then (Err m, v)
        else case cv_bound v of
            None \<Rightarrow> (Ok SinkReady, v\<lparr>cv_buffer := cv_buffer v @ [m]\<rparr>)
          | Some n \<Rightarrow> if length (cv_buffer v) \<le> n
              then (Ok SinkReady, v\<lparr>cv_buffer := cv_buffer v @ [m]\<rparr>)
              else (Ok (SinkNotReady m), v)),
      mpsc_poll_complete = (\<lambda>v. (Ok (Ready ()), v)),
      mpsc_is_closed = (\<lambda>v. \<not> cv_open v),
      mpsc_close = (\<lambda>v. v\<lparr>cv_open := False\<rparr>),
      mpsc_drop_rx = (\<lambda>v. (cv_buffer v, v\<lparr>cv_buffer := [], cv_open := False\<rparr>)),
      mpsc_drop_tx = (\<lambda>v. v\<lparr>cv_senders := cv_senders v - 1\<rparr>),
      mpsc_clone_tx = (\<lambda>v. v\<lparr>cv_senders := cv_senders v + 1\<rparr>)\<rparr>"

interpretation fifo: mpsc_channel fifo_mpsc "\<lambda>v. v"
  by unfold_locales (auto simp: fifo_mpsc_def id_def prod.map_ident split: option.split)

section \<open>The error cell\<close>

record 'ch chan_err =
  ce_chan :: 'ch
  ce_error :: "error_fn option"

definition error_state_new :: "error_fn option" where
  "error_state_new = None"

definition error_state_error :: "error_fn option \<Rightarrow> error option" where
  "error_state_error s = map_option (\<lambda>v. v ()) s"

definition error_state_set_error :: "error_fn option \<Rightarrow> error_fn \<Rightarrow> error_fn option" where
  "error_state_set_error s err_fn = Some err_fn"

section \<open>The sending side\<close>

datatype 'a send_error = Channel error 'a | Normal 'a

definition check_for_error :: "('ch, 'a) mpsc \<Rightarrow> 'ch chan_err \<Rightarrow> error option" where
  "check_for_error M ce =
     (if mpsc_is_closed M (ce_chan ce) then error_state_error (ce_error ce) else None)"

definition sender_map_err :: "('ch, 'a) mpsc \<Rightarrow> 'ch chan_err \<Rightarrow> 'b \<Rightarrow> 'b send_error" where
  "sender_map_err M ce e =
     (case check_for_error M ce of Some err \<Rightarrow> Channel err e | None \<Rightarrow> Normal e)"

definition sender_start_send ::
  "('ch, 'a) mpsc \<Rightarrow> 'ch chan_err \<Rightarrow> 'a \<Rightarrow> ('a async_sink, 'a send_error) result \<times> 'ch chan_err"
where
  "sender_start_send M ce item =
     (case mpsc_start_send M (ce_chan ce) item of (r, ch) \<Rightarrow>
        let ce' = ce\<lparr>ce_chan := ch\<rparr> in (map_err (sender_map_err M ce') r, ce'))"

definition sender_poll_complete ::
  "('ch, 'a) mpsc \<Rightarrow> 'ch chan_err \<Rightarrow> (unit, 'a send_error) poll \<times> 'ch chan_err" where
  "sender_poll_complete M ce =
     (case mpsc_poll_complete M (ce_chan ce) of (r, ch) \<Rightarrow>
        let ce' = ce\<lparr>ce_chan := ch\<rparr> in (map_err (sender_map_err M ce') r, ce'))"

definition sender_clone :: "('ch, 'a) mpsc \<Rightarrow> 'ch chan_err \<Rightarrow> 'ch chan_err" where
  "sender_clone M ce = ce\<lparr>ce_chan := mpsc_clone_tx M (ce_chan ce)\<rparr>"

definition sender_drop :: "('ch, 'a) mpsc \<Rightarrow> 'ch chan_err \<Rightarrow> 'ch chan_err" where
  "sender_drop M ce = ce\<lparr>ce_chan := mpsc_drop_tx M (ce_chan ce)\<rparr>"

section \<open>The receiving side\<close>

definition propagate_error :: "error_fn \<Rightarrow> 'ch chan_err \<Rightarrow> 'ch chan_err" where
  "propagate_error err ce = ce\<lparr>ce_error := error_state_set_error (ce_error ce) err\<rparr>"

definition receiver_close :: "('ch, 'a) mpsc \<Rightarrow> 'ch chan_err \<Rightarrow> 'ch chan_err" where
  "receiver_close M ce = ce\<lparr>ce_chan := mpsc_close M (ce_chan ce)\<rparr>"

definition receiver_poll ::
  "('ch, 'a) mpsc \<Rightarrow> 'ch chan_err \<Rightarrow> ('a option, error) poll \<times> 'ch chan_err" where
  "receiver_poll M ce =
     (case mpsc_poll M (ce_chan ce) of (r, ch) \<Rightarrow>
        (map_err (\<lambda>_. error_from_kind Unknown) r, ce\<lparr>ce_chan := ch\<rparr>))"

definition receiver_drop :: "('ch, 'a) mpsc \<Rightarrow> 'ch chan_err \<Rightarrow> 'a list \<times> 'ch chan_err" where
  "receiver_drop M ce =
     (case mpsc_drop_rx M (ce_chan ce) of (ms, ch) \<Rightarrow> (ms, ce\<lparr>ce_chan := ch\<rparr>))"

section \<open>Construction\<close>

definition unbounded :: "('ch, 'a) mpsc \<Rightarrow> 'ch chan_err" where
  "unbounded M = \<lparr>ce_chan = mpsc_new M None, ce_error = error_state_new\<rparr>"

definition channel :: "('ch, 'a) mpsc \<Rightarrow> nat \<Rightarrow> 'ch chan_err" where
  "channel M buffer = \<lparr>ce_chan = mpsc_new M (Some buffer), ce_error = error_state_new\<rparr>"

section \<open>What the wrapped channel promises\<close>

text \<open>The view of the channel inside a shared object, and the error a sender would see.\<close>

lemmas sender_defs =
  sender_start_send_def sender_poll_complete_def sender_clone_def sender_drop_def
  sender_map_err_def check_for_error_def error_state_error_def

lemmas receiver_defs =
  propagate_error_def receiver_close_def receiver_poll_def receiver_drop_def
  error_state_set_error_def

context mpsc_channel
begin

abbreviation ce_view :: "'ch chan_err \<Rightarrow> 'a chan_view" where
  "ce_view ce \<equiv> view (ce_chan ce)"

lemma receiver_poll_fst [view_simps]:
  "fst (receiver_poll M ce) = map_err (\<lambda>_. error_from_kind Unknown) (fst (view_poll (ce_view ce)))"
  by (simp add: receiver_poll_def view_simps split_beta)

lemma receiver_poll_snd [view_simps]:
  "ce_view (snd (receiver_poll M ce)) = snd (view_poll (ce_view ce))"
  "ce_error (snd (receiver_poll M ce)) = ce_error ce"
  by (simp_all add: receiver_poll_def view_simps split_beta)

lemma receiver_poll_never_errs: "fst (receiver_poll M ce) \<noteq> Err e"
  by (simp add: receiver_poll_fst view_poll_def split: list.split)

lemma receiver_close_view [view_simps]:
  "ce_view (receiver_close M ce) = ce_view ce\<lparr>cv_open := False\<rparr>"
  "ce_error (receiver_close M ce) = ce_error ce"
  by (simp_all add: receiver_close_def view_simps)

lemma receiver_drop_view [view_simps]:
  "ce_view (snd (receiver_drop M ce)) = ce_view ce\<lparr>cv_buffer := [], cv_open := False\<rparr>"
  "ce_error (snd (receiver_drop M ce)) = ce_error ce"
  "fst (receiver_drop M ce) = cv_buffer (ce_view ce)"
  by (simp_all add: receiver_drop_def view_simps split_beta)

lemma propagate_error_view [view_simps]:
  "ce_view (propagate_error f ce) = ce_view ce"
  "ce_error (propagate_error f ce) = Some f"
  by (simp_all add: receiver_defs)

lemma sender_drop_view [view_simps]:
  "ce_view (sender_drop M ce) = ce_view ce\<lparr>cv_senders := cv_senders (ce_view ce) - 1\<rparr>"
  "ce_error (sender_drop M ce) = ce_error ce"
  by (simp_all add: sender_drop_def view_simps)

lemma channel_view [view_simps]:
  "ce_view (channel M n) = view_new (Some n)" "ce_error (channel M n) = None"
  "ce_view (unbounded M) = view_new None" "ce_error (unbounded M) = None"
  by (simp_all add: channel_def unbounded_def view_simps error_state_new_def)

text \<open>A send on an open channel never fails; on a closed one it fails with the error of the
  receiving side if there is one, and hands the message back in every case.\<close>

lemma sender_start_send_closed:
  assumes "\<not> cv_open (ce_view ce)"
  shows "fst (sender_start_send M ce m) =
      Err (case ce_error ce of Some f \<Rightarrow> Channel (f ()) m | None \<Rightarrow> Normal m)"
    and "ce_view (snd (sender_start_send M ce m)) = ce_view ce"
    and "ce_error (snd (sender_start_send M ce m)) = ce_error ce"
  using assms
  by (cases rule: start_send_cases [of "ce_chan ce" m],
      auto simp: sender_defs view_simps split_beta Let_def split: option.split)+

lemma sender_start_send_open:
  assumes "cv_open (ce_view ce)"
  shows "fst (sender_start_send M ce m) = Ok SinkReady \<and>
         ce_view (snd (sender_start_send M ce m)) =
           ce_view ce\<lparr>cv_buffer := cv_buffer (ce_view ce) @ [m]\<rparr> \<or>
         cv_bound (ce_view ce) \<noteq> None \<and> fst (sender_start_send M ce m) = Ok (SinkNotReady m) \<and>
         ce_view (snd (sender_start_send M ce m)) = ce_view ce"
    and "ce_error (snd (sender_start_send M ce m)) = ce_error ce"
  using assms
  by (cases rule: start_send_cases [of "ce_chan ce" m],
      auto simp: sender_start_send_def split_beta Let_def)+

end

end
