(* ===== verification/Swappable.thy ===== *)
theory Swappable
  imports Channels
begin

text \<open>
  \<^verbatim>\<open>src/swappable_stream.rs\<close>: a stream that continues with a second stream when
  the first one ends; it lets a \<^verbatim>\<open>Stream\<close> exchange its send channel for one of
  another size.

  The interface \<open>poll_stream\<close> is what a client of a \<^verbatim>\<open>futures::Stream\<close> may
  rely on: the items still to come, in order, and whether the stream has ended.
  \<open>poll_source\<close> adds dropping and the independence of two streams.  The receiving side
  of a channel provides \<open>poll_source\<close>; the swappable stream over any provider is again
  a \<open>poll_stream\<close>.

  A stream is a value \<open>'s\<close> (for a receiver, a handle) together with the store \<open>'w\<close>
  that holds the shared objects; polling returns both updated.
\<close>

section \<open>The stream type\<close>

record 's swappable =
  active_stream :: 's
  swap_to :: "'s option"

definition swappable_new :: "'s \<Rightarrow> 's swappable" where
  "swappable_new s = \<lparr>active_stream = s, swap_to = None\<rparr>"

text \<open>Assigning to \<^verbatim>\<open>self.swap_to\<close> drops the stream that was stored there.\<close>

definition set_swap_to ::
  "('s \<Rightarrow> 'w \<Rightarrow> 'w) \<Rightarrow> 's swappable \<Rightarrow> 's \<Rightarrow> 'w \<Rightarrow> 's swappable \<times> 'w" where
  "set_swap_to drop_s sw new w =
     (sw\<lparr>swap_to := Some new\<rparr>,
      (case swap_to sw of Some old \<Rightarrow> drop_s old w | None \<Rightarrow> w))"

text \<open>\<^verbatim>\<open>Deref\<close> and \<^verbatim>\<open>DerefMut\<close>.\<close>

definition swappable_deref :: "'s swappable \<Rightarrow> 's" where
  "swappable_deref sw = active_stream sw"

text \<open>The loop takes \<^verbatim>\<open>swap_to\<close> whenever it goes round, so it goes round at most
  once: the termination measure is whether a replacement is waiting.\<close>

function swappable_poll ::
  "('s \<Rightarrow> 'w \<Rightarrow> ('i option, 'e) poll \<times> 's \<times> 'w) \<Rightarrow> ('s \<Rightarrow> 'w \<Rightarrow> 'w) \<Rightarrow>
   's swappable \<Rightarrow> 'w \<Rightarrow> ('i option, 'e) poll \<times> 's swappable \<times> 'w" where
  "swappable_poll poll drop_s sw w =
     (case poll (active_stream sw) w of
        (Err e, s', w') \<Rightarrow> (Err e, sw\<lparr>active_stream := s'\<rparr>, w')
      | (Ok NotReady, s', w') \<Rightarrow> (Ok NotReady, sw\<lparr>active_stream := s'\<rparr>, w')
      | (Ok (Ready (Some val)), s', w') \<Rightarrow>
          (Ok (Ready (Some val)), sw\<lparr>active_stream := s'\<rparr>, w')
      | (Ok (Ready None), s', w') \<Rightarrow>
          (case swap_to sw of
             Some new_stream \<Rightarrow>
               swappable_poll poll drop_s
                 \<lparr>active_stream = new_stream, swap_to = None\<rparr> (drop_s s' w')
           | None \<Rightarrow> (Ok (Ready None), sw\<lparr>active_stream := s'\<rparr>, w')))"
  by pat_completeness auto
termination
  by (relation "measure (\<lambda>(poll, drop_s, sw, w). case swap_to sw of None \<Rightarrow> 0 | Some _ \<Rightarrow> 1)") auto

declare swappable_poll.simps [simp del]

text \<open>Dropping a swappable stream drops both streams it holds.\<close>

definition swappable_drop :: "('s \<Rightarrow> 'w \<Rightarrow> 'w) \<Rightarrow> 's swappable \<Rightarrow> 'w \<Rightarrow> 'w" where
  "swappable_drop drop_s sw w =
     (let w' = drop_s (active_stream sw) w in
      case swap_to sw of Some s \<Rightarrow> drop_s s w' | None \<Rightarrow> w')"

section \<open>The interface of a polled stream\<close>

locale poll_stream =
  fixes poll :: "'s \<Rightarrow> 'w \<Rightarrow> ('i option, 'e) poll \<times> 's \<times> 'w"
    and items :: "'s \<Rightarrow> 'w \<Rightarrow> 'i list"
    and ended :: "'s \<Rightarrow> 'w \<Rightarrow> bool"
    and valid :: "'s \<Rightarrow> 'w \<Rightarrow> bool"
  assumes poll_item:
      "valid s w \<Longrightarrow> poll s w = (Ok (Ready (Some i)), s', w') \<Longrightarrow> items s w = i # items s' w'"
    and poll_end:
      "valid s w \<Longrightarrow> poll s w = (Ok (Ready None), s', w') \<Longrightarrow>
       items s w = [] \<and> items s' w' = [] \<and> ended s w"
    and poll_pending:
      "valid s w \<Longrightarrow> poll s w = (Ok NotReady, s', w') \<Longrightarrow>
       items s' w' = items s w \<and> \<not> ended s w"
    and poll_never_errs: "valid s w \<Longrightarrow> poll s w \<noteq> (Err e, s', w')"
    and poll_valid: "valid s w \<Longrightarrow> poll s w = (r, s', w') \<Longrightarrow> valid s' w'"
    and poll_ended: "valid s w \<Longrightarrow> poll s w = (r, s', w') \<Longrightarrow> ended s' w' = ended s w"
begin

lemma poll_cases:
  assumes "valid s w"
  obtains (item) i s' w' where "poll s w = (Ok (Ready (Some i)), s', w')"
      "items s w = i # items s' w'" "valid s' w'" "ended s' w' = ended s w"
    | (fin) s' w' where "poll s w = (Ok (Ready None), s', w')"
      "items s w = []" "items s' w' = []" "ended s w" "valid s' w'" "ended s' w'"
    | (pending) s' w' where "poll s w = (Ok NotReady, s', w')"
      "items s' w' = items s w" "\<not> ended s w" "valid s' w'" "\<not> ended s' w'"
proof -
  obtain r s' w' where p: "poll s w = (r, s', w')" by (cases "poll s w")
  note facts = poll_valid [OF assms p] poll_ended [OF assms p]
  show ?thesis
  proof (cases r)
    case (Err e)
    with p poll_never_errs [OF assms] show ?thesis by blast
  next
    case (Ok a)
    show ?thesis
    proof (cases a)
      case NotReady
      with Ok p facts poll_pending [OF assms] pending show ?thesis by blast
    next
      case (Ready x)
      with Ok p facts poll_item [OF assms] poll_end [OF assms] item fin show ?thesis
        by (cases x) blast+
    qed
  qed
qed

end

text \<open>Two independent streams do not see each other's polls and drops.\<close>

locale poll_source = poll_stream poll items ended valid
  for poll :: "'s \<Rightarrow> 'w \<Rightarrow> ('i option, 'e) poll \<times> 's \<times> 'w"
    and items :: "'s \<Rightarrow> 'w \<Rightarrow> 'i list"
    and ended :: "'s \<Rightarrow> 'w \<Rightarrow> bool"
    and valid :: "'s \<Rightarrow> 'w \<Rightarrow> bool" +
  fixes drop_s :: "'s \<Rightarrow> 'w \<Rightarrow> 'w"
    and indep :: "'s \<Rightarrow> 's \<Rightarrow> bool"
  assumes indep_poll:
      "indep s t \<Longrightarrow> poll s w = (r, s', w') \<Longrightarrow>
       indep s' t \<and> items t w' = items t w \<and> ended t w' = ended t w \<and> (valid t w \<longrightarrow> valid t w')"
    and indep_drop:
      "indep s t \<Longrightarrow>
       items t (drop_s s w) = items t w \<and> ended t (drop_s s w) = ended t w \<and>
       (valid t w \<longrightarrow> valid t (drop_s s w))"

section \<open>What the swappable stream promises\<close>

text \<open>The items of the active stream come first, those of the replacement follow; the
  whole has ended when both have.\<close>

definition swap_items :: "('s \<Rightarrow> 'w \<Rightarrow> 'i list) \<Rightarrow> 's swappable \<Rightarrow> 'w \<Rightarrow> 'i list" where
  "swap_items items sw w =
     items (active_stream sw) w @
     (case swap_to sw of Some s \<Rightarrow> items s w | None \<Rightarrow> [])"

definition swap_ended :: "('s \<Rightarrow> 'w \<Rightarrow> bool) \<Rightarrow> 's swappable \<Rightarrow> 'w \<Rightarrow> bool" where
  "swap_ended ended sw w \<longleftrightarrow>
     ended (active_stream sw) w \<and>
     (case swap_to sw of Some s \<Rightarrow> ended s w | None \<Rightarrow> True)"

definition swap_valid ::
  "('s \<Rightarrow> 'w \<Rightarrow> bool) \<Rightarrow> ('s \<Rightarrow> 's \<Rightarrow> bool) \<Rightarrow> 's swappable \<Rightarrow> 'w \<Rightarrow> bool" where
  "swap_valid valid indep sw w \<longleftrightarrow>
     valid (active_stream sw) w \<and>
     (case swap_to sw of Some s \<Rightarrow> valid s w \<and> indep (active_stream sw) s | None \<Rightarrow> True)"

lemmas swap_defs = swap_items_def swap_ended_def swap_valid_def

context poll_source
begin

text \<open>One unfolding of the loop, in terms of what the active stream answers.\<close>

lemma swappable_poll_active:
  assumes "poll (active_stream sw) w = (r, s', w')" "r \<noteq> Ok (Ready None)"
  shows "swappable_poll poll drop_s sw w = (r, sw\<lparr>active_stream := s'\<rparr>, w')"
  using assms
  by (subst swappable_poll.simps) (auto split: result.split async.split option.split)

lemma swappable_poll_ended:
  assumes "poll (active_stream sw) w = (Ok (Ready None), s', w')"
  shows "swappable_poll poll drop_s sw w =
    (case swap_to sw of
       Some n \<Rightarrow> swappable_poll poll drop_s \<lparr>active_stream = n, swap_to = None\<rparr> (drop_s s' w')
     | None \<Rightarrow> (Ok (Ready None), sw\<lparr>active_stream := s'\<rparr>, w'))"
  using assms by (subst swappable_poll.simps) simp

text \<open>What one poll of a swappable stream without a replacement does.\<close>

definition swap_step :: "'s swappable \<Rightarrow> 'w \<Rightarrow> bool" where
  "swap_step sw w \<longleftrightarrow>
     (\<exists>r sw' w'. swappable_poll poll drop_s sw w = (r, sw', w') \<and>
        swap_valid valid indep sw' w' \<and> swap_ended ended sw' w' = swap_ended ended sw w \<and>
        ((\<exists>i. r = Ok (Ready (Some i)) \<and> swap_items items sw w = i # swap_items items sw' w') \<or>
         (r = Ok (Ready None) \<and> swap_items items sw w = [] \<and> swap_items items sw' w' = [] \<and>
          swap_ended ended sw w) \<or>
         (r = Ok NotReady \<and> swap_items items sw' w' = swap_items items sw w \<and>
          \<not> swap_ended ended sw w)))"

lemma swap_step_active:
  assumes "swap_valid valid indep sw w"
    and "\<And>s' w'. poll (active_stream sw) w = (Ok (Ready None), s', w') \<Longrightarrow> swap_to sw = None"
  shows "swap_step sw w"
proof -
  from assms(1) have "valid (active_stream sw) w" by (simp add: swap_valid_def)
  then show ?thesis
  proof (cases rule: poll_cases)
    case (item i s' w')
    with assms(1) show ?thesis
      unfolding swap_step_def
      by (subst swappable_poll_active [OF item(1)])
         (auto simp: swap_defs split: option.splits dest: indep_poll [OF _ item(1)])
  next
    case (fin s' w')
    with assms show ?thesis
      unfolding swap_step_def
      by (subst swappable_poll_ended [OF fin(1)]) (auto simp: swap_defs split: option.splits)
  next
    case (pending s' w')
    with assms(1) show ?thesis
      unfolding swap_step_def
      by (subst swappable_poll_active [OF pending(1)])
         (auto simp: swap_defs split: option.splits dest: indep_poll [OF _ pending(1)])
  qed
qed

lemma swap_step_all:
  assumes "swap_valid valid indep sw w"
  shows "swap_step sw w"
proof (cases "\<exists>s' w' n. poll (active_stream sw) w = (Ok (Ready None), s', w') \<and> swap_to sw = Some n")
  case False
  then show ?thesis by (intro swap_step_active [OF assms]) auto
next
  case True
  then obtain s' w' n where p: "poll (active_stream sw) w = (Ok (Ready None), s', w')"
    and n: "swap_to sw = Some n" by blast
  let ?sw = "\<lparr>active_stream = n, swap_to = None\<rparr>" and ?w = "drop_s s' w'"
  from assms n have v: "valid (active_stream sw) w" "valid n w" "indep (active_stream sw) n"
    by (simp_all add: swap_valid_def)
  note q = indep_poll [OF v(3) p] indep_drop [of s' n w']
  from q v poll_end [OF v(1) p] n
  have same: "swap_items items ?sw ?w = swap_items items sw w"
      "swap_ended ended ?sw ?w = swap_ended ended sw w" "swap_valid valid indep ?sw ?w"
    by (simp_all add: swap_defs)
  from swap_step_active [OF same(3)] have "swap_step ?sw ?w" by simp
  then show ?thesis
    unfolding swap_step_def using same(1,2) swappable_poll_ended [OF p] n by simp
qed

lemma swap_step_elim:
  assumes "swap_valid valid indep sw w" "swappable_poll poll drop_s sw w = (r, sw', w')"
  shows "swap_valid valid indep sw' w'" "swap_ended ended sw' w' = swap_ended ended sw w"
    "r = Ok (Ready (Some i)) \<Longrightarrow> swap_items items sw w = i # swap_items items sw' w'"
    "r = Ok (Ready None) \<Longrightarrow>
       swap_items items sw w = [] \<and> swap_items items sw' w' = [] \<and> swap_ended ended sw w"
    "r = Ok NotReady \<Longrightarrow>
       swap_items items sw' w' = swap_items items sw w \<and> \<not> swap_ended ended sw w"
    "r \<noteq> Err e"
  using swap_step_all [OF assms(1)] assms(2) unfolding swap_step_def by auto

end

sublocale poll_source \<subseteq> swap: poll_stream
  "swappable_poll poll drop_s" "swap_items items" "swap_ended ended" "swap_valid valid indep"
  by unfold_locales (auto dest: swap_step_elim)

section \<open>The receiving side of a channel as a stream\<close>

text \<open>A receiver is a handle into a store of shared channel objects.\<close>

definition rx_poll ::
  "('ch, 'a) mpsc \<Rightarrow> nat \<Rightarrow> (nat \<Rightarrow> 'ch chan_err) \<Rightarrow>
   ('a option, error) poll \<times> nat \<times> (nat \<Rightarrow> 'ch chan_err)" where
  "rx_poll M h D = (case receiver_poll M (D h) of (r, ce) \<Rightarrow> (r, h, D(h := ce)))"

definition rx_drop ::
  "('ch, 'a) mpsc \<Rightarrow> nat \<Rightarrow> (nat \<Rightarrow> 'ch chan_err) \<Rightarrow> (nat \<Rightarrow> 'ch chan_err)" where
  "rx_drop M h D = D(h := snd (receiver_drop M (D h)))"

sublocale mpsc_channel \<subseteq> rx: poll_source
  "rx_poll M" "\<lambda>h D. cv_buffer (view (ce_chan (D h)))" "\<lambda>h D. view_ended (view (ce_chan (D h)))"
  "\<lambda>_ _. True" "rx_drop M" "(\<noteq>)"
  by unfold_locales
     (auto simp: rx_poll_def rx_drop_def view_simps view_poll_def view_ended_def split_beta
           split: list.splits if_splits)

text \<open>A poll touches only the objects of the two streams it holds, and either keeps both
  handles or moves on to the replacement.\<close>

lemma swappable_poll_no_replacement:
  assumes "swap_to sw = None"
  shows "swappable_poll poll drop_s sw w =
    (case poll (active_stream sw) w of (r, s', w') \<Rightarrow> (r, sw\<lparr>active_stream := s'\<rparr>, w'))"
  using assms
  by (subst swappable_poll.simps)
     (auto split: prod.split result.split async.split option.split)

lemma rx_poll_eq: "rx_poll M h D = (fst (rx_poll M h D), h, D(h := snd (receiver_poll M (D h))))"
  by (simp add: rx_poll_def split_beta)

lemma swappable_poll_rx_cases:
  assumes "swappable_poll (rx_poll M) (rx_drop M) sw D = (r, sw', D')"
  obtains (same) "sw' = sw" "D' = D(active_stream sw := D' (active_stream sw))"
    | (moved) n where "swap_to sw = Some n" "sw' = \<lparr>active_stream = n, swap_to = None\<rparr>"
        "\<And>h. h \<noteq> active_stream sw \<Longrightarrow> h \<noteq> n \<Longrightarrow> D' h = D h"
proof -
  obtain a ce where p: "rx_poll M (active_stream sw) D = (a, active_stream sw, D(active_stream sw := ce))"
    by (metis rx_poll_eq)
  show ?thesis
  proof (cases "a = Ok (Ready None)")
    case False
    with assms p have "sw' = sw" "D' = D(active_stream sw := ce)"
      by (auto simp: swappable_poll.simps [of "rx_poll M" "rx_drop M" sw D]
               split: result.splits async.splits option.splits)
    with same show ?thesis by simp
  next
    case True
    show ?thesis
    proof (cases "swap_to sw")
      case None
      with assms p have "sw' = sw" "D' = D(active_stream sw := ce)"
        by (auto simp: swappable_poll_no_replacement)
      with same show ?thesis by simp
    next
      case (Some n)
      let ?D = "rx_drop M (active_stream sw) (D(active_stream sw := ce))"
      from assms p True Some
      have "swappable_poll (rx_poll M) (rx_drop M) \<lparr>active_stream = n, swap_to = None\<rparr> ?D = (r, sw', D')"
        by (simp add: swappable_poll.simps [of "rx_poll M" "rx_drop M" sw D])
      then have "sw' = \<lparr>active_stream = n, swap_to = None\<rparr>"
          "D' = ?D(n := snd (receiver_poll M (?D n)))"
        by (simp_all add: swappable_poll_no_replacement rx_poll_def split_beta)
      with moved [OF Some] show ?thesis by (simp add: rx_drop_def)
    qed
  qed
qed

lemma swappable_poll_frame:
  assumes "swappable_poll (rx_poll M) (rx_drop M) sw D = (r, sw', D')"
    and "h \<noteq> active_stream sw" "swap_to sw \<noteq> Some h"
  shows "D' h = D h"
  using assms(1)
proof (cases rule: swappable_poll_rx_cases)
  case same
  with assms(2) show ?thesis by (metis fun_upd_other)
next
  case (moved n)
  with assms(2,3) show ?thesis by auto
qed

text \<open>The ends of the channels that are still held afterwards stay as they were.\<close>

context mpsc_channel
begin

lemma receiver_poll_ends [simp]:
  "cv_senders (ce_view (snd (receiver_poll M ce))) = cv_senders (ce_view ce)"
  "cv_open (ce_view (snd (receiver_poll M ce))) = cv_open (ce_view ce)"
  by (simp_all add: receiver_poll_snd view_poll_def split: list.split)

lemma swappable_poll_ends:
  assumes "swappable_poll (rx_poll M) (rx_drop M) sw D = (r, sw', D')"
    and "swap_to sw \<noteq> Some (active_stream sw)"
    and "h = active_stream sw' \<or> swap_to sw' = Some h"
  shows "cv_senders (view (ce_chan (D' h))) = cv_senders (view (ce_chan (D h))) \<and>
    cv_open (view (ce_chan (D' h))) = cv_open (view (ce_chan (D h)))"
proof -
  let ?a = "active_stream sw"
  obtain a where p: "rx_poll M ?a D = (a, ?a, D(?a := snd (receiver_poll M (D ?a))))"
    by (metis rx_poll_eq)
  show ?thesis
  proof (cases "a = Ok (Ready None)")
    case False
    with assms(1) p have "sw' = sw" "D' = D(?a := snd (receiver_poll M (D ?a)))"
      by (auto simp: swappable_poll.simps [of "rx_poll M" "rx_drop M" sw D]
               split: result.splits async.splits option.splits)
    then show ?thesis by simp
  next
    case True
    with assms p show ?thesis
      by (cases "swap_to sw")
         (auto simp: swappable_poll.simps [of "rx_poll M" "rx_drop M" sw D]
            swappable_poll_no_replacement rx_drop_def rx_poll_def split_beta)
  qed
qed

end

end
