(* ===== verification/Stream_Ids.thy ===== *)
theory Stream_Ids
  imports Prelude
begin

unbundle bit_operations_syntax

text \<open>
  Stream identifiers: the classification of an id in \<^verbatim>\<open>src/stream.rs\<close> and the
  generation of a new id in \<^verbatim>\<open>src/ffi/connection.rs\<close>.  The two lowest bits of an
  id carry the initiator and the direction; the rest is a counter.

  Ids are 64-bit words.  Arithmetic wraps, as it does in a release build; the bounds below
  say for which counters it does not.
\<close>

datatype stream_type = Unidirectional | Bidirectional

definition is_unidirectional :: "u64 \<Rightarrow> bool" where
  "is_unidirectional sid \<longleftrightarrow> sid AND 2 \<noteq> 0"

definition is_client_initiated :: "u64 \<Rightarrow> bool" where
  "is_client_initiated sid \<longleftrightarrow> sid AND 1 = 0"

definition is_unidirectional_send_allowed :: "u64 \<Rightarrow> bool \<Rightarrow> bool" where
  "is_unidirectional_send_allowed sid is_client_con =
     (if is_client_initiated sid then is_client_con else \<not> is_client_con)"

definition generate_stream_id :: "u64 \<Rightarrow> bool \<Rightarrow> stream_type \<Rightarrow> u64" where
  "generate_stream_id next_id is_client stype =
     (let sid = next_id + 1;
          sid = push_bit 2 sid;
          sid = (if \<not> is_client then sid OR 1 else sid)
      in if stype = Unidirectional then sid OR 2 else sid)"

section \<open>The two flag bits\<close>

lemma and_2_bit: "(w :: u64) AND 2 \<noteq> 0 \<longleftrightarrow> bit w 1"
proof -
  have "(2 :: u64) = push_bit 1 1" by simp
  then show ?thesis by (metis bit_iff_and_push_bit_not_eq_0)
qed

lemma and_1_bit: "(w :: u64) AND 1 = 0 \<longleftrightarrow> \<not> bit w 0"
  using bit_iff_and_push_bit_not_eq_0 [of w 0] by simp

lemmas flag_bits = is_unidirectional_def is_client_initiated_def and_2_bit and_1_bit

lemma small_bits:
  "bit (1 :: u64) 0" "\<not> bit (1 :: u64) (Suc 0)" "\<not> bit (2 :: u64) 0" "bit (2 :: u64) (Suc 0)"
  by (simp_all add: bit_1_iff bit_0 bit_Suc)

lemma generate_bit_0: "bit (generate_stream_id n c t) 0 \<longleftrightarrow> \<not> c"
  by (simp only: generate_stream_id_def Let_def bit_or_iff bit_push_bit_iff small_bits
      if_distrib [where f = "\<lambda>w. bit w 0"] simp_thms if_cancel) simp

lemma generate_bit_1: "bit (generate_stream_id n c t) 1 \<longleftrightarrow> t = Unidirectional"
  by (simp only: generate_stream_id_def Let_def bit_or_iff bit_push_bit_iff small_bits One_nat_def
      if_distrib [where f = "\<lambda>w. bit w (Suc 0)"] simp_thms if_cancel) simp

lemma generate_classified:
  "is_client_initiated (generate_stream_id n c t) \<longleftrightarrow> c"
  "is_unidirectional (generate_stream_id n c t) \<longleftrightarrow> t = Unidirectional"
  by (simp_all add: flag_bits generate_bit_0 generate_bit_1 del: One_nat_def)

section \<open>The counter\<close>

lemma push_bit_and_small:
  assumes "take_bit 2 m = m"
  shows "push_bit 2 (w :: u64) AND m = 0"
proof (rule bit_word_eqI)
  fix n
  have "bit m n \<Longrightarrow> n < 2"
    using bit_take_bit_iff [of 2 m n] assms by simp
  then show "bit (push_bit 2 w AND m) n \<longleftrightarrow> bit (0 :: u64) n"
    by (auto simp: bit_and_iff bit_push_bit_iff)
qed

lemma or_flag_eq_add: "push_bit 2 (w :: u64) OR 1 = push_bit 2 w + 1"
    "push_bit 2 w OR 2 = push_bit 2 w + 2" "push_bit 2 w OR 3 = push_bit 2 w + 3"
  by (rule disjunctive_add_eq_or [symmetric], rule push_bit_and_small, simp)+

lemma generate_eq_add:
  "generate_stream_id n c t =
     4 * (n + 1) + (if c then 0 else 1) + (if t = Unidirectional then 2 else 0)"
proof -
  have 3: "(push_bit 2 w + 1) OR 2 = push_bit 2 w + 3" for w :: u64
    unfolding or_flag_eq_add(3) [symmetric] or_flag_eq_add(1) [symmetric] or.assoc by simp
  have 4: "push_bit 2 w = 4 * w" for w :: u64
    by (simp add: push_bit_eq_mult)
  show ?thesis
    unfolding generate_stream_id_def Let_def
    by (cases c; cases t; simp only: 3 or_flag_eq_add if_True if_False simp_thms stream_type.distinct)
       (simp_all add: 4)
qed

lemma unat_generate:
  assumes "unat n < 2 ^ 62 - 1"
  shows "unat (generate_stream_id n c t) =
    4 * (unat n + 1) + (if c then 0 else 1) + (if t = Unidirectional then 2 else 0)"
  using assms
  by (simp add: generate_eq_add unat_word_ariths)

end
