(* ===== verification/Streams.thy ===== *)
theory Streams
  imports Swappable Stream_Ids
begin

text \<open>
  \<^verbatim>\<open>src/stream.rs\<close>: the user's \<^verbatim>\<open>Stream\<close> and the
  \<^verbatim>\<open>Context\<close> that serves it inside the connection, joined by three channels
  (messages to the user, control messages to the context, data to send).

  The world holds what the two share: the channels, each a state of the channel library
  under a handle, and the state \<open>'q\<close> of the picoquic C library with the memory it lends
  out.  The functions of the C library are fields of the environment record and arguments
  of every operation that calls one.  Rust's implicit drops are written out where they have
  an effect (closing a channel, discarding what it holds).
\<close>

section \<open>The environment and the world\<close>

text \<open>The callback events of picoquic that the sources name, and the rest.\<close>

datatype callback_event =
    callback_stream_data
  | callback_stream_fin
  | callback_stream_reset
  | callback_stop_sending
  | callback_prepare_to_send
  | callback_almost_ready
  | callback_close
  | callback_application_close
  | callback_other nat

text \<open>A \<^verbatim>\<open>SwapSendData\<close> message carries the handles of the new receiver and of
  the old sender.\<close>

datatype message =
    MClose
  | MRecvData bytes
  | MError error
  | MReset
  | MSwapSendData nat nat

record ('m, 'd, 'q) stream_env =
  msg_ops :: "('m, message) mpsc"
  data_ops :: "('d, bytes) mpsc"
  picoquic_reset_stream :: "'q \<Rightarrow> ptr \<Rightarrow> u64 \<Rightarrow> u64 \<Rightarrow> 'q"
  picoquic_stop_sending :: "'q \<Rightarrow> ptr \<Rightarrow> u64 \<Rightarrow> u64 \<Rightarrow> 'q"
  picoquic_mark_active_stream :: "'q \<Rightarrow> ptr \<Rightarrow> u64 \<Rightarrow> bool \<Rightarrow> 'q"
  picoquic_provide_stream_data_buffer :: "'q \<Rightarrow> ptr \<Rightarrow> nat \<Rightarrow> bool \<Rightarrow> bool \<Rightarrow> ptr \<times> 'q"
  c_read :: "'q \<Rightarrow> ptr \<Rightarrow> nat \<Rightarrow> bytes"  \<comment> \<open>\<^verbatim>\<open>slice::from_raw_parts\<close>\<close>
  c_write :: "'q \<Rightarrow> ptr \<Rightarrow> bytes \<Rightarrow> 'q"  \<comment> \<open>the final contents of a \<^verbatim>\<open>from_raw_parts_mut\<close> slice\<close>
  picoquic_get_peer_addr :: "'q \<Rightarrow> ptr \<Rightarrow> ptr \<times> int"
  sockaddr_as_inet :: "'q \<Rightarrow> ptr \<times> int \<Rightarrow> socket_addr option"
  sockaddr_as_inet6 :: "'q \<Rightarrow> ptr \<times> int \<Rightarrow> socket_addr option"

record ('m, 'd, 'q) world =
  msgs :: "nat \<Rightarrow> 'm"
  datas :: "nat \<Rightarrow> 'd chan_err"
  fresh :: nat
  quic :: 'q

text \<open>The connection extends both records, so the operations work on every extension.\<close>

type_synonym ('m, 'd, 'q, 'e) senv = "('m, 'd, 'q, 'e) stream_env_scheme"
type_synonym ('m, 'd, 'q, 'w) sworld = "('m, 'd, 'q, 'w) world_scheme"

section \<open>Operations on the ends of a channel\<close>

definition data_drop_tx ::
  "('m, 'd, 'q, 'e) senv \<Rightarrow> nat \<Rightarrow> ('m, 'd, 'q, 'w) sworld \<Rightarrow> ('m, 'd, 'q, 'w) sworld" where
  "data_drop_tx E h w = w\<lparr>datas := (datas w)(h := sender_drop (data_ops E) (datas w h))\<rparr>"

definition data_drop_rx ::
  "('m, 'd, 'q, 'e) senv \<Rightarrow> nat \<Rightarrow> ('m, 'd, 'q, 'w) sworld \<Rightarrow> ('m, 'd, 'q, 'w) sworld" where
  "data_drop_rx E h w = w\<lparr>datas := rx_drop (data_ops E) h (datas w)\<rparr>"

definition data_poll ::
  "('m, 'd, 'q, 'e) senv \<Rightarrow> nat swappable \<Rightarrow> ('m, 'd, 'q, 'w) sworld \<Rightarrow> (bytes option, error) poll \<times> nat swappable \<times> ('m, 'd, 'q, 'w) sworld" where
  "data_poll E s w =
     (case swappable_poll (rx_poll (data_ops E)) (rx_drop (data_ops E)) s (datas w) of
        (r, s', D) \<Rightarrow> (r, s', w\<lparr>datas := D\<rparr>))"

definition data_drop_swappable ::
  "('m, 'd, 'q, 'e) senv \<Rightarrow> nat swappable \<Rightarrow> ('m, 'd, 'q, 'w) sworld \<Rightarrow> ('m, 'd, 'q, 'w) sworld" where
  "data_drop_swappable E s w =
     w\<lparr>datas := swappable_drop (rx_drop (data_ops E)) s (datas w)\<rparr>"

fun drop_message ::
  "('m, 'd, 'q, 'e) senv \<Rightarrow> message \<Rightarrow> ('m, 'd, 'q, 'w) sworld \<Rightarrow> ('m, 'd, 'q, 'w) sworld" where
  "drop_message E (MSwapSendData rx tx) w = data_drop_tx E tx (data_drop_rx E rx w)"
| "drop_message E _ w = w"

definition msg_poll ::
  "('m, 'd, 'q, 'e) senv \<Rightarrow> nat \<Rightarrow> ('m, 'd, 'q, 'w) sworld \<Rightarrow> (message option, unit) poll \<times> ('m, 'd, 'q, 'w) sworld" where
  "msg_poll E h w =
     (case mpsc_poll (msg_ops E) (msgs w h) of (r, ch) \<Rightarrow> (r, w\<lparr>msgs := (msgs w)(h := ch)\<rparr>))"

text \<open>Every caller of \<^verbatim>\<open>unbounded_send\<close> looks at success only and drops a
  message that comes back.\<close>

definition msg_send ::
  "('m, 'd, 'q, 'e) senv \<Rightarrow> nat \<Rightarrow> message \<Rightarrow> ('m, 'd, 'q, 'w) sworld \<Rightarrow> bool \<times> ('m, 'd, 'q, 'w) sworld" where
  "msg_send E h m w =
     (case mpsc_unbounded_send (msg_ops E) (msgs w h) m of (r, ch) \<Rightarrow>
        let w = w\<lparr>msgs := (msgs w)(h := ch)\<rparr> in
        case r of Ok _ \<Rightarrow> (True, w) | Err m' \<Rightarrow> (False, drop_message E m' w))"

definition msg_drop_tx ::
  "('m, 'd, 'q, 'e) senv \<Rightarrow> nat \<Rightarrow> ('m, 'd, 'q, 'w) sworld \<Rightarrow> ('m, 'd, 'q, 'w) sworld" where
  "msg_drop_tx E h w = w\<lparr>msgs := (msgs w)(h := mpsc_drop_tx (msg_ops E) (msgs w h))\<rparr>"

definition msg_drop_rx ::
  "('m, 'd, 'q, 'e) senv \<Rightarrow> nat \<Rightarrow> ('m, 'd, 'q, 'w) sworld \<Rightarrow> ('m, 'd, 'q, 'w) sworld" where
  "msg_drop_rx E h w =
     (case mpsc_drop_rx (msg_ops E) (msgs w h) of (ms, ch) \<Rightarrow>
        fold (drop_message E) ms (w\<lparr>msgs := (msgs w)(h := ch)\<rparr>))"

definition new_msg_chan ::
  "('m, 'd, 'q, 'e) senv \<Rightarrow> ('m, 'd, 'q, 'w) sworld \<Rightarrow> nat \<times> ('m, 'd, 'q, 'w) sworld" where
  "new_msg_chan E w =
     (fresh w, w\<lparr>msgs := (msgs w)(fresh w := mpsc_new (msg_ops E) None), fresh := Suc (fresh w)\<rparr>)"

definition new_data_chan ::
  "('m, 'd, 'q, 'e) senv \<Rightarrow> nat \<Rightarrow> ('m, 'd, 'q, 'w) sworld \<Rightarrow> nat \<times> ('m, 'd, 'q, 'w) sworld" where
  "new_data_chan E sz w =
     (fresh w, w\<lparr>datas := (datas w)(fresh w := channel (data_ops E) sz), fresh := Suc (fresh w)\<rparr>)"

section \<open>The stream context\<close>

record stream_ctx =
  sc_recv_msg :: nat
  sc_send_data :: "nat swappable option"
  sc_control_msg :: nat
  sc_id :: u64
  sc_cnx :: ptr
  sc_is_client_con :: bool
  sc_data_send :: bool
  sc_stop_sending_or_fin_sent :: bool
  sc_fin_received_or_recv_msg_dropped :: bool
  sc_active_buffer :: "bytes option"

definition create_send_and_recv_data ::
  "('m, 'd, 'q, 'e) senv \<Rightarrow> u64 \<Rightarrow> bool \<Rightarrow> nat \<Rightarrow> ('m, 'd, 'q, 'w) sworld \<Rightarrow>
   (nat option \<times> nat option) \<times> ('m, 'd, 'q, 'w) sworld" where
  "create_send_and_recv_data E sid client_con sz w =
     (if is_unidirectional sid \<and> \<not> is_unidirectional_send_allowed sid client_con
      then ((None, None), w)
      else case new_data_chan E sz w of (h, w') \<Rightarrow> ((Some h, Some h), w'))"

text \<open>\<^verbatim>\<open>Context::new\<close> polls both receivers once, to register the task; a message
  that the poll would return is dropped.\<close>

definition context_new ::
  "('m, 'd, 'q, 'e) senv \<Rightarrow> nat \<Rightarrow> nat \<Rightarrow> nat option \<Rightarrow> u64 \<Rightarrow> ptr \<Rightarrow> bool \<Rightarrow> ('m, 'd, 'q, 'w) sworld \<Rightarrow>
   stream_ctx \<times> ('m, 'd, 'q, 'w) sworld" where
  "context_new E recv_msg control_msg send_data sid cnx is_client_con w =
     (let w = (case msg_poll E control_msg w of
                 (Ok (Ready (Some m)), w') \<Rightarrow> drop_message E m w'
               | (_, w') \<Rightarrow> w');
          w = (case send_data of
                 Some s \<Rightarrow> w\<lparr>datas := snd (snd (rx_poll (data_ops E) s (datas w)))\<rparr>
               | None \<Rightarrow> w)
      in (\<lparr>sc_recv_msg = recv_msg,
           sc_send_data = map_option swappable_new send_data,
           sc_control_msg = control_msg,
           sc_id = sid,
           sc_cnx = cnx,
           sc_is_client_con = is_client_con,
           sc_data_send = False,
           sc_stop_sending_or_fin_sent =
             (is_unidirectional sid \<and> \<not> is_unidirectional_send_allowed sid is_client_con),
           sc_fin_received_or_recv_msg_dropped =
             (is_unidirectional sid \<and> is_unidirectional_send_allowed sid is_client_con),
           sc_active_buffer = None\<rparr>, w))"

definition close_send_data ::
  "('m, 'd, 'q, 'e) senv \<Rightarrow> stream_ctx \<Rightarrow> ('m, 'd, 'q, 'w) sworld \<Rightarrow> stream_ctx \<times> ('m, 'd, 'q, 'w) sworld" where
  "close_send_data E c w =
     (case sc_send_data c of
        Some s \<Rightarrow>
          let h = swappable_deref s;
              w = w\<lparr>datas := (datas w)(h := receiver_close (data_ops E) (datas w h))\<rparr>
          in (c\<lparr>sc_send_data := None\<rparr>, data_drop_swappable E s w)
      | None \<Rightarrow> (c, w))"

definition context_reset ::
  "('m, 'd, 'q, 'e) senv \<Rightarrow> stream_ctx \<Rightarrow> ('m, 'd, 'q, 'w) sworld \<Rightarrow> stream_ctx \<times> ('m, 'd, 'q, 'w) sworld" where
  "context_reset E c w =
     (let c = c\<lparr>sc_stop_sending_or_fin_sent := True\<rparr>;
          (c, w) = close_send_data E c w
      in (c, w\<lparr>quic := picoquic_reset_stream E (quic w) (sc_cnx c) (sc_id c) 0\<rparr>))"

definition recv_message_dropped ::
  "('m, 'd, 'q, 'e) senv \<Rightarrow> stream_ctx \<Rightarrow> ('m, 'd, 'q, 'w) sworld \<Rightarrow> stream_ctx \<times> ('m, 'd, 'q, 'w) sworld" where
  "recv_message_dropped E c w =
     (if \<not> sc_fin_received_or_recv_msg_dropped c then
        let c = c\<lparr>sc_fin_received_or_recv_msg_dropped := True\<rparr> in
        if \<not> is_unidirectional (sc_id c) \<or>
           \<not> is_unidirectional_send_allowed (sc_id c) (sc_is_client_con c)
        then (c, w\<lparr>quic := picoquic_stop_sending E (quic w) (sc_cnx c) (sc_id c) 0\<rparr>)
        else (c, w)
      else (c, w))"

definition recv_message ::
  "('m, 'd, 'q, 'e) senv \<Rightarrow> stream_ctx \<Rightarrow> message \<Rightarrow> ('m, 'd, 'q, 'w) sworld \<Rightarrow> stream_ctx \<times> ('m, 'd, 'q, 'w) sworld" where
  "recv_message E c msg w =
     (case msg_send E (sc_recv_msg c) msg w of
        (sent, w') \<Rightarrow> if \<not> sent then recv_message_dropped E c w' else (c, w'))"

section \<open>Sending\<close>

text \<open>
  The loop of \<^verbatim>\<open>collect_buffers_to_send\<close>, over any stream of buffers.  It returns
  the total size, whether to set the fin bit, and the buffers.  \<^verbatim>\<open>expect\<close> panics
  on an error.
\<close>

partial_function (option) collect_loop ::
  "('s \<Rightarrow> 'w \<Rightarrow> (bytes option, error) poll \<times> 's \<times> 'w) \<Rightarrow> nat \<Rightarrow> nat \<Rightarrow> bytes list \<Rightarrow>
   's option \<Rightarrow> 'w \<Rightarrow> (nat \<times> bool \<times> bytes list \<times> 's option \<times> 'w) option" where
  "collect_loop poll max_length sz buffers send_data w =
     (if sz \<le> max_length then
        case send_data of
          Some recv \<Rightarrow>
            (case poll recv w of (r, recv', w') \<Rightarrow>
               case r of
                 Err e \<Rightarrow> None
               | Ok a \<Rightarrow>
                   (case a of
                      NotReady \<Rightarrow> Some (sz, False, buffers, Some recv', w')
                    | Ready msg \<Rightarrow>
                        (case msg of
                           Some buf \<Rightarrow>
                             collect_loop poll max_length (sz + length buf) (buffers @ [buf])
                               (Some recv') w'
                         | None \<Rightarrow> Some (sz, True, buffers, Some recv', w'))))
        | None \<Rightarrow> Some (sz, True, buffers, None, w)
      else Some (sz, False, buffers, send_data, w))"

definition collect_buffers_to_send ::
  "('m, 'd, 'q, 'e) senv \<Rightarrow> nat \<Rightarrow> stream_ctx \<Rightarrow> ('m, 'd, 'q, 'w) sworld \<Rightarrow>
   (nat \<times> bool \<times> bytes list \<times> stream_ctx \<times> ('m, 'd, 'q, 'w) sworld) option" where
  "collect_buffers_to_send E max_length c w =
     (let buffers = (case sc_active_buffer c of Some buf \<Rightarrow> [buf] | None \<Rightarrow> []);
          sz = (case sc_active_buffer c of Some buf \<Rightarrow> length buf | None \<Rightarrow> 0)
      in do {
        (sz, fin, buffers, send_data, w) \<leftarrow>
          collect_loop (data_poll E) max_length sz buffers (sc_send_data c) w;
        Some (sz, fin, buffers, c\<lparr>sc_active_buffer := None, sc_send_data := send_data\<rparr>, w)
      })"

text \<open>
  The closure of \<^verbatim>\<open>for_each\<close> over the collected buffers: it fills the slice lent
  by picoquic and keeps what does not fit as the active buffer.  A range that leaves the
  slice and a second remainder both panic.
\<close>

definition copy_buffer :: "nat \<Rightarrow> bytes \<Rightarrow> nat \<Rightarrow> bytes \<Rightarrow> (bytes \<times> bytes \<times> nat) option" where
  "copy_buffer len buf written dest =
     (if written < len then
        let end = min (written + length buf) len;
            buf_end = end - written
        in if length dest < end \<or> length buf < buf_end then None
           else Some (take written dest @ take buf_end buf @ drop end dest, drop buf_end buf, end)
      else Some (dest, buf, written))"

primrec write_buffers ::
  "nat \<Rightarrow> bytes list \<Rightarrow> nat \<Rightarrow> bytes \<Rightarrow> bytes option \<Rightarrow> (bytes \<times> bytes option) option" where
  "write_buffers len [] written dest active = Some (dest, active)"
| "write_buffers len (buf # bufs) written dest active =
     do {
       (dest, buf, written) \<leftarrow> copy_buffer len buf written dest;
       (if buf \<noteq> [] \<and> active = None then write_buffers len bufs written dest (Some buf)
        else if buf \<noteq> [] then None
        else write_buffers len bufs written dest active)
     }"

definition handle_send_data ::
  "('m, 'd, 'q, 'e) senv \<Rightarrow> ptr \<Rightarrow> nat \<Rightarrow> stream_ctx \<Rightarrow> ('m, 'd, 'q, 'w) sworld \<Rightarrow>
   (stream_ctx \<times> ('m, 'd, 'q, 'w) sworld) option" where
  "handle_send_data E ctx max_length c w =
     do {
       (sz, fin, buffers, c, w) \<leftarrow> collect_buffers_to_send E max_length c w;
       let c = c\<lparr>sc_data_send := (sc_data_send c \<or> sz > 0)\<rparr>;
       let still_active = (sz > max_length \<and> \<not> fin);
       let len = min max_length sz;
       let (dest, q) = picoquic_provide_stream_data_buffer E (quic w) ctx len fin still_active;
       (if dest = 0 then None else do {
          let c = c\<lparr>sc_stop_sending_or_fin_sent := fin\<rparr>;
          (slice, active) \<leftarrow> write_buffers len buffers 0 (c_read E q dest len) (sc_active_buffer c);
          Some (c\<lparr>sc_active_buffer := active\<rparr>, w\<lparr>quic := c_write E q dest slice\<rparr>)
        })
     }"

definition handle_send_data_dropped ::
  "('m, 'd, 'q, 'e) senv \<Rightarrow> stream_ctx \<Rightarrow> ('m, 'd, 'q, 'w) sworld \<Rightarrow> stream_ctx \<times> ('m, 'd, 'q, 'w) sworld" where
  "handle_send_data_dropped E c w =
     (let w = (case sc_send_data c of Some s \<Rightarrow> data_drop_swappable E s w | None \<Rightarrow> w);
          c = c\<lparr>sc_send_data := None\<rparr>
      in if \<not> sc_data_send c \<and> sc_active_buffer c = None then context_reset E c w
         else if \<not> sc_stop_sending_or_fin_sent c then
           (c, w\<lparr>quic := picoquic_mark_active_stream E (quic w) (sc_cnx c) (sc_id c) True\<rparr>)
         else (c, w))"

section \<open>Callbacks and connection events\<close>

definition stream_handle_callback ::
  "('m, 'd, 'q, 'e) senv \<Rightarrow> ptr \<Rightarrow> nat \<Rightarrow> callback_event \<Rightarrow> stream_ctx \<Rightarrow> ('m, 'd, 'q, 'w) sworld \<Rightarrow>
   (stream_ctx \<times> ('m, 'd, 'q, 'w) sworld) option" where
  "stream_handle_callback E ptr len event c w =
     (if event = callback_prepare_to_send then handle_send_data E ptr len c w
      else
        let data = c_read E (quic w) ptr len;
            (c, w) = (if data \<noteq> [] \<and> \<not> sc_fin_received_or_recv_msg_dropped c
                      then recv_message E c (MRecvData data) w else (c, w))
        in Some
          (if event = callback_stream_reset then
             recv_message E (c\<lparr>sc_fin_received_or_recv_msg_dropped := True\<rparr>) MReset w
           else if event = callback_stop_sending then
             close_send_data E (c\<lparr>sc_stop_sending_or_fin_sent := True\<rparr>) w
           else if event = callback_stream_fin then
             recv_message E (c\<lparr>sc_fin_received_or_recv_msg_dropped := True\<rparr>) MClose w
           else (c, w)))"

definition handle_connection_error ::
  "('m, 'd, 'q, 'e) senv \<Rightarrow> error_fn \<Rightarrow> stream_ctx \<Rightarrow> ('m, 'd, 'q, 'w) sworld \<Rightarrow> stream_ctx \<times> ('m, 'd, 'q, 'w) sworld" where
  "handle_connection_error E err c w =
     (let (c, w) = recv_message E c (MError (err ())) w
      in case sc_send_data c of
           Some s \<Rightarrow>
             let h = swappable_deref s
             in (c, w\<lparr>datas := (datas w)(h := propagate_error err (datas w h))\<rparr>)
         | None \<Rightarrow> (c, w))"

definition handle_connection_close ::
  "('m, 'd, 'q, 'e) senv \<Rightarrow> stream_ctx \<Rightarrow> ('m, 'd, 'q, 'w) sworld \<Rightarrow> stream_ctx \<times> ('m, 'd, 'q, 'w) sworld" where
  "handle_connection_close E c w = recv_message E c MClose w"

section \<open>Polling the context\<close>

text \<open>\<^verbatim>\<open>poll_control_msg\<close> panics on a message that only the other direction
  carries.\<close>

partial_function (option) poll_control_msg ::
  "('m, 'd, 'q, 'e) senv \<Rightarrow> stream_ctx \<Rightarrow> ('m, 'd, 'q, 'w) sworld \<Rightarrow>
   ((unit, error) poll \<times> stream_ctx \<times> ('m, 'd, 'q, 'w) sworld) option" where
  "poll_control_msg E c w =
     (case msg_poll E (sc_control_msg c) w of (r, w) \<Rightarrow>
        case r of
          Err e \<Rightarrow> Some (Err (error_from_kind Unknown), c, w)
        | Ok a \<Rightarrow>
            (case a of
               NotReady \<Rightarrow> Some (Ok NotReady, c, w)
             | Ready msg \<Rightarrow>
                 (case msg of
                    None \<Rightarrow>
                      (case recv_message_dropped E c w of (c, w) \<Rightarrow> Some (Ok (Ready ()), c, w))
                  | Some m \<Rightarrow>
                      (case m of
                         MReset \<Rightarrow>
                           (case context_reset E c w of (c, w) \<Rightarrow> poll_control_msg E c w)
                       | MSwapSendData new_receiver old_sender \<Rightarrow>
                           (case sc_send_data c of
                              Some s \<Rightarrow>
                                (case set_swap_to (rx_drop (data_ops E)) s new_receiver (datas w) of
                                   (s, D) \<Rightarrow>
                                     poll_control_msg E (c\<lparr>sc_send_data := Some s\<rparr>)
                                       (data_drop_tx E old_sender (w\<lparr>datas := D\<rparr>)))
                            | None \<Rightarrow>
                                poll_control_msg E c
                                  (data_drop_tx E old_sender (data_drop_rx E new_receiver w)))
                       | _ \<Rightarrow> None))))"

definition poll_send_data ::
  "('m, 'd, 'q, 'e) senv \<Rightarrow> stream_ctx \<Rightarrow> ('m, 'd, 'q, 'w) sworld \<Rightarrow>
   (unit, error) result \<times> stream_ctx \<times> ('m, 'd, 'q, 'w) sworld" where
  "poll_send_data E c w =
     (case (sc_active_buffer c, sc_send_data c) of
        (None, Some recv) \<Rightarrow>
          (case data_poll E recv w of
             (Err e, recv', w') \<Rightarrow> (Err e, c\<lparr>sc_send_data := Some recv'\<rparr>, w')
           | (Ok (Ready (Some buf)), recv', w') \<Rightarrow>
               (Ok (), c\<lparr>sc_send_data := Some recv', sc_active_buffer := Some buf\<rparr>,
                w'\<lparr>quic := picoquic_mark_active_stream E (quic w') (sc_cnx c) (sc_id c) True\<rparr>)
           | (Ok (Ready None), recv', w') \<Rightarrow>
               (Ok (), handle_send_data_dropped E (c\<lparr>sc_send_data := Some recv'\<rparr>) w')
           | (Ok NotReady, recv', w') \<Rightarrow> (Ok (), c\<lparr>sc_send_data := Some recv'\<rparr>, w'))
      | _ \<Rightarrow> (Ok (), c, w))"

definition stream_context_poll ::
  "('m, 'd, 'q, 'e) senv \<Rightarrow> stream_ctx \<Rightarrow> ('m, 'd, 'q, 'w) sworld \<Rightarrow>
   ((unit, error) poll \<times> stream_ctx \<times> ('m, 'd, 'q, 'w) sworld) option" where
  "stream_context_poll E c w =
     do {
       (r, c, w) \<leftarrow> poll_control_msg E c w;
       (case r of
          Err e \<Rightarrow> Some (Err e, c, w)
        | Ok _ \<Rightarrow>
            let (r, c, w) = poll_send_data E c w in
            case r of
              Err e \<Rightarrow> Some (Err e, c, w)
            | Ok _ \<Rightarrow>
                Some (if sc_stop_sending_or_fin_sent c \<and> sc_fin_received_or_recv_msg_dropped c
                      then Ok (Ready ()) else Ok NotReady, c, w))
     }"

text \<open>\<^verbatim>\<open>Drop for Context\<close>, followed by the drop of its fields.\<close>

definition stream_context_drop ::
  "('m, 'd, 'q, 'e) senv \<Rightarrow> stream_ctx \<Rightarrow> ('m, 'd, 'q, 'w) sworld \<Rightarrow> ('m, 'd, 'q, 'w) sworld" where
  "stream_context_drop E c w =
     (let w = snd (msg_send E (sc_recv_msg c) MClose w);
          (c, w) = close_send_data E c w;
          w = msg_drop_tx E (sc_recv_msg c) w
      in msg_drop_rx E (sc_control_msg c) w)"

section \<open>The user's stream\<close>

record stream =
  st_recv_msg :: nat
  st_control_msg :: nat
  st_send_data :: "nat option"
  st_id :: u64
  st_peer_addr :: socket_addr
  st_local_addr :: socket_addr
  st_stream_reset :: bool

text \<open>\<^verbatim>\<open>socket_addr_from_sockaddr\<close> panics on an address that is neither v4 nor
  v6.\<close>

definition socket_addr_from_sockaddr ::
  "('m, 'd, 'q, 'e) senv \<Rightarrow> 'q \<Rightarrow> ptr \<times> int \<Rightarrow> socket_addr option" where
  "socket_addr_from_sockaddr E q sock_addr =
     (case sockaddr_as_inet E q sock_addr of
        Some a \<Rightarrow> Some a
      | None \<Rightarrow> sockaddr_as_inet6 E q sock_addr)"

definition cnx_peer_addr ::
  "('m, 'd, 'q, 'e) senv \<Rightarrow> 'q \<Rightarrow> ptr \<Rightarrow> socket_addr option" where
  "cnx_peer_addr E q cnx = socket_addr_from_sockaddr E q (picoquic_get_peer_addr E q cnx)"

definition stream_new ::
  "('m, 'd, 'q, 'e) senv \<Rightarrow> u64 \<Rightarrow> ptr \<Rightarrow> socket_addr \<Rightarrow> bool \<Rightarrow> nat \<Rightarrow> ('m, 'd, 'q, 'w) sworld \<Rightarrow>
   (stream \<times> stream_ctx \<times> ('m, 'd, 'q, 'w) sworld) option" where
  "stream_new E sid cnx local_addr is_client_con send_channel_default_size w =
     (let (recv_msg, w) = new_msg_chan E w;
          (control_msg, w) = new_msg_chan E w;
          ((send_data, recv_data), w) =
            create_send_and_recv_data E sid is_client_con send_channel_default_size w;
          (ctx, w) = context_new E recv_msg control_msg recv_data sid cnx is_client_con w
      in do {
        peer_addr \<leftarrow> cnx_peer_addr E (quic w) cnx;
        Some (\<lparr>st_recv_msg = recv_msg, st_control_msg = control_msg, st_send_data = send_data,
               st_id = sid, st_peer_addr = peer_addr, st_local_addr = local_addr,
               st_stream_reset = False\<rparr>, ctx, w)
      })"

definition get_type :: "stream \<Rightarrow> stream_type" where
  "get_type st = (if is_unidirectional (st_id st) then Unidirectional else Bidirectional)"

definition stream_peer_addr :: "stream \<Rightarrow> socket_addr" where
  "stream_peer_addr st = st_peer_addr st"

definition stream_local_addr :: "stream \<Rightarrow> socket_addr" where
  "stream_local_addr st = st_local_addr st"

definition stream_reset ::
  "('m, 'd, 'q, 'e) senv \<Rightarrow> stream \<Rightarrow> ('m, 'd, 'q, 'w) sworld \<Rightarrow> (unit, error) result \<times> ('m, 'd, 'q, 'w) sworld" where
  "stream_reset E st w =
     (case msg_send E (st_control_msg st) MReset w of
        (sent, w') \<Rightarrow> (if sent then Ok () else Err (error_from_kind Unknown), w'))"

definition is_reset :: "stream \<Rightarrow> bool" where
  "is_reset st = st_stream_reset st"

definition get_send_data :: "stream \<Rightarrow> (nat, error) result" where
  "get_send_data st =
     (case st_send_data st of Some h \<Rightarrow> Ok h | None \<Rightarrow> Err (error_from_kind SendOnUnidirectional))"

definition set_send_channel_size ::
  "('m, 'd, 'q, 'e) senv \<Rightarrow> nat \<Rightarrow> stream \<Rightarrow> ('m, 'd, 'q, 'w) sworld \<Rightarrow> stream \<times> ('m, 'd, 'q, 'w) sworld" where
  "set_send_channel_size E sz st w =
     (case st_send_data st of
        Some old_sender \<Rightarrow>
          (case new_data_chan E sz w of (h, w) \<Rightarrow>
             (st\<lparr>st_send_data := Some h\<rparr>,
              snd (msg_send E (st_control_msg st) (MSwapSendData h old_sender) w)))
      | None \<Rightarrow> (st, w))"

text \<open>\<^verbatim>\<open>Stream::poll\<close> panics on \<^verbatim>\<open>SwapSendData\<close>.\<close>

definition stream_poll ::
  "('m, 'd, 'q, 'e) senv \<Rightarrow> stream \<Rightarrow> ('m, 'd, 'q, 'w) sworld \<Rightarrow>
   ((bytes option, error) poll \<times> stream \<times> ('m, 'd, 'q, 'w) sworld) option" where
  "stream_poll E st w =
     (case msg_poll E (st_recv_msg st) w of (r, w) \<Rightarrow>
        case r of
          Err _ \<Rightarrow> Some (Err (error_from_kind Unknown), st, w)
        | Ok NotReady \<Rightarrow> Some (Ok NotReady, st, w)
        | Ok (Ready (Some MClose)) \<Rightarrow> Some (Ok (Ready None), st, w)
        | Ok (Ready None) \<Rightarrow> Some (Ok (Ready None), st, w)
        | Ok (Ready (Some (MRecvData d))) \<Rightarrow> Some (Ok (Ready (Some d)), st, w)
        | Ok (Ready (Some (MError err))) \<Rightarrow> Some (Err err, st, w)
        | Ok (Ready (Some MReset)) \<Rightarrow>
            Some (Ok (Ready None), st\<lparr>st_stream_reset := True\<rparr>, w)
        | Ok (Ready (Some (MSwapSendData _ _))) \<Rightarrow> None)"

definition stream_start_send ::
  "('m, 'd, 'q, 'e) senv \<Rightarrow> bytes \<Rightarrow> stream \<Rightarrow> ('m, 'd, 'q, 'w) sworld \<Rightarrow>
   (bytes async_sink, error) result \<times> ('m, 'd, 'q, 'w) sworld" where
  "stream_start_send E item st w =
     (case get_send_data st of
        Err e \<Rightarrow> (Err e, w)
      | Ok h \<Rightarrow>
          (case sender_start_send (data_ops E) (datas w h) item of (r, ce) \<Rightarrow>
             (map_err (\<lambda>e. case e of Channel e _ \<Rightarrow> e
                                  | Normal e \<Rightarrow> error_from_kind (SendErrorKind e)) r,
              w\<lparr>datas := (datas w)(h := ce)\<rparr>)))"

definition stream_poll_complete ::
  "('m, 'd, 'q, 'e) senv \<Rightarrow> stream \<Rightarrow> ('m, 'd, 'q, 'w) sworld \<Rightarrow> (unit, error) poll \<times> ('m, 'd, 'q, 'w) sworld" where
  "stream_poll_complete E st w =
     (case get_send_data st of
        Err e \<Rightarrow> (Err e, w)
      | Ok h \<Rightarrow>
          (case sender_poll_complete (data_ops E) (datas w h) of (r, ce) \<Rightarrow>
             (map_err (\<lambda>_. error_from_kind Unknown) r, w\<lparr>datas := (datas w)(h := ce)\<rparr>)))"

text \<open>Dropping a \<^verbatim>\<open>Stream\<close> drops its receiver and its senders.\<close>

definition stream_drop ::
  "('m, 'd, 'q, 'e) senv \<Rightarrow> stream \<Rightarrow> ('m, 'd, 'q, 'w) sworld \<Rightarrow> ('m, 'd, 'q, 'w) sworld" where
  "stream_drop E st w =
     (let w = msg_drop_rx E (st_recv_msg st) w;
          w = msg_drop_tx E (st_control_msg st) w
      in case st_send_data st of Some h \<Rightarrow> data_drop_tx E h w | None \<Rightarrow> w)"

text \<open>The two loops evaluate by their defining equations.\<close>

declare collect_loop.simps [code] poll_control_msg.simps [code]

end
