(* ===== verification/Stream_Sending.thy ===== *)
theory Stream_Sending
  imports Streams
begin

text \<open>
  What the sending half of \<^verbatim>\<open>src/stream.rs\<close> guarantees: the buffers that the user
  queued leave for picoquic byte by byte, in order, without loss; the fin bit is set only
  behind the last byte; the loops end, no sum of lengths overflows and no panic is reachable.
\<close>

section \<open>Collecting buffers\<close>

locale byte_stream = poll_stream poll items ended valid
  for poll :: "'s \<Rightarrow> 'w \<Rightarrow> (bytes option, error) poll \<times> 's \<times> 'w"
    and items :: "'s \<Rightarrow> 'w \<Rightarrow> bytes list"
    and ended :: "'s \<Rightarrow> 'w \<Rightarrow> bool"
    and valid :: "'s \<Rightarrow> 'w \<Rightarrow> bool"
begin

text \<open>What one run of the collecting loop leaves behind, from a size \<open>sz\<close> on.\<close>

definition collected ::
  "nat \<Rightarrow> nat \<Rightarrow> 's \<Rightarrow> 'w \<Rightarrow> bytes list \<Rightarrow> bool \<Rightarrow> 's \<Rightarrow> 'w \<Rightarrow> bool" where
  "collected max_length sz s w new fin s' w' \<longleftrightarrow>
     items s w = new @ items s' w' \<and> valid s' w' \<and> ended s' w' = ended s w \<and>
     (fin \<longrightarrow> sz + length (concat new) \<le> max_length \<and> items s' w' = [] \<and> ended s w) \<and>
     (\<not> fin \<and> sz + length (concat new) \<le> max_length \<longrightarrow> \<not> ended s w) \<and>
     (new \<noteq> [] \<longrightarrow> sz + length (concat (butlast new)) \<le> max_length)"

text \<open>A poll after which there is nothing more to have.\<close>

definition dry_poll :: "'s \<Rightarrow> 'w \<Rightarrow> 's \<Rightarrow> 'w \<Rightarrow> bool" where
  "dry_poll s w s' w' \<longleftrightarrow> (\<exists>r. poll s w = (r, s', w') \<and> (\<forall>i. r \<noteq> Ok (Ready (Some i))))"

lemma collect_loop_total:
  assumes "valid s w"
    and P: "P s w" "\<And>s w r s' w'. P s w \<Longrightarrow> poll s w = (r, s', w') \<Longrightarrow> P s' w'"
  obtains new fin s' w' where
    "collect_loop poll max_length sz buffers (Some s) w =
       Some (sz + length (concat new), fin, buffers @ new, Some s', w')"
    "collected max_length sz s w new fin s' w'" "P s' w'"
    "sz + length (concat new) \<le> max_length \<Longrightarrow> \<exists>s1 w1. P s1 w1 \<and> dry_poll s1 w1 s' w'"
proof -
  have "\<exists>new fin s' w'. collect_loop poll max_length sz buffers (Some s) w =
       Some (sz + length (concat new), fin, buffers @ new, Some s', w') \<and>
       collected max_length sz s w new fin s' w' \<and> P s' w' \<and>
       (sz + length (concat new) \<le> max_length \<longrightarrow> (\<exists>s1 w1. P s1 w1 \<and> dry_poll s1 w1 s' w'))"
    using assms(1) P(1)
  proof (induction "length (items s w)" arbitrary: s w sz buffers rule: less_induct)
    case less
    show ?case
    proof (cases "sz \<le> max_length")
      case False
      with less.prems show ?thesis
        by (subst collect_loop.simps) (force simp: collected_def)
    next
      case True
      from less.prems(1) show ?thesis
      proof (cases rule: poll_cases)
        case (item i s1 w1)
        with less.prems have "P s1 w1" by (blast intro: P(2))
        moreover from item have "length (items s1 w1) < length (items s w)" by simp
        ultimately obtain new fin s' w' where
          r: "collect_loop poll max_length (sz + length i) (buffers @ [i]) (Some s1) w1 =
            Some (sz + length i + length (concat new), fin, (buffers @ [i]) @ new, Some s', w')"
            "collected max_length (sz + length i) s1 w1 new fin s' w'" "P s' w'"
            "sz + length i + length (concat new) \<le> max_length \<longrightarrow> (\<exists>s2 w2. P s2 w2 \<and> dry_poll s2 w2 s' w')"
          using less.hyps [of s1 w1 "sz + length i" "buffers @ [i]"] item(3) by blast
        moreover have "collected max_length sz s w (i # new) fin s' w'"
          using r(2) item True by (auto simp: collected_def add.assoc)
        ultimately show ?thesis
          using item True
          by (subst collect_loop.simps) (auto intro!: exI [of _ "i # new"])
      next
        case (fin s' w')
        with less.prems have "P s' w'" "dry_poll s w s' w'" by (auto simp: dry_poll_def intro: P(2))
        moreover from fin True have "collected max_length sz s w [] True s' w'"
          by (simp add: collected_def)
        moreover from fin True have "collect_loop poll max_length sz buffers (Some s) w =
            Some (sz + length (concat []), True, buffers @ [], Some s', w')"
          by (subst collect_loop.simps) simp
        ultimately show ?thesis using less.prems(2) by blast
      next
        case (pending s' w')
        with less.prems have "P s' w'" "dry_poll s w s' w'" by (auto simp: dry_poll_def intro: P(2))
        moreover from pending True have "collected max_length sz s w [] False s' w'"
          by (simp add: collected_def)
        moreover from pending True have "collect_loop poll max_length sz buffers (Some s) w =
            Some (sz + length (concat []), False, buffers @ [], Some s', w')"
          by (subst collect_loop.simps) simp
        ultimately show ?thesis using less.prems(2) by blast
      qed
    qed
  qed
  then show ?thesis using that by blast
qed

end

section \<open>Filling the slice\<close>

lemma copy_buffer_fits:
  assumes "length dest = len" "written + length buf \<le> len"
  shows "copy_buffer len buf written dest =
    Some (take written dest @ buf @ drop (written + length buf) dest, [], written + length buf)"
  using assms by (cases buf) (auto simp: copy_buffer_def Let_def min_def)

lemma copy_buffer_last:
  assumes "length dest = len" "written \<le> len" "len \<le> written + length buf"
  shows "copy_buffer len buf written dest =
    Some (take written dest @ take (len - written) buf, drop (len - written) buf, len)"
  using assms by (auto simp: copy_buffer_def Let_def min_def)

text \<open>Every buffer but the last fits, so at most one remainder is left.\<close>

lemma write_buffers_correct:
  assumes "length dest = len" "written \<le> len"
    and "bufs \<noteq> [] \<Longrightarrow> written + length (concat (butlast bufs)) \<le> len"
    and "len \<le> written + length (concat bufs)"
  shows "write_buffers len bufs written dest None =
    Some (take written dest @ take (len - written) (concat bufs),
          if length (concat bufs) \<le> len - written then None
          else Some (drop (len - written) (concat bufs)))"
  using assms
proof (induction bufs arbitrary: written dest)
  case Nil
  then show ?case by simp
next
  case (Cons buf bufs)
  show ?case
  proof (cases "bufs = []")
    case True
    with Cons.prems show ?thesis by (auto simp: copy_buffer_last)
  next
    case False
    with Cons.prems(3) have fits: "written + length buf + length (concat (butlast bufs)) \<le> len"
      by simp
    let ?dest = "take written dest @ buf @ drop (written + length buf) dest"
    have "write_buffers len bufs (written + length buf) ?dest None =
      Some (take (written + length buf) ?dest @ take (len - (written + length buf)) (concat bufs),
            if length (concat bufs) \<le> len - (written + length buf) then None
            else Some (drop (len - (written + length buf)) (concat bufs)))"
      using Cons.prems fits by (intro Cons.IH) auto
    with Cons.prems(1,2) fits show ?thesis
      by (auto simp: copy_buffer_fits)
  qed
qed

section \<open>The channels of a stream\<close>

text \<open>What the sources rely on: both kinds of channel behave as documented.\<close>

locale stream_channels =
  mch: mpsc_channel "msg_ops E" mview + dch: mpsc_channel "data_ops E" dview
  for E :: "('m, 'd, 'q, 'e) senv"
    and mview :: "'m \<Rightarrow> message chan_view"
    and dview :: "'d \<Rightarrow> bytes chan_view"

text \<open>The buffers in the data channel of handle \<open>h\<close>, and what a context still has to send:
  first its active buffer, then the buffers that its receivers hold.\<close>

definition chan_items :: "('d \<Rightarrow> bytes chan_view) \<Rightarrow> nat \<Rightarrow> (nat \<Rightarrow> 'd chan_err) \<Rightarrow> bytes list" where
  "chan_items dview h D = cv_buffer (dview (ce_chan (D h)))"

definition chan_ended :: "('d \<Rightarrow> bytes chan_view) \<Rightarrow> nat \<Rightarrow> (nat \<Rightarrow> 'd chan_err) \<Rightarrow> bool" where
  "chan_ended dview h D = view_ended (dview (ce_chan (D h)))"

definition data_items where
  "data_items dview s w = swap_items (chan_items dview) s (datas w)"

definition data_ended where
  "data_ended dview s w = swap_ended (chan_ended dview) s (datas w)"

definition data_valid :: "nat swappable \<Rightarrow> bool" where
  "data_valid s \<longleftrightarrow> swap_to s \<noteq> Some (active_stream s)"

definition pending_bytes where
  "pending_bytes dview c w =
     (case sc_active_buffer c of Some buf \<Rightarrow> buf | None \<Rightarrow> []) @
     concat (case sc_send_data c of Some s \<Rightarrow> data_items dview s w | None \<Rightarrow> [])"

definition send_ended where
  "send_ended dview c w \<longleftrightarrow> (\<forall>s. sc_send_data c = Some s \<longrightarrow> data_ended dview s w)"

text \<open>A receiver that is being replaced gives way as soon as it is empty if its own channel has
  ended.\<close>

definition data_prompt where
  "data_prompt dview s w \<longleftrightarrow> swap_to s \<noteq> None \<longrightarrow> chan_ended dview (active_stream s) (datas w)"

definition ctx_prompt where
  "ctx_prompt dview c w \<longleftrightarrow> (\<forall>s. sc_send_data c = Some s \<longrightarrow> data_prompt dview s w)"

definition ctx_valid :: "stream_ctx \<Rightarrow> bool" where
  "ctx_valid c \<longleftrightarrow> (\<forall>s. sc_send_data c = Some s \<longrightarrow> data_valid s)"

sublocale stream_channels \<subseteq> dsnd: byte_stream
  "data_poll E" "data_items dview" "data_ended dview" "\<lambda>s w. data_valid s"
proof -
  have ids: "chan_items dview = (\<lambda>h D. cv_buffer (dview (ce_chan (D h))))"
    "chan_ended dview = (\<lambda>h D. view_ended (dview (ce_chan (D h))))"
    by (simp_all add: fun_eq_iff chan_items_def chan_ended_def)
  have v: "swap_valid (\<lambda>_ _. True) (\<noteq>) s D = data_valid s" for s and D :: "nat \<Rightarrow> 'd chan_err"
    by (auto simp: data_valid_def swap_valid_def split: option.split)
  note laws = dch.rx.swap.poll_item dch.rx.swap.poll_end dch.rx.swap.poll_pending
    dch.rx.swap.poll_never_errs dch.rx.swap.poll_valid dch.rx.swap.poll_ended
  note laws = laws [unfolded v, folded ids]
  show "byte_stream (data_poll E) (data_items dview) (data_ended dview) (\<lambda>s w. data_valid s)"
    by unfold_locales
       (auto simp: data_poll_def data_items_def data_ended_def split: prod.splits dest: laws)
qed

section \<open>One packet of stream data\<close>

text \<open>What the sources rely on in the C library: a slice of \<open>n\<close> bytes has \<open>n\<close> bytes, and
  the buffer that picoquic provides for stream data is never null.\<close>

definition c_memory :: "('m, 'd, 'q, 'e) senv \<Rightarrow> bool" where
  "c_memory E \<longleftrightarrow>
     (\<forall>q p n. length (c_read E q p n) = n) \<and>
     (\<forall>q ctx n fin act. fst (picoquic_provide_stream_data_buffer E q ctx n fin act) \<noteq> 0)"

lemma collect_loop_None:
  "collect_loop poll max_length sz buffers None w = Some (sz, sz \<le> max_length, buffers, None, w)"
  by (subst collect_loop.simps) simp

text \<open>What polls make of a swappable receiver: it stays, or moves on to its replacement.  They
  touch no other channel, and no sender or receiver of the channels that are kept.\<close>

definition swap_follows :: "'s swappable \<Rightarrow> 's swappable \<Rightarrow> bool" where
  "swap_follows s s' \<longleftrightarrow>
     s' = s \<or> (\<exists>n. swap_to s = Some n \<and> s' = \<lparr>active_stream = n, swap_to = None\<rparr>)"

definition swappable_chain :: "'s swappable \<Rightarrow> 's list" where
  "swappable_chain s = active_stream s # (case swap_to s of Some n \<Rightarrow> [n] | None \<Rightarrow> [])"

definition same_ends where
  "same_ends dview D D' h \<longleftrightarrow>
     cv_senders (dview (ce_chan (D' h))) = cv_senders (dview (ce_chan (D h))) \<and>
     cv_open (dview (ce_chan (D' h))) = cv_open (dview (ce_chan (D h)))"

definition polled where
  "polled dview s w s' w' \<longleftrightarrow>
     (\<exists>D. w' = w\<lparr>datas := D\<rparr>) \<and> swap_follows s s' \<and>
     (\<forall>h. h \<notin> set (swappable_chain s) \<longrightarrow> datas w' h = datas w h) \<and>
     (\<forall>h\<in>set (swappable_chain s'). same_ends dview (datas w) (datas w') h)"

lemma swap_follows_trans: "swap_follows s s' \<Longrightarrow> swap_follows s' s'' \<Longrightarrow> swap_follows s s''"
  by (auto simp: swap_follows_def)

lemma swap_follows_chain: "swap_follows s s' \<Longrightarrow> set (swappable_chain s') \<subseteq> set (swappable_chain s)"
  by (auto simp: swap_follows_def swappable_chain_def)

lemma polled_refl: "polled dview s w s w"
  by (auto simp: polled_def swap_follows_def same_ends_def intro: exI [of _ "datas w"])

lemma polled_trans:
  assumes "polled dview s w s1 w1" "polled dview s1 w1 s2 w2"
  shows "polled dview s w s2 w2"
proof -
  from assms obtain D1 D2 where "w1 = w\<lparr>datas := D1\<rparr>" "w2 = w1\<lparr>datas := D2\<rparr>"
    by (auto simp: polled_def)
  moreover have "set (swappable_chain s2) \<subseteq> set (swappable_chain s1)"
      "set (swappable_chain s1) \<subseteq> set (swappable_chain s)"
    using assms by (auto simp: polled_def dest!: swap_follows_chain)
  ultimately show ?thesis
    using assms unfolding polled_def same_ends_def
    by (auto intro: swap_follows_trans exI [of _ D2])
qed

lemma polled_prompt: "polled dview s w s' w' \<Longrightarrow> data_prompt dview s w \<Longrightarrow> data_prompt dview s' w'"
  by (auto simp: polled_def swap_follows_def data_prompt_def chan_ended_def view_ended_def same_ends_def
      swappable_chain_def)

text \<open>The result of collecting: a prefix \<open>got\<close> of the pending bytes, of which all buffers but
  the last fit into the packet.\<close>

definition collect_post where
  "collect_post dview max_length c w fin buffers c' w' \<longleftrightarrow>
     pending_bytes dview c w = concat buffers @ pending_bytes dview c' w' \<and>
     sc_active_buffer c' = None \<and> ctx_valid c' \<and>
     (\<exists>sd. c' = c\<lparr>sc_active_buffer := None, sc_send_data := sd\<rparr> \<and> (sd = None) = (sc_send_data c = None)) \<and>
     (\<exists>D. w' = w\<lparr>datas := D\<rparr>) \<and>
     send_ended dview c' w' = send_ended dview c w \<and>
     (fin \<longrightarrow> length (concat buffers) \<le> max_length \<and> pending_bytes dview c' w' = [] \<and> send_ended dview c w) \<and>
     (\<not> fin \<and> length (concat buffers) \<le> max_length \<longrightarrow> \<not> send_ended dview c w) \<and>
     (buffers \<noteq> [] \<longrightarrow> length (concat (butlast buffers)) \<le> max_length) \<and>
     set buffers \<subseteq> set_option (sc_active_buffer c) \<union>
       (case sc_send_data c of Some s \<Rightarrow> set (data_items dview s w) | None \<Rightarrow> {}) \<and>
     (ctx_prompt dview c w \<and> length (concat buffers) \<le> max_length \<longrightarrow> pending_bytes dview c' w' = []) \<and>
     rel_option (\<lambda>s s'. polled dview s w s' w') (sc_send_data c) (sc_send_data c')"

context stream_channels
begin

lemma data_poll_polled:
  assumes "data_poll E s w = (r, s', w')" "data_valid s"
  shows "polled dview s w s' w'"
proof -
  from assms(1) obtain D where w': "w' = w\<lparr>datas := D\<rparr>" and
    p: "swappable_poll (rx_poll (data_ops E)) (rx_drop (data_ops E)) s (datas w) = (r, s', D)"
    by (auto simp: data_poll_def split: prod.splits)
  have frame: "D h = datas w h" if "h \<notin> set (swappable_chain s)" for h
    using swappable_poll_frame [OF p] that by (auto simp: swappable_chain_def split: option.splits)
  have ends: "same_ends dview (datas w) D h" if "h \<in> set (swappable_chain s')" for h
    using dch.swappable_poll_ends [OF p] assms(2) that
    unfolding same_ends_def data_valid_def swappable_chain_def by (auto split: option.splits)
  from p have "swap_follows s s'"
    by (cases rule: swappable_poll_rx_cases) (auto simp: swap_follows_def)
  with w' frame ends show ?thesis by (auto simp: polled_def)
qed

lemma data_poll_dry:
  assumes "dsnd.dry_poll s w s' w'" "data_valid s" "data_prompt dview s w"
  shows "data_items dview s' w' = []"
proof -
  from assms(1) obtain r where r: "data_poll E s w = (r, s', w')" "\<forall>i. r \<noteq> Ok (Ready (Some i))"
    by (auto simp: dsnd.dry_poll_def)
  obtain D where p: "swappable_poll (rx_poll (data_ops E)) (rx_drop (data_ops E)) s (datas w) = (r, s', D)"
    and w': "w' = w\<lparr>datas := D\<rparr>"
    using r(1) by (auto simp: data_poll_def split: prod.splits)
  have single: "swap_items (chan_items dview) s' D = []"
    if "swappable_poll (rx_poll (data_ops E)) (rx_drop (data_ops E)) t D0 = (r, s', D)" "swap_to t = None" for t D0
  proof -
    from that have "s' = t" "r = fst (receiver_poll (data_ops E) (D0 (active_stream t)))"
      "D = D0(active_stream t := snd (receiver_poll (data_ops E) (D0 (active_stream t))))"
      by (auto simp: swappable_poll_no_replacement rx_poll_def split_beta)
    with r(2) that(2) show ?thesis
      by (cases "cv_buffer (dview (ce_chan (D0 (active_stream t))))")
         (simp_all add: swap_items_def chan_items_def dch.receiver_poll_fst dch.receiver_poll_snd view_poll_def)
  qed
  have "swap_items (chan_items dview) s' D = []"
  proof (cases "swap_to s")
    case None
    with p show ?thesis by (rule single)
  next
    case (Some n)
    let ?ce = "datas w (active_stream s)"
    from Some assms(3) have ended: "view_ended (dview (ce_chan ?ce))" by (simp add: data_prompt_def chan_ended_def)
    have a: "rx_poll (data_ops E) (active_stream s) (datas w) =
        (fst (receiver_poll (data_ops E) ?ce), active_stream s, (datas w)(active_stream s := snd (receiver_poll (data_ops E) ?ce)))"
      by (simp add: rx_poll_def split_beta)
    show ?thesis
    proof (cases "cv_buffer (dview (ce_chan ?ce))")
      case Nil
      with ended have "fst (receiver_poll (data_ops E) ?ce) = Ok (Ready None)"
        by (simp add: dch.receiver_poll_fst view_poll_def)
      with p a Some show ?thesis
        by (intro single [of "\<lparr>active_stream = n, swap_to = None\<rparr>"])
           (simp_all add: swappable_poll.simps [of "rx_poll (data_ops E)" "rx_drop (data_ops E)" s "datas w"])
    next
      case (Cons i rest)
      then have "fst (receiver_poll (data_ops E) ?ce) = Ok (Ready (Some i))"
        by (simp add: dch.receiver_poll_fst view_poll_def)
      with p a have "r = Ok (Ready (Some i))"
        by (simp add: swappable_poll.simps [of "rx_poll (data_ops E)" "rx_drop (data_ops E)" s "datas w"])
      with r(2) show ?thesis by blast
    qed
  qed
  then show ?thesis by (simp add: w' data_items_def)
qed

lemma polled_step:
  "polled dview s0 w0 s w \<and> data_valid s \<Longrightarrow> data_poll E s w = (r, s', w') \<Longrightarrow>
   polled dview s0 w0 s' w' \<and> data_valid s'"
  using data_poll_polled polled_trans dsnd.poll_valid by metis

lemma collect_buffers_to_send_total:
  assumes "ctx_valid c"
  obtains fin buffers c' w' where
    "collect_buffers_to_send E max_length c w = Some (length (concat buffers), fin, buffers, c', w')"
    "collect_post dview max_length c w fin buffers c' w'"
proof -
  define bs where "bs = (case sc_active_buffer c of Some buf \<Rightarrow> [buf] | None \<Rightarrow> [])"
  have bs: "(case sc_active_buffer c of Some buf \<Rightarrow> length buf | None \<Rightarrow> 0) = length (concat bs)"
    "(case sc_active_buffer c of Some buf \<Rightarrow> buf | None \<Rightarrow> []) = concat bs"
    "butlast bs = []" "set bs = set_option (sc_active_buffer c)"
    by (auto simp: bs_def split: option.split)
  note unf = collect_buffers_to_send_def Let_def bs(1) bs_def [symmetric]
  show ?thesis
  proof (cases "sc_send_data c")
    case None
    let ?c = "c\<lparr>sc_active_buffer := None, sc_send_data := None\<rparr>"
    from None have "collect_buffers_to_send E max_length c w =
        Some (length (concat bs), length (concat bs) \<le> max_length, bs, ?c, w)"
      by (simp add: unf collect_loop_None)
    moreover have "collect_post dview max_length c w (length (concat bs) \<le> max_length) bs ?c w"
      using None
      by (auto simp: collect_post_def pending_bytes_def bs(2,3,4) send_ended_def ctx_valid_def
          intro: exI [of _ "datas w"])
    ultimately show ?thesis by (rule that)
  next
    case (Some s)
    with assms have v: "data_valid s" by (simp add: ctx_valid_def)
    have w0: "polled dview s w s w \<and> data_valid s" using v polled_refl by blast
    obtain new fin s' w' where
      r: "collect_loop (data_poll E) max_length (length (concat bs)) bs (Some s) w =
        Some (length (concat bs) + length (concat new), fin, bs @ new, Some s', w')"
        "dsnd.collected max_length (length (concat bs)) s w new fin s' w'"
        "polled dview s w s' w' \<and> data_valid s'"
        "length (concat bs) + length (concat new) \<le> max_length \<Longrightarrow>
         \<exists>s1 w1. (polled dview s w s1 w1 \<and> data_valid s1) \<and> dsnd.dry_poll s1 w1 s' w'"
      by (rule dsnd.collect_loop_total [where s = s and w = w and P = "\<lambda>s' w'. polled dview s w s' w' \<and> data_valid s'"
          and max_length = max_length and sz = "length (concat bs)" and buffers = bs, OF v w0 polled_step])
         blast+
    then have "\<exists>D. w' = w\<lparr>datas := D\<rparr>" by (simp add: polled_def)
    let ?c = "c\<lparr>sc_active_buffer := None, sc_send_data := Some s'\<rparr>"
    from r(1) Some have run: "collect_buffers_to_send E max_length c w =
        Some (length (concat (bs @ new)), fin, bs @ new, ?c, w')"
      by (simp add: unf)
    have dry: "data_items dview s' w' = []"
      if "ctx_prompt dview c w" "length (concat (bs @ new)) \<le> max_length"
      using r(4) that Some by (auto simp: ctx_prompt_def intro: data_poll_dry polled_prompt)
    from r(2,3) dry Some \<open>\<exists>D. w' = w\<lparr>datas := D\<rparr>\<close> have "collect_post dview max_length c w fin (bs @ new) ?c w'"
      by (auto simp: dsnd.collected_def collect_post_def pending_bytes_def bs(2,3,4) send_ended_def
          ctx_valid_def butlast_append)
    with run show ?thesis by (rule that)
  qed
qed

text \<open>The collected buffers fill a slice of the announced length; what is left over is one
  remainder, exactly when more was collected than fits.\<close>

lemma write_collected:
  assumes post: "collect_post dview max_length c w fin buffers c1 w1"
    and "length dest = min max_length (length (concat buffers))"
  shows "write_buffers (min max_length (length (concat buffers))) buffers 0 dest None =
      Some (take max_length (concat buffers),
            if length (concat buffers) \<le> max_length then None
            else Some (drop max_length (concat buffers)))"
proof -
  from post have "buffers \<noteq> [] \<Longrightarrow>
      length (concat (butlast buffers)) \<le> min max_length (length (concat buffers))"
    by (cases buffers rule: rev_cases) (auto simp: collect_post_def)
  with assms(2) show ?thesis
    by (subst write_buffers_correct) (auto simp: min_def)
qed

lemma collect_post_unfold:
  assumes "collect_post dview max_length c w fin buffers c1 w1"
  obtains sd D where "c1 = c\<lparr>sc_active_buffer := None, sc_send_data := sd\<rparr>" "w1 = w\<lparr>datas := D\<rparr>"
    "ctx_valid c1"
  using assms unfolding collect_post_def by blast

lemma handle_send_data_total:
  assumes "ctx_valid c" "c_memory E"
  obtains c' w' fin sent D where
    "handle_send_data E ctx max_length c w = Some (c', w')"
    "pending_bytes dview c w = sent @ pending_bytes dview c' w'"
    "length sent \<le> max_length"
    "w' = w\<lparr>datas := D,
       quic := (case picoquic_provide_stream_data_buffer E (quic w) ctx (length sent) fin
                  (sc_active_buffer c' \<noteq> None)
                of (dest, q) \<Rightarrow> c_write E q dest sent)\<rparr>"
    "fin \<longleftrightarrow> send_ended dview c w \<and> pending_bytes dview c' w' = []"
    "send_ended dview c' w' = send_ended dview c w"
    "\<exists>sd. c' = c\<lparr>sc_send_data := sd, sc_active_buffer := sc_active_buffer c',
       sc_stop_sending_or_fin_sent := fin,
       sc_data_send := (sc_data_send c \<or> sent \<noteq> [] \<or> sc_active_buffer c' \<noteq> None)\<rparr>"
    "ctx_valid c'"
    "rel_option (\<lambda>s s'. polled dview s w s' (w\<lparr>datas := D\<rparr>)) (sc_send_data c) (sc_send_data c')"
    "ctx_prompt dview c w \<Longrightarrow> sent = take max_length (pending_bytes dview c w)"
proof -
  obtain fin buffers c1 w1 where
    r: "collect_buffers_to_send E max_length c w = Some (length (concat buffers), fin, buffers, c1, w1)"
    and post: "collect_post dview max_length c w fin buffers c1 w1"
    using collect_buffers_to_send_total [OF assms(1)] .
  from post obtain sd D where c1: "c1 = c\<lparr>sc_active_buffer := None, sc_send_data := sd\<rparr>"
    and w1: "w1 = w\<lparr>datas := D\<rparr>" and v: "ctx_valid c1"
    by (rule collect_post_unfold)
  define all where "all = concat buffers"
  define len where "len = min max_length (length all)"
  define act where "act = (if length all \<le> max_length then None else Some (drop max_length all))"
  obtain dest q where prov:
    "picoquic_provide_stream_data_buffer E (quic w) ctx len fin (act \<noteq> None) = (dest, q)"
    by fastforce
  from assms(2) prov have mem: "dest \<noteq> 0" "length (c_read E q dest len) = len"
    unfolding c_memory_def by (metis fst_conv)+
  from write_collected [OF post, of "c_read E q dest len"] mem(2)
  have wb: "write_buffers len buffers 0 (c_read E q dest len) None = Some (take max_length all, act)"
    by (simp add: len_def all_def act_def)
  have act: "(max_length < length all \<and> \<not> fin) = (act \<noteq> None)"
    using post by (auto simp: collect_post_def act_def all_def)
  have some: "(0 < length all) = (take max_length all \<noteq> [] \<or> act \<noteq> None)"
    by (cases all) (auto simp: act_def)
  define c' where "c' = c1\<lparr>sc_data_send := (sc_data_send c1 \<or> 0 < length all),
    sc_stop_sending_or_fin_sent := fin, sc_active_buffer := act\<rparr>"
  define w' where "w' = w1\<lparr>quic := c_write E q dest (take max_length all)\<rparr>"
  have run: "handle_send_data E ctx max_length c w = Some (c', w')"
    using prov mem wb
    by (simp add: handle_send_data_def r all_def [symmetric] act Let_def c'_def w'_def
        len_def [symmetric] w1 c1)
  have pend: "pending_bytes dview c' w' = drop max_length all @ pending_bytes dview c1 w1"
    by (auto simp: pending_bytes_def c'_def w'_def act_def data_items_def c1 split: option.split)
  have lens: "length (take max_length all) = len" by (simp add: len_def)
  show ?thesis
  proof (rule that [OF run])
    show "pending_bytes dview c w = take max_length all @ pending_bytes dview c' w'"
      using post by (simp add: pend collect_post_def all_def)
    show "w' = w\<lparr>datas := D, quic := (case picoquic_provide_stream_data_buffer E (quic w) ctx
        (length (take max_length all)) fin (sc_active_buffer c' \<noteq> None) of
          (dest, q) \<Rightarrow> c_write E q dest (take max_length all))\<rparr>"
      using prov unfolding lens by (simp add: w'_def w1 c'_def)
    show "fin \<longleftrightarrow> send_ended dview c w \<and> pending_bytes dview c' w' = []"
      using post by (auto simp: pend collect_post_def all_def)
    show "send_ended dview c' w' = send_ended dview c w"
      using post by (simp add: collect_post_def send_ended_def c'_def w'_def data_ended_def)
    show "\<exists>sd. c' = c\<lparr>sc_send_data := sd, sc_active_buffer := sc_active_buffer c',
       sc_stop_sending_or_fin_sent := fin,
       sc_data_send := (sc_data_send c \<or> take max_length all \<noteq> [] \<or> sc_active_buffer c' \<noteq> None)\<rparr>"
      by (rule exI [of _ sd]) (simp only: c'_def c1 some, simp)
    show "rel_option (\<lambda>s s'. polled dview s w s' (w\<lparr>datas := D\<rparr>)) (sc_send_data c) (sc_send_data c')"
      using post by (simp add: collect_post_def c'_def w1)
    show "take max_length all = take max_length (pending_bytes dview c w)" if "ctx_prompt dview c w"
      using post that by (cases "length all \<le> max_length") (auto simp: collect_post_def all_def)
  qed (use v in \<open>simp_all add: c'_def ctx_valid_def\<close>)
qed

end

end
