(* ===== verification/Stream_Control.thy ===== *)
theory Stream_Control
  imports Stream_Sending
begin

text \<open>
  The control half of \<^verbatim>\<open>src/stream.rs\<close>: what polling a stream context does with
  the control messages of the user, when it declares the stream finished, and what the
  callbacks of picoquic deliver to the user.
\<close>

section \<open>Frames\<close>

text \<open>The operations of the sending side leave the message channels alone.\<close>

lemma data_drop_msgs [simp]:
  "data_drop_tx E h (w\<lparr>msgs := X\<rparr>) = (data_drop_tx E h w)\<lparr>msgs := X\<rparr>"
  "data_drop_rx E h (w\<lparr>msgs := X\<rparr>) = (data_drop_rx E h w)\<lparr>msgs := X\<rparr>"
  "data_drop_swappable E s (w\<lparr>msgs := X\<rparr>) = (data_drop_swappable E s w)\<lparr>msgs := X\<rparr>"
  "msgs (data_drop_tx E h w) = msgs w" "msgs (data_drop_rx E h w) = msgs w"
  "msgs (data_drop_swappable E s w) = msgs w"
  "quic (data_drop_tx E h w) = quic w" "quic (data_drop_rx E h w) = quic w"
  "quic (data_drop_swappable E s w) = quic w"
  by (simp_all add: data_drop_tx_def data_drop_rx_def data_drop_swappable_def)

lemma close_send_data_msgs [simp]:
  "close_send_data E c (w\<lparr>msgs := X\<rparr>) = map_prod id (\<lambda>w. w\<lparr>msgs := X\<rparr>) (close_send_data E c w)"
  "msgs (snd (close_send_data E c w)) = msgs w" "quic (snd (close_send_data E c w)) = quic w"
  "fst (close_send_data E c w) = c\<lparr>sc_send_data := None\<rparr>"
  by (simp_all add: close_send_data_def data_drop_swappable_def Let_def split: option.split)

lemma context_reset_eq:
  "context_reset E c w =
     (c\<lparr>sc_stop_sending_or_fin_sent := True, sc_send_data := None\<rparr>,
      (snd (close_send_data E c w))\<lparr>quic := picoquic_reset_stream E (quic w) (sc_cnx c) (sc_id c) 0\<rparr>)"
  by (simp add: context_reset_def Let_def split_beta)
     (simp add: close_send_data_def Let_def split: option.split)

lemma context_reset_msgs [simp]:
  "context_reset E c (w\<lparr>msgs := X\<rparr>) = map_prod id (\<lambda>w. w\<lparr>msgs := X\<rparr>) (context_reset E c w)"
  "msgs (snd (context_reset E c w)) = msgs w"
  by (simp_all add: context_reset_eq)

lemma recv_message_dropped_msgs [simp]:
  "msgs (snd (recv_message_dropped E c w)) = msgs w"
  "datas (snd (recv_message_dropped E c w)) = datas w"
  by (simp_all add: recv_message_dropped_def Let_def)

section \<open>Control messages\<close>

text \<open>What the user's side of a stream puts into the control channel.\<close>

fun control_message :: "message \<Rightarrow> bool" where
  "control_message MReset = True"
| "control_message (MSwapSendData _ _) = True"
| "control_message _ = False"

text \<open>The effect of one control message.\<close>

fun control_step ::
  "('m, 'd, 'q, 'e) senv \<Rightarrow> message \<Rightarrow> stream_ctx \<times> ('m, 'd, 'q, 'w) sworld \<Rightarrow>
   stream_ctx \<times> ('m, 'd, 'q, 'w) sworld" where
  "control_step E MReset (c, w) = context_reset E c w"
| "control_step E (MSwapSendData rx tx) (c, w) =
     (case sc_send_data c of
        Some s \<Rightarrow>
          (case set_swap_to (rx_drop (data_ops E)) s rx (datas w) of
             (s, D) \<Rightarrow> (c\<lparr>sc_send_data := Some s\<rparr>, data_drop_tx E tx (w\<lparr>datas := D\<rparr>)))
      | None \<Rightarrow> (c, data_drop_tx E tx (data_drop_rx E rx w)))"
| "control_step E _ cw = cw"

lemma control_step_msgs [simp]:
  "control_step E m (c, w\<lparr>msgs := X\<rparr>) = map_prod id (\<lambda>w. w\<lparr>msgs := X\<rparr>) (control_step E m (c, w))"
  by (cases m) (auto simp: set_swap_to_def data_drop_tx_def split: option.split)

lemma control_step_frame [simp]:
  "msgs (snd (control_step E m cw)) = msgs (snd cw)"
  "sc_control_msg (fst (control_step E m cw)) = sc_control_msg (fst cw)"
  by (induction E m cw rule: control_step.induct)
     (auto simp: set_swap_to_def context_reset_eq split: option.split)

lemma fold_control_step_msgs [simp]:
  "fold (control_step E) ms (c, w\<lparr>msgs := X\<rparr>) =
     map_prod id (\<lambda>w. w\<lparr>msgs := X\<rparr>) (fold (control_step E) ms (c, w))"
proof (induction ms arbitrary: c w)
  case (Cons m ms)
  obtain c' w' where "control_step E m (c, w) = (c', w')" by (cases "control_step E m (c, w)")
  with Cons.IH [of c' w'] show ?case by simp
qed simp

lemma poll_control_msg_step:
  assumes "msg_poll E (sc_control_msg c) w = (Ok (Ready (Some m)), w')" "control_message m"
  shows "poll_control_msg E c w = (case control_step E m (c, w') of (c, w) \<Rightarrow> poll_control_msg E c w)"
  using assms by (subst poll_control_msg.simps) (auto split: message.splits option.split prod.split elim!: control_message.elims)

context stream_channels
begin

lemma msg_poll_cases:
  obtains ch where
    "msg_poll E h w = (fst (view_poll (mview (msgs w h))), w\<lparr>msgs := (msgs w)(h := ch)\<rparr>)"
    "mview ch = snd (view_poll (mview (msgs w h)))"
  by (rule that [of "snd (mpsc_poll (msg_ops E) (msgs w h))"])
     (simp_all add: msg_poll_def split_beta mch.view_of_poll mch.poll_fst mch.poll_snd)

text \<open>The loop works off the control channel in order and stops when it is empty.\<close>

lemma poll_control_msg_fold:
  assumes "\<forall>m\<in>set (cv_buffer (mview (msgs w (sc_control_msg c)))). control_message m"
  obtains ch c1 w1 w2 where
    "fold (control_step E) (cv_buffer (mview (msgs w (sc_control_msg c)))) (c, w) = (c1, w1)"
    "w2 = w1\<lparr>msgs := (msgs w)(sc_control_msg c := ch)\<rparr>"
    "mview ch = mview (msgs w (sc_control_msg c))\<lparr>cv_buffer := []\<rparr>"
    "poll_control_msg E c w =
       Some (if view_ended (mview (msgs w (sc_control_msg c)))
             then (Ok (Ready ()), recv_message_dropped E c1 w2) else (Ok NotReady, c1, w2))"
proof -
  have "\<exists>ch. mview ch = mview (msgs w (sc_control_msg c))\<lparr>cv_buffer := []\<rparr> \<and>
     poll_control_msg E c w =
       (case fold (control_step E) buf (c, w) of (c1, w1) \<Rightarrow>
        let w2 = w1\<lparr>msgs := (msgs w)(sc_control_msg c := ch)\<rparr> in
        Some (if view_ended (mview (msgs w (sc_control_msg c)))
             then (Ok (Ready ()), recv_message_dropped E c1 w2) else (Ok NotReady, c1, w2)))"
    if "cv_buffer (mview (msgs w (sc_control_msg c))) = buf" "\<forall>m\<in>set buf. control_message m" for buf
    using that
  proof (induction buf arbitrary: c w)
    case Nil
    obtain ch where p: "msg_poll E (sc_control_msg c) w =
        (fst (view_poll (mview (msgs w (sc_control_msg c)))), w\<lparr>msgs := (msgs w)(sc_control_msg c := ch)\<rparr>)"
      "mview ch = snd (view_poll (mview (msgs w (sc_control_msg c))))"
      by (rule msg_poll_cases)
    with Nil show ?case
      by (subst poll_control_msg.simps)
         (auto simp: view_poll_def Let_def split_beta intro!: exI [of _ ch])
  next
    case (Cons m buf)
    let ?h = "sc_control_msg c"
    obtain ch where p: "msg_poll E ?h w =
        (fst (view_poll (mview (msgs w ?h))), w\<lparr>msgs := (msgs w)(?h := ch)\<rparr>)"
      "mview ch = snd (view_poll (mview (msgs w ?h)))"
      by (rule msg_poll_cases)
    let ?w = "w\<lparr>msgs := (msgs w)(?h := ch)\<rparr>"
    obtain c' w' where s: "control_step E m (c, w) = (c', w')" by (cases "control_step E m (c, w)")
    have c': "sc_control_msg c' = ?h" and w': "msgs w' = msgs w"
      using control_step_frame [of E m "(c, w)"] s by simp_all
    from p Cons.prems have st: "poll_control_msg E c w = poll_control_msg E c' (w'\<lparr>msgs := (msgs w)(?h := ch)\<rparr>)"
      by (subst poll_control_msg_step [of E c w m ?w]) (auto simp: view_poll_def s)
    have ch: "mview ch = mview (msgs w ?h)\<lparr>cv_buffer := buf\<rparr>"
      using p(2) Cons.prems(1) by (simp add: view_poll_def)
    obtain c1 w1 where f: "fold (control_step E) buf (c', w') = (c1, w1)"
      by (cases "fold (control_step E) buf (c', w')")
    have "\<exists>ch'. mview ch' = mview (msgs w ?h)\<lparr>cv_buffer := []\<rparr> \<and>
      poll_control_msg E c' (w'\<lparr>msgs := (msgs w)(?h := ch)\<rparr>) =
        (let w2 = w1\<lparr>msgs := (msgs w)(?h := ch')\<rparr> in
         Some (if view_ended (mview (msgs w ?h))
             then (Ok (Ready ()), recv_message_dropped E c1 w2) else (Ok NotReady, c1, w2)))"
      using Cons.IH [of "w'\<lparr>msgs := (msgs w)(?h := ch)\<rparr>" c'] Cons.prems(2) ch c' f
      by (simp add: view_ended_def fun_upd_same del: fun_upd_apply)
    then show ?case by (simp add: st s f del: fun_upd_apply)
  qed
  from this [OF refl assms] show ?thesis
    using that by (fastforce simp: Let_def split: prod.splits)
qed

end

section \<open>Exchanging the send channel\<close>

text \<open>The receivers that the control messages carry, and the chain of receivers that a context
  is to read, in the order in which the user filled them.\<close>

fun swap_receivers :: "message list \<Rightarrow> nat list" where
  "swap_receivers [] = []"
| "swap_receivers (MSwapSendData rx tx # ms) = rx # swap_receivers ms"
| "swap_receivers (_ # ms) = swap_receivers ms"

definition recv_chain :: "stream_ctx \<Rightarrow> message list \<Rightarrow> nat list" where
  "recv_chain c ms =
     (case sc_send_data c of Some s \<Rightarrow> swappable_chain s | None \<Rightarrow> []) @ swap_receivers ms"

lemma swap_receivers_append [simp]: "swap_receivers (ms @ ns) = swap_receivers ms @ swap_receivers ns"
  by (induction ms rule: swap_receivers.induct) auto

lemma ctx_valid_chain: "distinct (recv_chain c ms) \<Longrightarrow> ctx_valid c"
  by (auto simp: ctx_valid_def data_valid_def recv_chain_def swappable_chain_def)

lemma control_step_chain:
  assumes "distinct (recv_chain c (m # ms))"
  shows "distinct (recv_chain (fst (control_step E m (c, w))) ms) \<and>
     set (recv_chain (fst (control_step E m (c, w))) ms) \<subseteq> set (recv_chain c (m # ms))"
  using assms
  by (cases m)
     (auto simp: recv_chain_def swappable_chain_def context_reset_eq set_swap_to_def split: option.splits)

lemma fold_control_step_chain:
  assumes "distinct (recv_chain c ms)" "fold (control_step E) ms (c, w) = (c', w')"
  shows "distinct (recv_chain c' []) \<and> set (recv_chain c' []) \<subseteq> set (recv_chain c ms)"
  using assms
proof (induction ms arbitrary: c w)
  case (Cons m ms)
  obtain c1 w1 where s: "control_step E m (c, w) = (c1, w1)" by (cases "control_step E m (c, w)")
  from control_step_chain [OF Cons.prems(1), of E w] s
  have "distinct (recv_chain c1 ms)" "set (recv_chain c1 ms) \<subseteq> set (recv_chain c (m # ms))" by simp_all
  with Cons.IH [of c1 w1] Cons.prems(2) s show ?case by auto
qed simp

text \<open>All the bytes on their way: the active buffer and every receiver of the chain.\<close>

definition inflight_bytes where
  "inflight_bytes dview c ms w =
     (case sc_active_buffer c of Some buf \<Rightarrow> buf | None \<Rightarrow> []) @
     concat (concat (map (\<lambda>h. chan_items dview h (datas w)) (recv_chain c ms)))"

lemma pending_bytes_inflight: "pending_bytes dview c w = inflight_bytes dview c [] w"
  by (auto simp: pending_bytes_def inflight_bytes_def recv_chain_def swappable_chain_def
      data_items_def swap_items_def split: option.split)

fun is_swap :: "message \<Rightarrow> bool" where
  "is_swap (MSwapSendData _ _) = True"
| "is_swap _ = False"

context stream_channels
begin

lemma chan_items_drop_tx [simp]:
  "chan_items dview h (datas (data_drop_tx E tx w)) = chan_items dview h (datas w)"
  by (simp add: chan_items_def data_drop_tx_def dch.sender_drop_view)

lemma chan_items_rx_drop [simp]:
  "chan_items dview h (rx_drop (data_ops E) rx D) = (if h = rx then [] else chan_items dview h D)"
  by (simp add: chan_items_def rx_drop_def dch.receiver_drop_view)

text \<open>Working off a run of swap messages keeps the active receiver and the last replacement;
  every replacement in between is dropped with what it holds.\<close>

lemma fold_swaps:
  assumes "\<forall>m\<in>set ms. is_swap m" "sc_send_data c = Some s" "distinct (recv_chain c ms)"
    and "fold (control_step E) ms (c, w) = (c', w')"
  shows "\<exists>n. c' = c\<lparr>sc_send_data := Some (s\<lparr>swap_to := n\<rparr>)\<rparr> \<and>
      n = (if swap_receivers ms = [] then swap_to s else Some (last (swap_receivers ms))) \<and>
      chan_items dview (active_stream s) (datas w') = chan_items dview (active_stream s) (datas w) \<and>
      (\<forall>h. n = Some h \<longrightarrow> chan_items dview h (datas w') = chan_items dview h (datas w))"
  using assms
proof (induction ms arbitrary: c s w)
  case Nil
  then show ?case by auto
next
  case (Cons m ms)
  then obtain rx tx where m: "m = MSwapSendData rx tx" by (cases m) auto
  let ?s = "s\<lparr>swap_to := Some rx\<rparr>"
  let ?w = "data_drop_tx E tx (w\<lparr>datas := snd (set_swap_to (rx_drop (data_ops E)) s rx (datas w))\<rparr>)"
  have st: "control_step E m (c, w) = (c\<lparr>sc_send_data := Some ?s\<rparr>, ?w)"
    using Cons.prems(2) m by (simp add: set_swap_to_def)
  from Cons.prems(3) m Cons.prems(2)
  have d: "distinct (recv_chain (c\<lparr>sc_send_data := Some ?s\<rparr>) ms)"
    and sep: "active_stream s \<notin> set (rx # swap_receivers ms)" "\<forall>old. swap_to s = Some old \<longrightarrow>
        old \<noteq> active_stream s \<and> old \<notin> set (rx # swap_receivers ms)"
    by (auto simp: recv_chain_def swappable_chain_def split: option.splits)
  have keep: "chan_items dview h (datas ?w) = chan_items dview h (datas w)"
    if "h \<in> set (active_stream s # rx # swap_receivers ms)" for h
    using that sep by (auto simp: set_swap_to_def split: option.split)
  from Cons.IH [of "c\<lparr>sc_send_data := Some ?s\<rparr>" ?s ?w] Cons.prems d st obtain n where
    n: "c' = c\<lparr>sc_send_data := Some (?s\<lparr>swap_to := n\<rparr>)\<rparr>"
      "n = (if swap_receivers ms = [] then Some rx else Some (last (swap_receivers ms)))"
      "chan_items dview (active_stream s) (datas w') = chan_items dview (active_stream s) (datas ?w)"
      "\<forall>h. n = Some h \<longrightarrow> chan_items dview h (datas w') = chan_items dview h (datas ?w)"
    by auto
  have "n = Some h \<Longrightarrow> h \<in> set (active_stream s # rx # swap_receivers ms)" for h
    using n(2) by (auto split: if_splits)
  with n keep m show ?case by auto
qed

text \<open>The exact effect of polling when only swaps are waiting.\<close>

lemma poll_control_msg_swaps:
  assumes "cv_buffer (mview (msgs w (sc_control_msg c))) = ms" "\<forall>m\<in>set ms. is_swap m"
    and "sc_send_data c = Some s" "distinct (recv_chain c ms)"
  obtains r c' w' where "poll_control_msg E c w = Some (r, c', w')"
    "pending_bytes dview c' w' =
       (case sc_active_buffer c of Some buf \<Rightarrow> buf | None \<Rightarrow> []) @
       concat (chan_items dview (active_stream s) (datas w)) @
       (if tl (recv_chain c ms) = [] then []
        else concat (chan_items dview (last (recv_chain c ms)) (datas w)))"
proof -
  have cm: "\<forall>m\<in>set (cv_buffer (mview (msgs w (sc_control_msg c)))). control_message m"
    using assms(1,2) by (auto elim!: is_swap.elims)
  obtain ch c1 w1 w2 where f: "fold (control_step E) ms (c, w) = (c1, w1)"
    and w2: "w2 = w1\<lparr>msgs := (msgs w)(sc_control_msg c := ch)\<rparr>"
    and run: "poll_control_msg E c w =
       Some (if view_ended (mview (msgs w (sc_control_msg c)))
             then (Ok (Ready ()), recv_message_dropped E c1 w2) else (Ok NotReady, c1, w2))"
    by (rule poll_control_msg_fold [OF cm]) (use assms(1) in blast)
  obtain r c' w' where rcw: "poll_control_msg E c w = Some (r, c', w')"
    and same: "sc_active_buffer c' = sc_active_buffer c1" "sc_send_data c' = sc_send_data c1"
      "datas w' = datas w1"
    using run
    by (cases "recv_message_dropped E c1 w2")
       (auto simp: recv_message_dropped_def Let_def w2 split: if_splits)
  from fold_swaps [OF assms(2-4) f] obtain n where n:
    "c1 = c\<lparr>sc_send_data := Some (s\<lparr>swap_to := n\<rparr>)\<rparr>"
    "n = (if swap_receivers ms = [] then swap_to s else Some (last (swap_receivers ms)))"
    "chan_items dview (active_stream s) (datas w1) = chan_items dview (active_stream s) (datas w)"
    "\<forall>h. n = Some h \<longrightarrow> chan_items dview h (datas w1) = chan_items dview h (datas w)"
    by blast
  have chain: "tl (recv_chain c ms) = [] \<longleftrightarrow> n = None"
      "n = Some h \<Longrightarrow> last (recv_chain c ms) = h" for h
    using n(2) assms(3) by (auto simp: recv_chain_def swappable_chain_def split: if_splits option.splits)
  have "pending_bytes dview c' w' =
       (case sc_active_buffer c of Some buf \<Rightarrow> buf | None \<Rightarrow> []) @
       concat (chan_items dview (active_stream s) (datas w)) @
       (if tl (recv_chain c ms) = [] then []
        else concat (chan_items dview (last (recv_chain c ms)) (datas w)))"
    using n(1,3,4) chain same by (cases n) (simp_all add: pending_bytes_def data_items_def swap_items_def)
  with rcw show ?thesis by (rule that)
qed

section \<open>Polling for data\<close>

lemma swappable_drop_frame:
  "sc_send_data c = None \<Longrightarrow> pending_bytes dview c (data_drop_swappable E s w) = pending_bytes dview c w"
  by (simp add: pending_bytes_def)

lemma poll_send_data_total:
  assumes "ctx_valid c"
  obtains c' w' where "poll_send_data E c w = (Ok (), c', w')"
    "pending_bytes dview c' w' = pending_bytes dview c w" "ctx_valid c'"
    "msgs w' = msgs w"
proof (cases "\<exists>s. sc_active_buffer c = None \<and> sc_send_data c = Some s")
  case False
  then have "poll_send_data E c w = (Ok (), c, w)"
    by (auto simp: poll_send_data_def split: option.split)
  then show ?thesis using that assms by simp
next
  case True
  then obtain s where a: "sc_active_buffer c = None" "sc_send_data c = Some s" by blast
  with assms have "data_valid s" by (simp add: ctx_valid_def)
  then show ?thesis
  proof (cases rule: dsnd.poll_cases [where w = w])
    case (item buf s' w')
    moreover have "msgs w' = msgs w"
      using item(1) by (auto simp: data_poll_def split: prod.splits)
    ultimately show ?thesis
      using a
      by (intro that [of "c\<lparr>sc_send_data := Some s', sc_active_buffer := Some buf\<rparr>"
            "w'\<lparr>quic := picoquic_mark_active_stream E (quic w') (sc_cnx c) (sc_id c) True\<rparr>"])
         (auto simp: poll_send_data_def pending_bytes_def data_items_def ctx_valid_def)
  next
    case (fin s' w')
    let ?r = "handle_send_data_dropped E (c\<lparr>sc_send_data := Some s'\<rparr>) w'"
    have "msgs w' = msgs w"
      using fin(1) by (auto simp: data_poll_def split: prod.splits)
    moreover have "sc_send_data (fst ?r) = None" "sc_active_buffer (fst ?r) = None" "msgs (snd ?r) = msgs w'"
      using a by (auto simp: handle_send_data_dropped_def context_reset_eq Let_def)
    ultimately show ?thesis
      using a fin
      by (intro that [of "fst ?r" "snd ?r"])
         (auto simp: poll_send_data_def pending_bytes_def ctx_valid_def)
  next
    case (pending s' w')
    moreover have "msgs w' = msgs w"
      using pending(1) by (auto simp: data_poll_def split: prod.splits)
    ultimately show ?thesis
      using a
      by (intro that [of "c\<lparr>sc_send_data := Some s'\<rparr>" w'])
         (auto simp: poll_send_data_def pending_bytes_def ctx_valid_def)
  qed
qed

text \<open>Polling a context ends and does not panic, and it answers \<open>Ready\<close> exactly when both
  directions are done.\<close>

lemma stream_context_poll_total:
  assumes "\<forall>m\<in>set (cv_buffer (mview (msgs w (sc_control_msg c)))). control_message m"
    and "distinct (recv_chain c (cv_buffer (mview (msgs w (sc_control_msg c)))))"
  obtains c' w' where
    "stream_context_poll E c w =
       Some (if sc_stop_sending_or_fin_sent c' \<and> sc_fin_received_or_recv_msg_dropped c'
             then Ok (Ready ()) else Ok NotReady, c', w')"
    "ctx_valid c'"
proof -
  obtain ch c1 w1 w2 where f: "fold (control_step E) (cv_buffer (mview (msgs w (sc_control_msg c)))) (c, w) = (c1, w1)"
    and run: "poll_control_msg E c w =
       Some (if view_ended (mview (msgs w (sc_control_msg c)))
             then (Ok (Ready ()), recv_message_dropped E c1 w2) else (Ok NotReady, c1, w2))"
    by (rule poll_control_msg_fold [OF assms(1)]) blast
  from fold_control_step_chain [OF assms(2) f] have "ctx_valid c1"
    by (auto intro: ctx_valid_chain)
  with run obtain r c2 w3 where p: "poll_control_msg E c w = Some (Ok r, c2, w3)" "ctx_valid c2"
    by (cases "recv_message_dropped E c1 w2")
       (auto simp: recv_message_dropped_def ctx_valid_def Let_def split: if_splits)
  obtain c' w' where "poll_send_data E c2 w3 = (Ok (), c', w')" "ctx_valid c'"
    by (rule poll_send_data_total [OF p(2)])
  with p(1) show ?thesis
    by (intro that [of c' w']) (auto simp: stream_context_poll_def)
qed

end

end
