(* ===== verification/Stream_Receiving.thy ===== *)
theory Stream_Receiving
  imports Stream_Control
begin

text \<open>
  The receiving half of \<^verbatim>\<open>src/stream.rs\<close>: what the callbacks of picoquic put into
  the inbox of the user, what the user's polls take out of it, and how a context reacts when
  the user is gone.
\<close>

definition inbox where
  "inbox mview c w = cv_buffer (mview (msgs w (sc_recv_msg c)))"

definition user_listens where
  "user_listens mview c w \<longleftrightarrow> cv_open (mview (msgs w (sc_recv_msg c)))"

text \<open>Whether the peer may send on this stream.\<close>

definition receives :: "stream_ctx \<Rightarrow> bool" where
  "receives c \<longleftrightarrow>
     \<not> is_unidirectional (sc_id c) \<or> \<not> is_unidirectional_send_allowed (sc_id c) (sc_is_client_con c)"

lemma drop_message_other: "\<not> is_swap m \<Longrightarrow> drop_message E m w = w"
  by (cases m) auto

lemma recv_message_dropped_eq:
  "recv_message_dropped E c w =
     (c\<lparr>sc_fin_received_or_recv_msg_dropped := True\<rparr>,
      w\<lparr>quic := (if \<not> sc_fin_received_or_recv_msg_dropped c \<and> receives c
                 then picoquic_stop_sending E (quic w) (sc_cnx c) (sc_id c) 0 else quic w)\<rparr>)"
  by (cases c; cases w) (simp add: recv_message_dropped_def receives_def Let_def)

context stream_channels
begin

lemma msg_send_open:
  assumes "cv_open (mview (msgs w h))"
  obtains ch where "msg_send E h m w = (True, w\<lparr>msgs := (msgs w)(h := ch)\<rparr>)"
    "mview ch = mview (msgs w h)\<lparr>cv_buffer := cv_buffer (mview (msgs w h)) @ [m]\<rparr>"
proof (rule that [of "snd (mpsc_unbounded_send (msg_ops E) (msgs w h) m)"])
  have "fst (mpsc_unbounded_send (msg_ops E) (msgs w h) m) = Ok ()"
    using assms by (simp add: mch.unbounded_send_fst view_send_def)
  then show "msg_send E h m w =
      (True, w\<lparr>msgs := (msgs w)(h := snd (mpsc_unbounded_send (msg_ops E) (msgs w h) m))\<rparr>)"
    by (cases "mpsc_unbounded_send (msg_ops E) (msgs w h) m") (simp add: msg_send_def Let_def)
  show "mview (snd (mpsc_unbounded_send (msg_ops E) (msgs w h) m)) =
      mview (msgs w h)\<lparr>cv_buffer := cv_buffer (mview (msgs w h)) @ [m]\<rparr>"
    using assms by (simp add: mch.unbounded_send_snd view_send_def)
qed

lemma msg_send_closed:
  assumes "\<not> cv_open (mview (msgs w h))"
  obtains ch where "msg_send E h m w = (False, drop_message E m (w\<lparr>msgs := (msgs w)(h := ch)\<rparr>))"
    "mview ch = mview (msgs w h)"
proof (rule that [of "snd (mpsc_unbounded_send (msg_ops E) (msgs w h) m)"])
  have "fst (mpsc_unbounded_send (msg_ops E) (msgs w h) m) = Err m"
    using assms by (simp add: mch.unbounded_send_fst view_send_def)
  then show "msg_send E h m w = (False, drop_message E m
      (w\<lparr>msgs := (msgs w)(h := snd (mpsc_unbounded_send (msg_ops E) (msgs w h) m))\<rparr>))"
    by (cases "mpsc_unbounded_send (msg_ops E) (msgs w h) m") (simp add: msg_send_def Let_def)
  show "mview (snd (mpsc_unbounded_send (msg_ops E) (msgs w h) m)) = mview (msgs w h)"
    using assms by (simp add: mch.unbounded_send_snd view_send_def)
qed

text \<open>A message for a listening user is appended to the inbox; for a user who is gone it is
  dropped, and the peer is asked to stop if it may still be sending.\<close>

lemma recv_message_listening:
  assumes "user_listens mview c w"
  obtains ch where "recv_message E c m w = (c, w\<lparr>msgs := (msgs w)(sc_recv_msg c := ch)\<rparr>)"
    "mview ch = mview (msgs w (sc_recv_msg c))\<lparr>cv_buffer := inbox mview c w @ [m]\<rparr>"
proof -
  obtain ch where "msg_send E (sc_recv_msg c) m w = (True, w\<lparr>msgs := (msgs w)(sc_recv_msg c := ch)\<rparr>)"
    "mview ch = mview (msgs w (sc_recv_msg c))\<lparr>cv_buffer := inbox mview c w @ [m]\<rparr>"
    using msg_send_open [of w "sc_recv_msg c" m] assms unfolding user_listens_def inbox_def by blast
  then show ?thesis by (intro that) (simp_all add: recv_message_def)
qed

lemma recv_message_gone:
  assumes "\<not> user_listens mview c w" "\<not> is_swap m"
  obtains ch where "recv_message E c m w =
      recv_message_dropped E c (w\<lparr>msgs := (msgs w)(sc_recv_msg c := ch)\<rparr>)"
    "mview ch = mview (msgs w (sc_recv_msg c))"
proof -
  obtain ch where s: "msg_send E (sc_recv_msg c) m w =
      (False, drop_message E m (w\<lparr>msgs := (msgs w)(sc_recv_msg c := ch)\<rparr>))"
    "mview ch = mview (msgs w (sc_recv_msg c))"
    using msg_send_closed [of w "sc_recv_msg c" m] assms(1) unfolding user_listens_def by blast
  from s have "recv_message E c m w =
      recv_message_dropped E c (w\<lparr>msgs := (msgs w)(sc_recv_msg c := ch)\<rparr>)"
    by (simp add: recv_message_def drop_message_other [OF assms(2)])
  with s(2) show ?thesis by (intro that)
qed

end

text \<open>What an event adds to the inbox behind the data.\<close>

definition end_message :: "callback_event \<Rightarrow> message list" where
  "end_message event =
     (if event = callback_stream_reset then [MReset]
      else if event = callback_stream_fin then [MClose] else [])"

context stream_channels
begin

lemma callback_listening:
  assumes "user_listens mview c w" "event \<noteq> callback_prepare_to_send"
    and data: "data = c_read E (quic w) ptr len"
  obtains c' w' where "stream_handle_callback E ptr len event c w = Some (c', w')"
    "inbox mview c' w' = inbox mview c w @
       (if data \<noteq> [] \<and> \<not> sc_fin_received_or_recv_msg_dropped c then [MRecvData data] else []) @
       end_message event"
    "user_listens mview c' w'" "sc_recv_msg c' = sc_recv_msg c" "quic w' = quic w"
    "sc_fin_received_or_recv_msg_dropped c' \<longleftrightarrow>
       sc_fin_received_or_recv_msg_dropped c \<or> end_message event \<noteq> []"
    "cv_senders (mview (msgs w' (sc_recv_msg c))) = cv_senders (mview (msgs w (sc_recv_msg c)))"
proof -
  define c1w1 where "c1w1 =
    (if data \<noteq> [] \<and> \<not> sc_fin_received_or_recv_msg_dropped c then recv_message E c (MRecvData data) w else (c, w))"
  obtain w1 where 1: "c1w1 = (c, w1)" "user_listens mview c w1" "quic w1 = quic w"
    "inbox mview c w1 = inbox mview c w @
       (if data \<noteq> [] \<and> \<not> sc_fin_received_or_recv_msg_dropped c then [MRecvData data] else [])"
    "cv_senders (mview (msgs w1 (sc_recv_msg c))) = cv_senders (mview (msgs w (sc_recv_msg c)))"
  proof (cases "data \<noteq> [] \<and> \<not> sc_fin_received_or_recv_msg_dropped c")
    case True
    obtain ch where "recv_message E c (MRecvData data) w = (c, w\<lparr>msgs := (msgs w)(sc_recv_msg c := ch)\<rparr>)"
      "mview ch = mview (msgs w (sc_recv_msg c))\<lparr>cv_buffer := inbox mview c w @ [MRecvData data]\<rparr>"
      using recv_message_listening [OF assms(1)] by blast
    with True assms(1) that show ?thesis by (auto simp: c1w1_def inbox_def user_listens_def)
  next
    case False
    with assms(1) that show ?thesis by (auto simp: c1w1_def)
  qed
  have run: "stream_handle_callback E ptr len event c w = Some
     (if event = callback_stream_reset then
        recv_message E (c\<lparr>sc_fin_received_or_recv_msg_dropped := True\<rparr>) MReset w1
      else if event = callback_stop_sending then
        close_send_data E (c\<lparr>sc_stop_sending_or_fin_sent := True\<rparr>) w1
      else if event = callback_stream_fin then
        recv_message E (c\<lparr>sc_fin_received_or_recv_msg_dropped := True\<rparr>) MClose w1
      else (c, w1))"
    using assms(2) 1(1)
    by (simp add: stream_handle_callback_def Let_def c1w1_def data [symmetric] del: not_None_eq)
  let ?c = "c\<lparr>sc_fin_received_or_recv_msg_dropped := True\<rparr>"
  have l: "user_listens mview ?c w1" using 1(2) by (simp add: user_listens_def)
  show ?thesis
  proof (cases "end_message event")
    case Nil
    let ?r = "if event = callback_stop_sending
      then close_send_data E (c\<lparr>sc_stop_sending_or_fin_sent := True\<rparr>) w1 else (c, w1)"
    from Nil run have "stream_handle_callback E ptr len event c w = Some (fst ?r, snd ?r)"
      by (auto simp: end_message_def split: if_splits)
    then show ?thesis
      by (rule that) (use Nil 1 in \<open>simp_all add: inbox_def user_listens_def\<close>)
  next
    case (Cons m ms)
    obtain ch where "recv_message E ?c m w1 = (?c, w1\<lparr>msgs := (msgs w1)(sc_recv_msg ?c := ch)\<rparr>)"
      "mview ch = mview (msgs w1 (sc_recv_msg ?c))\<lparr>cv_buffer := inbox mview ?c w1 @ [m]\<rparr>"
      using recv_message_listening [OF l] by blast
    moreover from Cons run have "stream_handle_callback E ptr len event c w = Some (recv_message E ?c m w1)"
      by (auto simp: end_message_def split: if_splits)
    moreover from Cons have "ms = []" by (auto simp: end_message_def split: if_splits)
    ultimately show ?thesis
      using Cons 1
      by (intro that [of ?c "w1\<lparr>msgs := (msgs w1)(sc_recv_msg ?c := ch)\<rparr>"])
         (simp_all add: inbox_def user_listens_def)
  qed
qed

lemma callback_gone:
  assumes "\<not> user_listens mview c w" "event \<noteq> callback_prepare_to_send"
    and data: "data = c_read E (quic w) ptr len"
  obtains c' w' where "stream_handle_callback E ptr len event c w = Some (c', w')"
    "quic w' =
       (if data \<noteq> [] \<and> \<not> sc_fin_received_or_recv_msg_dropped c \<and> receives c
        then picoquic_stop_sending E (quic w) (sc_cnx c) (sc_id c) 0 else quic w)"
    "\<not> user_listens mview c' w'" "sc_recv_msg c' = sc_recv_msg c"
    "sc_fin_received_or_recv_msg_dropped c' \<longleftrightarrow>
       sc_fin_received_or_recv_msg_dropped c \<or> data \<noteq> [] \<or> end_message event \<noteq> []"
proof -
  define c1w1 where "c1w1 =
    (if data \<noteq> [] \<and> \<not> sc_fin_received_or_recv_msg_dropped c then recv_message E c (MRecvData data) w else (c, w))"
  let ?f = "sc_fin_received_or_recv_msg_dropped c \<or> data \<noteq> []"
  let ?q = "if data \<noteq> [] \<and> \<not> sc_fin_received_or_recv_msg_dropped c \<and> receives c
    then picoquic_stop_sending E (quic w) (sc_cnx c) (sc_id c) 0 else quic w"
  obtain c1 w1 where 1: "c1w1 = (c1, w1)" "c1 = c\<lparr>sc_fin_received_or_recv_msg_dropped := ?f\<rparr>"
    "\<not> user_listens mview c1 w1" "quic w1 = ?q"
  proof (cases "data \<noteq> [] \<and> \<not> sc_fin_received_or_recv_msg_dropped c")
    case True
    obtain ch where "recv_message E c (MRecvData data) w =
        recv_message_dropped E c (w\<lparr>msgs := (msgs w)(sc_recv_msg c := ch)\<rparr>)"
      "mview ch = mview (msgs w (sc_recv_msg c))"
      using recv_message_gone [OF assms(1), of "MRecvData data"] by auto
    with True assms(1) show ?thesis
      by (intro that [of "c\<lparr>sc_fin_received_or_recv_msg_dropped := True\<rparr>"
            "snd (recv_message_dropped E c (w\<lparr>msgs := (msgs w)(sc_recv_msg c := ch)\<rparr>))"])
         (simp_all add: c1w1_def recv_message_dropped_eq user_listens_def)
  next
    case False
    then have "c = c\<lparr>sc_fin_received_or_recv_msg_dropped := ?f\<rparr>" by (cases c) auto
    with False assms(1) that [of c w] show ?thesis by (auto simp: c1w1_def)
  qed
  have run: "stream_handle_callback E ptr len event c w = Some
     (if event = callback_stream_reset then
        recv_message E (c1\<lparr>sc_fin_received_or_recv_msg_dropped := True\<rparr>) MReset w1
      else if event = callback_stop_sending then
        close_send_data E (c1\<lparr>sc_stop_sending_or_fin_sent := True\<rparr>) w1
      else if event = callback_stream_fin then
        recv_message E (c1\<lparr>sc_fin_received_or_recv_msg_dropped := True\<rparr>) MClose w1
      else (c1, w1))"
    using assms(2) 1(1)
    by (simp add: stream_handle_callback_def Let_def c1w1_def data [symmetric] del: not_None_eq)
  let ?c = "c1\<lparr>sc_fin_received_or_recv_msg_dropped := True\<rparr>"
  have l: "\<not> user_listens mview ?c w1" using 1(3) by (simp add: user_listens_def)
  show ?thesis
  proof (cases "end_message event")
    case Nil
    let ?r = "if event = callback_stop_sending
      then close_send_data E (c1\<lparr>sc_stop_sending_or_fin_sent := True\<rparr>) w1 else (c1, w1)"
    from Nil run have "stream_handle_callback E ptr len event c w = Some (fst ?r, snd ?r)"
      by (auto simp: end_message_def split: if_splits)
    then show ?thesis
      by (rule that) (use Nil 1 in \<open>simp_all add: user_listens_def\<close>)
  next
    case (Cons m ms)
    then have "\<not> is_swap m" by (auto simp: end_message_def split: if_splits)
    then obtain ch where "recv_message E ?c m w1 =
        recv_message_dropped E ?c (w1\<lparr>msgs := (msgs w1)(sc_recv_msg ?c := ch)\<rparr>)"
      "mview ch = mview (msgs w1 (sc_recv_msg ?c))"
      using recv_message_gone [OF l] by blast
    moreover from Cons run have "stream_handle_callback E ptr len event c w = Some (recv_message E ?c m w1)"
      by (auto simp: end_message_def split: if_splits)
    ultimately show ?thesis
      using Cons 1
      by (intro that [of ?c "w1\<lparr>msgs := (msgs w1)(sc_recv_msg ?c := ch)\<rparr>"])
         (simp_all add: user_listens_def recv_message_dropped_eq)
  qed
qed

end

end
