(* ===== verification/Stream_User.thy ===== *)
theory Stream_User
  imports Stream_Receiving
begin

text \<open>
  The user's side of \<^verbatim>\<open>src/stream.rs\<close>: what the operations of a
  \<^verbatim>\<open>Stream\<close> do to the bytes that are on their way, to the inbox and to the control
  channel, and what a context does when the user's side has ended.
\<close>

section \<open>Sending\<close>

lemma inflight_bytes_last:
  assumes "distinct (recv_chain c ms)" "recv_chain c ms \<noteq> []" "last (recv_chain c ms) = h"
    and "\<And>h'. h' \<noteq> h \<Longrightarrow> chan_items dview h' (datas w') = chan_items dview h' (datas w)"
    and "chan_items dview h (datas w') = chan_items dview h (datas w) @ new"
  shows "inflight_bytes dview c ms w' = inflight_bytes dview c ms w @ concat new"
proof -
  obtain hs where hs: "recv_chain c ms = hs @ [h]"
    using assms(2,3) by (metis append_butlast_last_id)
  with assms(1) have "h \<notin> set hs" by simp
  then have "map (\<lambda>h. chan_items dview h (datas w')) hs = map (\<lambda>h. chan_items dview h (datas w)) hs"
    by (intro map_cong [OF refl] assms(4)) auto
  with assms(5) show ?thesis by (simp add: inflight_bytes_def hs del: map_eq_conv)
qed

context stream_channels
begin

lemma start_send_inflight:
  assumes "st_send_data st = Some h"
    and "recv_chain c ms \<noteq> []" "last (recv_chain c ms) = h" "distinct (recv_chain c ms)"
  obtains
    (accepted) w' where "cv_open (dview (ce_chan (datas w h)))"
      "stream_start_send E item st w = (Ok SinkReady, w')"
      "inflight_bytes dview c ms w' = inflight_bytes dview c ms w @ item"
  | (full) w' where "cv_open (dview (ce_chan (datas w h)))"
      "stream_start_send E item st w = (Ok (SinkNotReady item), w')"
      "inflight_bytes dview c ms w' = inflight_bytes dview c ms w"
  | (closed) w' where "\<not> cv_open (dview (ce_chan (datas w h)))"
      "stream_start_send E item st w =
         (Err (case ce_error (datas w h) of Some f \<Rightarrow> f () | None \<Rightarrow> MkError (SendErrorKind item)), w')"
      "inflight_bytes dview c ms w' = inflight_bytes dview c ms w"
proof -
  let ?r = "sender_start_send (data_ops E) (datas w h) item"
  let ?w = "w\<lparr>datas := (datas w)(h := snd ?r)\<rparr>"
  have run: "stream_start_send E item st w =
      (map_err (\<lambda>e. case e of Channel e _ \<Rightarrow> e | Normal e \<Rightarrow> error_from_kind (SendErrorKind e)) (fst ?r), ?w)"
    using assms(1) by (simp add: stream_start_send_def get_send_data_def split_beta)
  note last = inflight_bytes_last [OF assms(4,2,3), of dview ?w w]
  show ?thesis
  proof (cases "cv_open (dview (ce_chan (datas w h)))")
    case True
    from dch.sender_start_send_open(1) [OF True, of item] show ?thesis
    proof (elim disjE conjE)
      assume "fst ?r = Ok SinkReady" "dview (ce_chan (snd ?r)) = dview (ce_chan (datas w h))
        \<lparr>cv_buffer := cv_buffer (dview (ce_chan (datas w h))) @ [item]\<rparr>"
      with run last [of "[item]"] True show ?thesis
        by (intro accepted [of ?w]) (simp_all add: chan_items_def)
    next
      assume "fst ?r = Ok (SinkNotReady item)" "dview (ce_chan (snd ?r)) = dview (ce_chan (datas w h))"
      with run last [of "[]"] True show ?thesis
        by (intro full [of ?w]) (simp_all add: chan_items_def)
    qed
  next
    case False
    with run last [of "[]"] dch.sender_start_send_closed(1,2) [OF False, of item] show ?thesis
      by (intro closed [of ?w]) (auto simp: chan_items_def error_from_kind_def split: option.split)
  qed
qed

text \<open>The user's side has ended and everything it queued is gone: an unused stream is reset,
  a used one is woken once more to send the fin bit, unless that is done already.\<close>

lemma poll_send_data_ended:
  assumes "ctx_valid c" "sc_send_data c = Some s" "data_ended dview s w" "data_items dview s w = []"
    and "sc_active_buffer c = None"
  obtains c' w' where "poll_send_data E c w = (Ok (), c', w')" "sc_send_data c' = None"
    "quic w' =
       (if \<not> sc_data_send c then picoquic_reset_stream E (quic w) (sc_cnx c) (sc_id c) 0
        else if \<not> sc_stop_sending_or_fin_sent c
          then picoquic_mark_active_stream E (quic w) (sc_cnx c) (sc_id c) True
        else quic w)"
    "sc_stop_sending_or_fin_sent c' \<longleftrightarrow> sc_stop_sending_or_fin_sent c \<or> \<not> sc_data_send c"
    "sc_data_send c' = sc_data_send c" "sc_active_buffer c' = None"
proof -
  from assms(1,2) have "data_valid s" by (simp add: ctx_valid_def)
  then show ?thesis
  proof (cases rule: dsnd.poll_cases [where w = w])
    case (fin s' w')
    let ?r = "handle_send_data_dropped E (c\<lparr>sc_send_data := Some s'\<rparr>) w'"
    have q: "quic w' = quic w" using fin(1) by (auto simp: data_poll_def split: prod.splits)
    have r: "poll_send_data E c w = (Ok (), fst ?r, snd ?r)"
      using assms fin(1) by (simp add: poll_send_data_def)
    show ?thesis
      by (rule that [OF r])
         (use assms(5) q in \<open>simp_all add: handle_send_data_dropped_def context_reset_eq Let_def\<close>)
  qed (use assms in simp_all)
qed

text \<open>Exchanging the send channel while the context listens.\<close>

lemma resize_open:
  assumes "st_send_data st = Some h" "cv_open (mview (msgs w (st_control_msg st)))"
    and "set_send_channel_size E n st w = (st', w')"
  shows "st' = st\<lparr>st_send_data := Some (fresh w)\<rparr>" "fresh w' = Suc (fresh w)"
    "datas w' = (datas w)(fresh w := channel (data_ops E) n)"
    "mview (msgs w' (st_control_msg st)) = mview (msgs w (st_control_msg st))
       \<lparr>cv_buffer := cv_buffer (mview (msgs w (st_control_msg st))) @ [MSwapSendData (fresh w) h]\<rparr>"
proof -
  let ?m = "MSwapSendData (fresh w) h" and ?ch = "msgs w (st_control_msg st)"
  obtain r ch where s: "mpsc_unbounded_send (msg_ops E) ?ch ?m = (r, ch)" by fastforce
  have v: "r = Ok ()" "mview ch = mview ?ch\<lparr>cv_buffer := cv_buffer (mview ?ch) @ [?m]\<rparr>"
    using mch.unbounded_send_fst [of ?ch ?m] mch.unbounded_send_snd [of ?ch ?m] s assms(2)
    by (simp_all add: view_send_def)
  show "st' = st\<lparr>st_send_data := Some (fresh w)\<rparr>" "fresh w' = Suc (fresh w)"
    "datas w' = (datas w)(fresh w := channel (data_ops E) n)"
    "mview (msgs w' (st_control_msg st)) = mview ?ch\<lparr>cv_buffer := cv_buffer (mview ?ch) @ [?m]\<rparr>"
    using assms(1,3) s v
    by (auto simp: set_send_channel_size_def new_data_chan_def msg_send_def Let_def)
qed

text \<open>Two exchanges before the context is polled: what is accepted in between is on its way, in a
  channel that the context never polls.\<close>

lemma double_resize_lost:
  assumes "sc_send_data c = Some \<lparr>active_stream = h, swap_to = None\<rparr>" "st_send_data st = Some h" "h < fresh w"
    and "st_control_msg st = sc_control_msg c" "cv_open (mview (msgs w (sc_control_msg c)))"
    and "cv_buffer (mview (msgs w (sc_control_msg c))) = []"
    and "set_send_channel_size E n st w = (st1, w1)" "stream_start_send E item st1 w1 = (Ok SinkReady, w2)"
    and "set_send_channel_size E m st1 w2 = (st2, w3)"
  shows "inflight_bytes dview c (cv_buffer (mview (msgs w3 (sc_control_msg c)))) w3 = pending_bytes dview c w @ item"
    "\<exists>r c' w'. poll_control_msg E c w3 = Some (r, c', w') \<and> pending_bytes dview c' w' = pending_bytes dview c w"
proof -
  note r1 = resize_open [OF assms(2) _ assms(7)]
  have st1: "st_send_data st1 = Some (fresh w)" "st_control_msg st1 = st_control_msg st"
    using r1(1) assms(4,5) by simp_all
  have chain: "recv_chain c [MSwapSendData (fresh w) h] = [h, fresh w]"
    using assms(1) by (simp add: recv_chain_def swappable_chain_def)
  let ?ms = "[MSwapSendData (fresh w) h]"
  have b1: "inflight_bytes dview c ?ms w1 = pending_bytes dview c w"
    using r1(3) assms(1,3,4,5) chain
    by (simp add: inflight_bytes_def pending_bytes_inflight recv_chain_def swappable_chain_def chan_items_def view_simps view_new_def)
  have b2: "inflight_bytes dview c ?ms w2 = pending_bytes dview c w @ item"
    using start_send_inflight [OF st1(1), of c ?ms w1 item] chain b1 assms(3,8) by auto
  obtain ce where w2: "w2 = w1\<lparr>datas := (datas w1)(fresh w := ce)\<rparr>"
    using assms(8) st1(1) by (auto simp: stream_start_send_def get_send_data_def split: prod.splits)
  have "cv_open (mview (msgs w2 (st_control_msg st1)))" using r1(4) assms(4,5) st1(2) w2 by simp
  note r2 = resize_open [OF st1(1) this assms(9)]
  have f: "fresh w2 = Suc (fresh w)" using r1(2) assms(4,5) w2 by simp
  let ?ms = "[MSwapSendData (fresh w) h, MSwapSendData (Suc (fresh w)) (fresh w)]"
  have q: "cv_buffer (mview (msgs w3 (sc_control_msg c))) = ?ms"
    using r2(4) r1(4) st1(2) f w2 assms(4,5,6) by simp
  have chain3: "recv_chain c ?ms = [h, fresh w, Suc (fresh w)]"
    using assms(1) by (simp add: recv_chain_def swappable_chain_def)
  have d: "datas w3 = (datas w2)(Suc (fresh w) := channel (data_ops E) m)" using r2(3) f by simp
  have new: "chan_items dview (Suc (fresh w)) (datas w3) = []"
    using d by (simp add: chan_items_def view_simps view_new_def)
  show "inflight_bytes dview c (cv_buffer (mview (msgs w3 (sc_control_msg c)))) w3 = pending_bytes dview c w @ item"
    using b2 assms(3) unfolding q by (simp add: inflight_bytes_def chain3 chain chan_items_def d view_simps view_new_def)
  have "chan_items dview h (datas w3) = chan_items dview h (datas w)"
    using d w2 r1(3) assms(3,4,5) by (simp add: chan_items_def)
  with poll_control_msg_swaps [OF q _ assms(1)] new show
    "\<exists>r c' w'. poll_control_msg E c w3 = Some (r, c', w') \<and> pending_bytes dview c' w' = pending_bytes dview c w"
    using chain3 assms(1,3)
    by (fastforce simp: pending_bytes_inflight inflight_bytes_def recv_chain_def swappable_chain_def)
qed

end

end
