(* ===== verification/Stream_Props.thy ===== *)
theory Stream_Props
  imports Stream_User
begin

text \<open>
  The properties of the stream component, and the recording environment on which their
  hypotheses are discharged: its channels keep their view as their state, and its picoquic
  state is the list of calls made so far.
\<close>

section \<open>A recording environment\<close>

datatype quic_call =
    CallReset ptr u64 u64
  | CallStop ptr u64 u64
  | CallMarkActive ptr u64
  | CallProvide nat bool bool
  | CallWrite bytes
  | CallSetCallback ptr "nat option"
  | CallClose ptr
  | CallKeepAlive ptr u64
  | CallCreate socket_addr bytes

definition record_env ::
  "(message chan_view, bytes chan_view, quic_call list) stream_env" where
  "record_env =
     \<lparr>msg_ops = fifo_mpsc, data_ops = fifo_mpsc,
      picoquic_reset_stream = (\<lambda>q cnx sid err. q @ [CallReset cnx sid err]),
      picoquic_stop_sending = (\<lambda>q cnx sid err. q @ [CallStop cnx sid err]),
      picoquic_mark_active_stream = (\<lambda>q cnx sid active. q @ [CallMarkActive cnx sid]),
      picoquic_provide_stream_data_buffer = (\<lambda>q ctx n fin act. (1, q @ [CallProvide n fin act])),
      c_read = (\<lambda>q p n. replicate n (of_nat p)),
      c_write = (\<lambda>q p bs. q @ [CallWrite bs]),
      picoquic_get_peer_addr = (\<lambda>q cnx. (1, 16)),
      sockaddr_as_inet = (\<lambda>q sa. Some (SocketAddrV4 1 2)),
      sockaddr_as_inet6 = (\<lambda>q sa. None)\<rparr>"

lemma record_env_ops [simp]: "msg_ops record_env = fifo_mpsc" "data_ops record_env = fifo_mpsc"
  by (simp_all add: record_env_def)

interpretation rec: stream_channels record_env "\<lambda>v. v" "\<lambda>v. v"
  by (intro stream_channels.intro) (simp_all add: fifo.mpsc_channel_axioms)

lemma record_env_c_memory: "c_memory record_env"
  by (simp add: c_memory_def record_env_def)

text \<open>A world in which one data channel (handle 2) holds two buffers and its sender is gone,
  and a context that still has a remainder to send.\<close>

definition sample_view :: "'a list \<Rightarrow> nat \<Rightarrow> bool \<Rightarrow> 'a chan_view" where
  "sample_view ms senders opened =
     \<lparr>cv_buffer = ms, cv_senders = senders, cv_open = opened, cv_bound = None\<rparr>"

definition sample_world ::
  "(nat \<Rightarrow> message list) \<Rightarrow> (nat \<Rightarrow> bytes list) \<Rightarrow> nat \<Rightarrow>
   (message chan_view, bytes chan_view, quic_call list) world" where
  "sample_world ms ds senders =
     \<lparr>msgs = (\<lambda>h. sample_view (ms h) 1 True),
      datas = (\<lambda>h. \<lparr>ce_chan = sample_view (ds h) senders True, ce_error = None\<rparr>),
      fresh = 10, quic = []\<rparr>"

definition sample_ctx :: "nat option \<Rightarrow> bytes option \<Rightarrow> stream_ctx" where
  "sample_ctx n buf =
     \<lparr>sc_recv_msg = 0, sc_send_data = Some \<lparr>active_stream = 2, swap_to = n\<rparr>,
      sc_control_msg = 1, sc_id = 4, sc_cnx = 7, sc_is_client_con = True, sc_data_send = False,
      sc_stop_sending_or_fin_sent = False, sc_fin_received_or_recv_msg_dropped = False,
      sc_active_buffer = buf\<rparr>"

lemmas sample_defs = sample_world_def sample_ctx_def sample_view_def

section \<open>Sending\<close>

text \<open>C12.  Whenever picoquic asks for stream data, the handler returns without a panic, and
  the bytes it hands over are exactly the next bytes the user queued, at most as many as asked
  for: what was pending before is what was sent followed by what is pending after.  It hands over
  as much as it can, unless a channel that is being replaced still has a sender.\<close>

theorem handle_send_data_lossless:
  assumes "stream_channels E mview dview" "c_memory E" "ctx_valid c"
  shows "\<exists>c' w' sent fin active.
    handle_send_data E ctx max_length c w = Some (c', w') \<and>
    pending_bytes dview c w = sent @ pending_bytes dview c' w' \<and>
    length sent \<le> max_length \<and>
    (ctx_prompt dview c w \<longrightarrow> sent = take max_length (pending_bytes dview c w)) \<and>
    quic w' = (case picoquic_provide_stream_data_buffer E (quic w) ctx (length sent) fin active
               of (dest, q) \<Rightarrow> c_write E q dest sent)"
proof -
  obtain c' w' fin sent D where
    "handle_send_data E ctx max_length c w = Some (c', w')"
    "pending_bytes dview c w = sent @ pending_bytes dview c' w'" "length sent \<le> max_length"
    "w' = w\<lparr>datas := D, quic := (case picoquic_provide_stream_data_buffer E (quic w) ctx
       (length sent) fin (sc_active_buffer c' \<noteq> None) of (dest, q) \<Rightarrow> c_write E q dest sent)\<rparr>"
    "ctx_prompt dview c w \<Longrightarrow> sent = take max_length (pending_bytes dview c w)"
    by (rule stream_channels.handle_send_data_total [OF assms(1,3,2), of ctx max_length w]) blast
  then show ?thesis by (intro exI conjI impI) (assumption | simp)+
qed

theorem handle_send_data_lossless_witness:
  "\<exists>c' w' sent fin active.
    handle_send_data record_env 9 4 (sample_ctx None (Some [1, 2, 3]))
      (sample_world (\<lambda>_. []) (\<lambda>h. [[4, 5], [6]]) 0) = Some (c', w') \<and>
    [1, 2, 3, 4, 5, 6] = sent @ pending_bytes (\<lambda>v. v) c' w' \<and> sent = [1, 2, 3, 4] \<and>
    quic w' = (case picoquic_provide_stream_data_buffer record_env [] 9 (length sent) fin active
               of (dest, q) \<Rightarrow> c_write record_env q dest sent)"
proof -
  have "ctx_valid (sample_ctx None (Some [1, 2, 3]))"
    by (simp add: sample_defs ctx_valid_def data_valid_def)
  moreover have "pending_bytes (\<lambda>v. v) (sample_ctx None (Some [1, 2, 3]))
      (sample_world (\<lambda>_. []) (\<lambda>h. [[4, 5], [6]]) 0) = [1, 2, 3, 4, 5, 6]"
    by (simp add: sample_defs pending_bytes_def data_items_def swap_items_def chan_items_def)
  moreover have "ctx_prompt (\<lambda>v. v) (sample_ctx None (Some [1, 2, 3])) (sample_world (\<lambda>_. []) (\<lambda>h. [[4, 5], [6]]) 0)"
    by (simp add: sample_defs ctx_prompt_def data_prompt_def)
  moreover have "quic (sample_world (\<lambda>_. []) (\<lambda>h. [[4, 5], [6]]) 0) = []"
    by (simp add: sample_defs)
  ultimately show ?thesis
    using handle_send_data_lossless [OF rec.stream_channels_axioms record_env_c_memory,
      of "sample_ctx None (Some [1, 2, 3])" 9 4 "sample_world (\<lambda>_. []) (\<lambda>h. [[4, 5], [6]]) 0"]
    by simp
qed

text \<open>C13.  The flags passed with the data are exact.  The fin bit is set if and only if the
  user's side has ended and nothing is left to send (so never in front of data); the stream
  stays active if and only if a remainder is kept; and the context records both.\<close>

theorem handle_send_data_flags:
  assumes "stream_channels E mview dview" "c_memory E" "ctx_valid c"
  shows "\<exists>c' w' sent fin.
    handle_send_data E ctx max_length c w = Some (c', w') \<and>
    quic w' = (case picoquic_provide_stream_data_buffer E (quic w) ctx (length sent) fin
                 (sc_active_buffer c' \<noteq> None) of (dest, q) \<Rightarrow> c_write E q dest sent) \<and>
    (fin \<longleftrightarrow> send_ended dview c w \<and> pending_bytes dview c' w' = []) \<and>
    sc_stop_sending_or_fin_sent c' = fin \<and>
    (sc_data_send c' \<longleftrightarrow> sc_data_send c \<or> sent \<noteq> [] \<or> sc_active_buffer c' \<noteq> None) \<and>
    ctx_valid c' \<and> msgs w' = msgs w"
proof -
  obtain c' w' fin sent D where r:
    "handle_send_data E ctx max_length c w = Some (c', w')"
    "w' = w\<lparr>datas := D, quic := (case picoquic_provide_stream_data_buffer E (quic w) ctx
       (length sent) fin (sc_active_buffer c' \<noteq> None) of (dest, q) \<Rightarrow> c_write E q dest sent)\<rparr>"
    "fin \<longleftrightarrow> send_ended dview c w \<and> pending_bytes dview c' w' = []"
    "\<exists>sd. c' = c\<lparr>sc_send_data := sd, sc_active_buffer := sc_active_buffer c',
       sc_stop_sending_or_fin_sent := fin,
       sc_data_send := (sc_data_send c \<or> sent \<noteq> [] \<or> sc_active_buffer c' \<noteq> None)\<rparr>"
    "ctx_valid c'"
    by (rule stream_channels.handle_send_data_total [OF assms(1,3,2)])
  from r(4) obtain sd where e: "c' = c\<lparr>sc_send_data := sd, sc_active_buffer := sc_active_buffer c',
       sc_stop_sending_or_fin_sent := fin,
       sc_data_send := (sc_data_send c \<or> sent \<noteq> [] \<or> sc_active_buffer c' \<noteq> None)\<rparr>" ..
  have "sc_stop_sending_or_fin_sent c' = fin" by (subst e) simp
  moreover have "sc_data_send c' = (sc_data_send c \<or> sent \<noteq> [] \<or> sc_active_buffer c' \<noteq> None)"
    by (subst e) simp
  moreover have "quic w' = (case picoquic_provide_stream_data_buffer E (quic w) ctx (length sent) fin
                 (sc_active_buffer c' \<noteq> None) of (dest, q) \<Rightarrow> c_write E q dest sent)" "msgs w' = msgs w"
    by (simp_all add: r(2))
  ultimately show ?thesis using r(1,3,5) by blast
qed

theorem handle_send_data_flags_witness:
  "\<exists>c' w' sent fin.
    handle_send_data record_env 9 4 (sample_ctx None None)
      (sample_world (\<lambda>_. []) (\<lambda>h. [[4, 5], [6]]) 0) = Some (c', w') \<and>
    quic w' = (case picoquic_provide_stream_data_buffer record_env
                 (quic (sample_world (\<lambda>_. []) (\<lambda>h. [[4, 5], [6]]) 0)) 9 (length sent) fin
                 (sc_active_buffer c' \<noteq> None) of (dest, q) \<Rightarrow> c_write record_env q dest sent) \<and>
    (fin \<longleftrightarrow> send_ended (\<lambda>v. v) (sample_ctx None None)
       (sample_world (\<lambda>_. []) (\<lambda>h. [[4, 5], [6]]) 0) \<and> pending_bytes (\<lambda>v. v) c' w' = []) \<and>
    sc_stop_sending_or_fin_sent c' = fin \<and>
    (sc_data_send c' \<longleftrightarrow> sc_data_send (sample_ctx None None) \<or> sent \<noteq> [] \<or>
       sc_active_buffer c' \<noteq> None) \<and>
    ctx_valid c' \<and> msgs w' = msgs (sample_world (\<lambda>_. []) (\<lambda>h. [[4, 5], [6]]) 0)"
  by (rule handle_send_data_flags [OF rec.stream_channels_axioms record_env_c_memory])
     (simp add: sample_defs ctx_valid_def data_valid_def)

text \<open>C27.  No sum of lengths overflows: when the slice picoquic asks for and every queued
  buffer are within \<open>isize::MAX\<close> (which Rust guarantees for every slice), the size that
  collecting computes, and so every partial sum and offset, fits into a \<open>usize\<close>.\<close>

theorem collect_buffers_size_bound:
  assumes "stream_channels E mview dview" "ctx_valid c"
    and "max_length \<le> isize_max"
    and "\<forall>buf. sc_active_buffer c = Some buf \<longrightarrow> length buf \<le> isize_max"
    and "\<forall>s. sc_send_data c = Some s \<longrightarrow> (\<forall>buf\<in>set (data_items dview s w). length buf \<le> isize_max)"
  shows "\<exists>sz fin buffers c' w'.
    collect_buffers_to_send E max_length c w = Some (sz, fin, buffers, c', w') \<and>
    sz = length (concat buffers) \<and> sz \<le> usize_max"
proof -
  obtain fin buffers c' w' where r:
    "collect_buffers_to_send E max_length c w = Some (length (concat buffers), fin, buffers, c', w')"
    "collect_post dview max_length c w fin buffers c' w'"
    by (rule stream_channels.collect_buffers_to_send_total [OF assms(1,2)])
  have "length (concat buffers) \<le> usize_max"
  proof (cases buffers rule: rev_cases)
    case (snoc bs b)
    with r have "length (concat bs) \<le> max_length" by (simp add: collect_post_def)
    moreover have "length b \<le> isize_max"
      using r(2) snoc assms(4,5) by (auto simp: collect_post_def split: option.splits)
    ultimately show ?thesis using assms(3) snoc by simp
  qed simp
  with r(1) show ?thesis by blast
qed

theorem collect_buffers_size_bound_witness:
  "\<exists>sz fin buffers c' w'.
    collect_buffers_to_send record_env 4 (sample_ctx None (Some [1, 2, 3]))
      (sample_world (\<lambda>_. []) (\<lambda>h. [[4, 5], [6]]) 0) = Some (sz, fin, buffers, c', w') \<and>
    sz = length (concat buffers) \<and> sz \<le> usize_max"
  by (rule collect_buffers_size_bound [OF rec.stream_channels_axioms])
     (simp_all add: sample_defs ctx_valid_def data_valid_def data_items_def swap_items_def chan_items_def)

text \<open>C25.  What the user's sink accepts is appended, as one unit, behind everything that is
  already on its way to picoquic; what it does not accept changes nothing there: a full channel
  hands it back, a closed one reports the error that the receiving side left, or hands it back
  inside the error.\<close>

theorem start_send_appends:
  assumes "stream_channels E mview dview" "st_send_data st = Some h"
    and "recv_chain c ms \<noteq> []" "last (recv_chain c ms) = h" "distinct (recv_chain c ms)"
  shows "\<exists>r w'. stream_start_send E item st w = (r, w') \<and>
    inflight_bytes dview c ms w' = inflight_bytes dview c ms w @ (if r = Ok SinkReady then item else []) \<and>
    (if cv_open (dview (ce_chan (datas w h))) then r = Ok SinkReady \<or> r = Ok (SinkNotReady item)
     else r = Err (case ce_error (datas w h) of Some f \<Rightarrow> f () | None \<Rightarrow> MkError (SendErrorKind item)))"
  by (rule stream_channels.start_send_inflight [OF assms, of w item]) auto

theorem start_send_appends_witness:
  "\<exists>r w'. stream_start_send record_env [6, 7]
      \<lparr>st_recv_msg = 0, st_control_msg = 1, st_send_data = Some 3, st_id = 4,
       st_peer_addr = SocketAddrV4 1 2, st_local_addr = SocketAddrV4 1 2, st_stream_reset = False\<rparr>
      (sample_world (\<lambda>_. []) (\<lambda>h. [[4]]) 1) = (r, w') \<and>
    inflight_bytes (\<lambda>v. v) (sample_ctx None None) [MSwapSendData 3 2] w' =
      inflight_bytes (\<lambda>v. v) (sample_ctx None None) [MSwapSendData 3 2]
        (sample_world (\<lambda>_. []) (\<lambda>h. [[4]]) 1) @ (if r = Ok SinkReady then [6, 7] else []) \<and>
    (if cv_open (ce_chan (datas (sample_world (\<lambda>_. []) (\<lambda>h. [[4]]) 1) 3))
     then r = Ok SinkReady \<or> r = Ok (SinkNotReady [6, 7])
     else r = Err (case ce_error (datas (sample_world (\<lambda>_. []) (\<lambda>h. [[4]]) 1) 3)
                   of Some f \<Rightarrow> f () | None \<Rightarrow> MkError (SendErrorKind [6, 7])))"
  by (rule start_send_appends [OF rec.stream_channels_axioms])
     (simp_all add: sample_defs recv_chain_def swappable_chain_def)

text \<open>C26.  When the user's side has ended and everything it queued has left, polling resets a
  stream on which nothing was ever sent, wakes a used one once more for its fin bit, and does
  nothing if the fin bit is out or the peer asked to stop.\<close>

theorem poll_ended_stream:
  assumes "stream_channels E mview dview" "ctx_valid c" "sc_send_data c = Some s"
    and "data_ended dview s w" "data_items dview s w = []" "sc_active_buffer c = None"
  shows "\<exists>c' w'. poll_send_data E c w = (Ok (), c', w') \<and> sc_send_data c' = None \<and>
    quic w' =
      (if \<not> sc_data_send c then picoquic_reset_stream E (quic w) (sc_cnx c) (sc_id c) 0
       else if \<not> sc_stop_sending_or_fin_sent c
         then picoquic_mark_active_stream E (quic w) (sc_cnx c) (sc_id c) True
       else quic w) \<and>
    (sc_stop_sending_or_fin_sent c' \<longleftrightarrow> sc_stop_sending_or_fin_sent c \<or> \<not> sc_data_send c)"
  by (rule stream_channels.poll_send_data_ended [OF assms]) blast

theorem poll_ended_stream_witness:
  "\<exists>c' w'. poll_send_data record_env (sample_ctx None None) (sample_world (\<lambda>_. []) (\<lambda>_. []) 0) =
      (Ok (), c', w') \<and> sc_send_data c' = None \<and>
    quic w' =
      (if \<not> sc_data_send (sample_ctx None None) then picoquic_reset_stream record_env
         (quic (sample_world (\<lambda>_. []) (\<lambda>_. []) 0)) (sc_cnx (sample_ctx None None)) (sc_id (sample_ctx None None)) 0
       else if \<not> sc_stop_sending_or_fin_sent (sample_ctx None None)
         then picoquic_mark_active_stream record_env
           (quic (sample_world (\<lambda>_. []) (\<lambda>_. []) 0)) (sc_cnx (sample_ctx None None)) (sc_id (sample_ctx None None)) True
       else quic (sample_world (\<lambda>_. []) (\<lambda>_. []) 0)) \<and>
    (sc_stop_sending_or_fin_sent c' \<longleftrightarrow>
       sc_stop_sending_or_fin_sent (sample_ctx None None) \<or> \<not> sc_data_send (sample_ctx None None))"
  by (rule poll_ended_stream [OF rec.stream_channels_axioms, where s = "\<lparr>active_stream = 2, swap_to = None\<rparr>"])
     (simp_all add: sample_defs ctx_valid_def data_valid_def data_ended_def swap_ended_def
       chan_ended_def view_ended_def data_items_def swap_items_def chan_items_def)

section \<open>Control messages and polling\<close>

text \<open>C20.  The control loop ends and does not panic on the messages a stream handle sends; it
  works them off in order, leaves the channel empty, and when the handle is gone it also gives
  up the receiving direction.\<close>

theorem poll_control_msg_in_order:
  assumes "stream_channels E mview dview"
    and "\<forall>m\<in>set (cv_buffer (mview (msgs w (sc_control_msg c)))). control_message m"
  shows "\<exists>ch c1 w1. mview ch = mview (msgs w (sc_control_msg c))\<lparr>cv_buffer := []\<rparr> \<and>
    fold (control_step E) (cv_buffer (mview (msgs w (sc_control_msg c)))) (c, w) = (c1, w1) \<and>
    poll_control_msg E c w =
      Some (if view_ended (mview (msgs w (sc_control_msg c)))
            then (Ok (Ready ()), recv_message_dropped E c1 (w1\<lparr>msgs := (msgs w)(sc_control_msg c := ch)\<rparr>))
            else (Ok NotReady, c1, w1\<lparr>msgs := (msgs w)(sc_control_msg c := ch)\<rparr>))"
  by (rule stream_channels.poll_control_msg_fold [OF assms]) blast

theorem poll_control_msg_in_order_witness:
  "\<exists>ch c1 w1. ch = (msgs (sample_world (\<lambda>_. [MReset, MSwapSendData 3 2]) (\<lambda>_. []) 1) 1)\<lparr>cv_buffer := []\<rparr> \<and>
    fold (control_step record_env) [MReset, MSwapSendData 3 2]
      (sample_ctx None None, sample_world (\<lambda>_. [MReset, MSwapSendData 3 2]) (\<lambda>_. []) 1) = (c1, w1) \<and>
    poll_control_msg record_env (sample_ctx None None)
        (sample_world (\<lambda>_. [MReset, MSwapSendData 3 2]) (\<lambda>_. []) 1) =
      Some (Ok NotReady, c1, w1\<lparr>msgs :=
        (msgs (sample_world (\<lambda>_. [MReset, MSwapSendData 3 2]) (\<lambda>_. []) 1))(1 := ch)\<rparr>)"
  using poll_control_msg_in_order [OF rec.stream_channels_axioms, of
      "sample_world (\<lambda>_. [MReset, MSwapSendData 3 2]) (\<lambda>_. []) 1" "sample_ctx None None"]
  by (simp add: sample_defs view_ended_def)

text \<open>Exchanging the send channel loses nothing as long as at most one replacement is
  waiting: the bytes in the old channel are sent first, those in the new one follow.\<close>

theorem swap_lossless:
  assumes "stream_channels E mview dview"
    and "cv_buffer (mview (msgs w (sc_control_msg c))) = ms" "\<forall>m\<in>set ms. is_swap m"
    and "sc_send_data c = Some s" "distinct (recv_chain c ms)" "length (recv_chain c ms) \<le> 2"
  shows "\<exists>r c' w'. poll_control_msg E c w = Some (r, c', w') \<and>
    pending_bytes dview c' w' = inflight_bytes dview c ms w"
proof -
  obtain t where t: "recv_chain c ms = active_stream s # t"
    using assms(4) by (simp add: recv_chain_def swappable_chain_def)
  with assms(6) consider "t = []" | h where "t = [h]"
    by (cases t) auto
  then show ?thesis
    using stream_channels.poll_control_msg_swaps [OF assms(1-5)] t
    by cases (fastforce simp: inflight_bytes_def)+
qed

theorem swap_lossless_witness:
  "\<exists>r c' w'. poll_control_msg record_env (sample_ctx None (Some [1]))
      (sample_world (\<lambda>_. [MSwapSendData 3 2]) (\<lambda>h. [[of_nat h]]) 1) = Some (r, c', w') \<and>
    pending_bytes (\<lambda>v. v) c' w' = [1, 2, 3]"
  using swap_lossless [OF rec.stream_channels_axioms, of
      "sample_world (\<lambda>_. [MSwapSendData 3 2]) (\<lambda>h. [[of_nat h]]) 1" "sample_ctx None (Some [1])"
      "[MSwapSendData 3 2]" "\<lparr>active_stream = 2, swap_to = None\<rparr>"]
  by (simp add: sample_defs recv_chain_def swappable_chain_def inflight_bytes_def chan_items_def)

text \<open>C35.  With more than one replacement waiting, only the active channel and the last
  replacement survive: the bytes queued in the channels in between never reach picoquic.\<close>

theorem swap_exact:
  assumes "stream_channels E mview dview"
    and "cv_buffer (mview (msgs w (sc_control_msg c))) = ms" "\<forall>m\<in>set ms. is_swap m"
    and "sc_send_data c = Some s" "recv_chain c ms = first # mid @ [final]"
    and "distinct (recv_chain c ms)"
  shows "\<exists>r c' w'. poll_control_msg E c w = Some (r, c', w') \<and>
    pending_bytes dview c' w' =
      (case sc_active_buffer c of Some buf \<Rightarrow> buf | None \<Rightarrow> []) @
      concat (chan_items dview first (datas w)) @ concat (chan_items dview final (datas w))"
proof -
  from assms(4,5) have "first = active_stream s"
    by (simp add: recv_chain_def swappable_chain_def)
  with assms(5) show ?thesis
    using stream_channels.poll_control_msg_swaps [OF assms(1-4,6)] by fastforce
qed

theorem swap_exact_witness:
  "\<exists>r c' w'. poll_control_msg record_env (sample_ctx None (Some [1]))
      (sample_world (\<lambda>_. [MSwapSendData 3 2, MSwapSendData 4 3]) (\<lambda>h. [[of_nat h]]) 1) =
        Some (r, c', w') \<and>
    pending_bytes (\<lambda>v. v) c' w' = [1, 2, 4]"
  using swap_exact [OF rec.stream_channels_axioms, of
      "sample_world (\<lambda>_. [MSwapSendData 3 2, MSwapSendData 4 3]) (\<lambda>h. [[of_nat h]]) 1"
      "sample_ctx None (Some [1])" "[MSwapSendData 3 2, MSwapSendData 4 3]"
      "\<lparr>active_stream = 2, swap_to = None\<rparr>" 2 "[3]" 4]
  by (simp add: sample_defs recv_chain_def swappable_chain_def chan_items_def)

text \<open>The same through the operations of a stream handle.  The context sends from the
  channel of the handle and no exchange is waiting; the user exchanges the channel, sends an item,
  which is accepted, and exchanges again.  Then the item is on its way behind everything pending;
  but after the context was polled exactly the bytes are pending that were before: the item will
  never be sent.\<close>

theorem double_resize_loses_data:
  assumes "stream_channels E mview dview" "sc_send_data c = Some \<lparr>active_stream = h, swap_to = None\<rparr>"
    and "st_send_data st = Some h" "h < fresh w" "st_control_msg st = sc_control_msg c"
    and "cv_open (mview (msgs w (sc_control_msg c)))" "cv_buffer (mview (msgs w (sc_control_msg c))) = []"
    and "set_send_channel_size E n st w = (st1, w1)" "stream_start_send E item st1 w1 = (Ok SinkReady, w2)"
    and "set_send_channel_size E m st1 w2 = (st2, w3)"
  shows "inflight_bytes dview c (cv_buffer (mview (msgs w3 (sc_control_msg c)))) w3 = pending_bytes dview c w @ item \<and>
    (\<exists>r c' w'. poll_control_msg E c w3 = Some (r, c', w') \<and> pending_bytes dview c' w' = pending_bytes dview c w)"
  using stream_channels.double_resize_lost [OF assms] by blast

definition sample_stream :: stream where
  "sample_stream = \<lparr>st_recv_msg = 0, st_control_msg = 1, st_send_data = Some 2, st_id = 4,
     st_peer_addr = SocketAddrV4 1 2, st_local_addr = SocketAddrV4 1 2, st_stream_reset = False\<rparr>"

definition double_resized :: "(message chan_view, bytes chan_view, quic_call list) world" where
  "double_resized =
     (let (st, w) = set_send_channel_size record_env 5 sample_stream (sample_world (\<lambda>_. []) (\<lambda>_. [[1]]) 1);
          (_, w) = stream_start_send record_env [2] st w
      in snd (set_send_channel_size record_env 5 st w))"

theorem double_resize_loses_data_witness:
  "inflight_bytes (\<lambda>v. v) (sample_ctx None None) [MSwapSendData 10 2, MSwapSendData 11 10] double_resized = [1, 2] \<and>
    (\<exists>r c' w'. poll_control_msg record_env (sample_ctx None None) double_resized = Some (r, c', w') \<and>
      pending_bytes (\<lambda>v. v) c' w' = [1])"
proof -
  let ?w = "sample_world (\<lambda>_. []) (\<lambda>_. [[1]]) 1" and ?c = "sample_ctx None None"
  obtain st1 w1 where 1: "set_send_channel_size record_env 5 sample_stream ?w = (st1, w1)" by fastforce
  obtain r w2 where 2: "stream_start_send record_env [2] st1 w1 = (r, w2)" by fastforce
  obtain st2 w3 where 3: "set_send_channel_size record_env 5 st1 w2 = (st2, w3)" by fastforce
  have w3: "w3 = double_resized" using 1 2 3 by (simp add: double_resized_def)
  have "fst (stream_start_send record_env [2] (fst (set_send_channel_size record_env 5 sample_stream ?w))
      (snd (set_send_channel_size record_env 5 sample_stream ?w))) = Ok SinkReady" by code_simp
  then have "r = Ok SinkReady" using 1 2 by simp
  moreover have "cv_buffer (msgs double_resized 1) = [MSwapSendData 10 2, MSwapSendData 11 10]" by code_simp
  moreover have "pending_bytes (\<lambda>v. v) ?c ?w = [1]"
    by (simp add: sample_defs pending_bytes_def data_items_def swap_items_def chan_items_def)
  ultimately show ?thesis
    using double_resize_loses_data [OF rec.stream_channels_axioms, of ?c 2 sample_stream ?w 5 st1 w1 "[2]" w2 5 st2 w3] 1 2 3 w3
    by (simp add: sample_defs sample_stream_def)
qed

end
