(* ===== verification/Stream_World.thy ===== *)
theory Stream_World
  imports Stream_User "HOL-Library.Sublist"
begin

text \<open>
  What each operation of \<^verbatim>\<open>src/stream.rs\<close> does to the world besides the stream
  it serves: which channels it touches, which messages it adds and which handles it makes.
\<close>

section \<open>Queues and chains\<close>

definition queue where
  "queue mview ct w = cv_buffer (mview (msgs w ct))"

lemma queue_upd [simp]:
  "queue mview h (w\<lparr>msgs := X\<rparr>) = cv_buffer (mview (X h))" "queue mview h (w\<lparr>datas := D\<rparr>) = queue mview h w"
  "queue mview h (w\<lparr>quic := q\<rparr>) = queue mview h w" "queue mview h (w\<lparr>fresh := n\<rparr>) = queue mview h w"
  by (simp_all add: queue_def)

lemma fresh_drops [simp]:
  "fresh (data_drop_tx E h w) = fresh w" "fresh (data_drop_rx E h w) = fresh w"
  "fresh (snd (close_send_data E c w)) = fresh w"
  by (simp_all add: data_drop_tx_def data_drop_rx_def close_send_data_def data_drop_swappable_def Let_def
      split: option.split)

lemma swap_follows_recv_chain:
  assumes "rel_option swap_follows (sc_send_data c) (sc_send_data c')"
  shows "suffix (recv_chain c' ms) (recv_chain c ms)"
  using assms
  by (cases "sc_send_data c"; cases "sc_send_data c'")
     (auto simp: recv_chain_def swap_follows_def swappable_chain_def suffix_def)

section \<open>Operations\<close>

context stream_channels
begin

lemma control_step_handles:
  assumes "control_step E m (c, w) = (c', w')"
  shows "sc_recv_msg c' = sc_recv_msg c" "sc_control_msg c' = sc_control_msg c" "fresh w' = fresh w"
    "msgs w' = msgs w"
  using assms
  by (cases m; auto simp: context_reset_eq set_swap_to_def data_drop_rx_def data_drop_tx_def
      split: option.splits)+

lemma fold_drop_messages: "\<forall>m\<in>set ms. \<not> is_swap m \<Longrightarrow> fold (drop_message E) ms w = w"
  by (induction ms) (simp_all add: drop_message_other)

lemma stream_drop_world:
  assumes "\<forall>m\<in>set (cv_buffer (mview (msgs w (st_recv_msg st)))). \<not> is_swap m" "st_recv_msg st \<noteq> st_control_msg st"
  obtains ch1 ch2 where
    "stream_drop E st w = (let w' = w\<lparr>msgs := (msgs w)(st_recv_msg st := ch1, st_control_msg st := ch2)\<rparr>
       in case st_send_data st of Some h \<Rightarrow> data_drop_tx E h w' | None \<Rightarrow> w')"
    "cv_buffer (mview ch1) = []"
    "mview ch2 = mview (msgs w (st_control_msg st))\<lparr>cv_senders := cv_senders (mview (msgs w (st_control_msg st))) - 1\<rparr>"
proof -
  let ?r = "mpsc_drop_rx (msg_ops E) (msgs w (st_recv_msg st))"
  have "msg_drop_rx E (st_recv_msg st) w = w\<lparr>msgs := (msgs w)(st_recv_msg st := snd ?r)\<rparr>"
    using assms(1) by (simp add: msg_drop_rx_def split_beta mch.drop_rx_fst fold_drop_messages)
  then show ?thesis
    using assms(2)
    by (intro that [of "snd ?r" "mpsc_drop_tx (msg_ops E) (msgs w (st_control_msg st))"])
       (simp_all add: stream_drop_def msg_drop_tx_def Let_def mch.drop_rx_snd mch.view_of_drop_tx
          split: option.split)
qed

lemma user_poll_world:
  assumes "\<forall>m\<in>set (cv_buffer (mview (msgs w (st_recv_msg st)))). \<not> is_swap m"
  obtains r st' ch where "stream_poll E st w = Some (r, st', w\<lparr>msgs := (msgs w)(st_recv_msg st := ch)\<rparr>)"
    "set (cv_buffer (mview ch)) \<subseteq> set (cv_buffer (mview (msgs w (st_recv_msg st))))"
    "st_recv_msg st' = st_recv_msg st" "st_control_msg st' = st_control_msg st" "st_send_data st' = st_send_data st"
proof -
  obtain ch where p: "msg_poll E (st_recv_msg st) w =
      (fst (view_poll (mview (msgs w (st_recv_msg st)))), w\<lparr>msgs := (msgs w)(st_recv_msg st := ch)\<rparr>)"
    "mview ch = snd (view_poll (mview (msgs w (st_recv_msg st))))"
    by (rule msg_poll_cases)
  show ?thesis
  proof (cases "cv_buffer (mview (msgs w (st_recv_msg st)))")
    case Nil
    with p show ?thesis
      by (intro that [of "fst (the (stream_poll E st w))" st ch])
         (auto simp: stream_poll_def view_poll_def)
  next
    case (Cons m ms)
    with assms have "\<not> is_swap m" by simp
    with Cons p show ?thesis
      by (intro that [of "fst (the (stream_poll E st w))" "if m = MReset then st\<lparr>st_stream_reset := True\<rparr> else st" ch])
         (auto simp: stream_poll_def view_poll_def split: message.split)
  qed
qed

text \<open>A control message that is sent changes at most the control channel; a refused exchange drops
  its two channels.\<close>

lemma msg_send_world:
  obtains ch b D where "msg_send E h m w = (b, w\<lparr>msgs := (msgs w)(h := ch), datas := D\<rparr>)"
    "cv_open (mview ch) = cv_open (mview (msgs w h))"
    "cv_buffer (mview ch) = cv_buffer (mview (msgs w h)) @ (if b then [m] else [])"
    "b = cv_open (mview (msgs w h))" "\<not> is_swap m \<Longrightarrow> D = datas w"
proof (cases "cv_open (mview (msgs w h))")
  case True
  then obtain ch where "msg_send E h m w = (True, w\<lparr>msgs := (msgs w)(h := ch)\<rparr>)"
    "mview ch = mview (msgs w h)\<lparr>cv_buffer := cv_buffer (mview (msgs w h)) @ [m]\<rparr>"
    by (rule msg_send_open)
  with True show ?thesis by (intro that [of True "datas w" ch]) simp_all
next
  case False
  then obtain ch where s: "msg_send E h m w = (False, drop_message E m (w\<lparr>msgs := (msgs w)(h := ch)\<rparr>))"
    "mview ch = mview (msgs w h)"
    by (rule msg_send_closed)
  have "drop_message E m v = v\<lparr>datas := datas (drop_message E m v)\<rparr>" for v :: "('m, 'd, 'q, 'w) sworld"
    by (cases m) (simp_all add: data_drop_rx_def data_drop_tx_def)
  from this [of "w\<lparr>msgs := (msgs w)(h := ch)\<rparr>"]
  have d: "drop_message E m (w\<lparr>msgs := (msgs w)(h := ch)\<rparr>) =
      w\<lparr>msgs := (msgs w)(h := ch), datas := datas (drop_message E m (w\<lparr>msgs := (msgs w)(h := ch)\<rparr>))\<rparr>" by simp
  show ?thesis
    by (rule that [of False "datas (drop_message E m (w\<lparr>msgs := (msgs w)(h := ch)\<rparr>))" ch])
       (use False s d in \<open>simp_all add: drop_message_other\<close>)
qed

lemma resize_world:
  assumes "set_send_channel_size E sz st w = (st', w')"
  obtains ch where "msgs w' = (msgs w)(st_control_msg st := ch)"
    "cv_open (mview ch) = cv_open (mview (msgs w (st_control_msg st)))"
    "\<forall>m\<in>set (cv_buffer (mview ch)). m \<in> set (cv_buffer (mview (msgs w (st_control_msg st)))) \<or> control_message m"
    "quic w' = quic w" "st_recv_msg st' = st_recv_msg st" "st_control_msg st' = st_control_msg st"
    "st_send_data st = None \<longrightarrow> st_send_data st' = None"
proof (cases "st_send_data st")
  case None
  with assms have "st' = st" "w' = w" by (simp_all add: set_send_channel_size_def)
  then show ?thesis by (intro that [of "msgs w (st_control_msg st)"]) simp_all
next
  case (Some old)
  let ?w = "w\<lparr>datas := (datas w)(fresh w := channel (data_ops E) sz), fresh := Suc (fresh w)\<rparr>"
  let ?m = "MSwapSendData (fresh w) old"
  obtain ch b D where m: "msg_send E (st_control_msg st) ?m ?w =
      (b, ?w\<lparr>msgs := (msgs ?w)(st_control_msg st := ch), datas := D\<rparr>)"
    "cv_open (mview ch) = cv_open (mview (msgs ?w (st_control_msg st)))"
    "cv_buffer (mview ch) = cv_buffer (mview (msgs ?w (st_control_msg st))) @ (if b then [?m] else [])"
    by (rule msg_send_world [where h = "st_control_msg st" and m = ?m and w = ?w]) blast
  with Some assms show ?thesis
    by (intro that [of ch]) (auto simp: set_send_channel_size_def new_data_chan_def)
qed

lemma drop_message_keeps [simp]:
  "msgs (drop_message E m w) = msgs w" "quic (drop_message E m w) = quic w"
  by (cases m; simp add: data_drop_tx_def data_drop_rx_def)+

lemma drop_messages_keeps [simp]:
  "msgs (fold (drop_message E) ms w) = msgs w" "quic (fold (drop_message E) ms w) = quic w"
  by (induction ms arbitrary: w) simp_all

lemma context_new_world:
  assumes "mview (msgs w ct) = view_new None"
    and "\<And>h. d = Some h \<Longrightarrow> dview (ce_chan (datas w h)) = view_new (Some sz)"
    and "context_new E rx ct d sid cnx ic w = (c, w')"
  shows "mview (msgs w' ct) = view_new None" "\<And>h. h \<noteq> ct \<Longrightarrow> msgs w' h = msgs w h"
    "\<And>h. d = Some h \<Longrightarrow> dview (ce_chan (datas w' h)) = view_new (Some sz)"
    "fresh w' = fresh w" "quic w' = quic w"
    "sc_recv_msg c = rx" "sc_control_msg c = ct" "sc_send_data c = map_option swappable_new d"
    "sc_active_buffer c = None"
proof -
  obtain ch where "msg_poll E ct w = (Ok NotReady, w\<lparr>msgs := (msgs w)(ct := ch)\<rparr>)" "mview ch = view_new None"
  proof (rule msg_poll_cases [of ct w])
    fix ch assume "msg_poll E ct w = (fst (view_poll (mview (msgs w ct))), w\<lparr>msgs := (msgs w)(ct := ch)\<rparr>)"
      "mview ch = snd (view_poll (mview (msgs w ct)))"
    with assms(1) show ?thesis by (intro that [of ch]) (simp_all add: view_poll_def view_new_def view_ended_def)
  qed
  with assms(3) show "mview (msgs w' ct) = view_new None" "\<And>h. h \<noteq> ct \<Longrightarrow> msgs w' h = msgs w h"
    "fresh w' = fresh w" "quic w' = quic w"
    "sc_recv_msg c = rx" "sc_control_msg c = ct" "sc_send_data c = map_option swappable_new d"
    "sc_active_buffer c = None"
    and "\<And>h. d = Some h \<Longrightarrow> dview (ce_chan (datas w' h)) = view_new (Some sz)"
    using assms(2)
    by (cases d; auto simp: context_new_def Let_def rx_poll_def split_beta dch.receiver_poll_snd view_poll_def
        view_new_def view_ended_def; fail)+
qed

lemma stream_new_world:
  assumes "stream_new E sid cnx la ic sz w = Some (st, c, w')"
  shows "st_recv_msg st = fresh w" "st_control_msg st = Suc (fresh w)"
    "sc_recv_msg c = fresh w" "sc_control_msg c = Suc (fresh w)"
    "mview (msgs w' (fresh w)) = view_new None" "mview (msgs w' (Suc (fresh w))) = view_new None"
    "quic w' = quic w" "sc_active_buffer c = None" "sc_send_data c = map_option swappable_new (st_send_data st)"
    "\<And>h. st_send_data st = Some h \<Longrightarrow> h < fresh w' \<and> dview (ce_chan (datas w' h)) = view_new (Some sz)"
    "\<And>h. h \<noteq> fresh w \<Longrightarrow> h \<noteq> Suc (fresh w) \<Longrightarrow> msgs w' h = msgs w h" "Suc (fresh w) < fresh w'"
proof -
  let ?w1 = "snd (new_msg_chan E w)"
  let ?w2 = "snd (new_msg_chan E ?w1)"
  obtain d w3 where d: "create_send_and_recv_data E sid ic sz ?w2 = ((d, d), w3)"
    by (cases "is_unidirectional sid \<and> \<not> is_unidirectional_send_allowed sid ic")
       (simp_all add: create_send_and_recv_data_def split_beta)
  have w3: "msgs w3 = msgs ?w2" "quic w3 = quic w"
    "\<And>h. d = Some h \<Longrightarrow> h < fresh w3 \<and> dview (ce_chan (datas w3 h)) = view_new (Some sz)"
    "Suc (fresh w) < fresh w3"
    using d by (auto simp: create_send_and_recv_data_def new_data_chan_def new_msg_chan_def dch.channel_view split: if_splits)
  obtain c4 w4 where c4: "context_new E (fresh w) (Suc (fresh w)) d sid cnx ic w3 = (c4, w4)" by fastforce
  have "mview (msgs w3 (Suc (fresh w))) = view_new None" by (simp add: w3 new_msg_chan_def mch.view_of_new)
  note n = context_new_world [OF this _ c4, where sz = sz]
  have "stream_new E sid cnx la ic sz w = do {
      pa \<leftarrow> cnx_peer_addr E (quic w4) cnx;
      Some (\<lparr>st_recv_msg = fresh w, st_control_msg = Suc (fresh w), st_send_data = d, st_id = sid,
        st_peer_addr = pa, st_local_addr = la, st_stream_reset = False\<rparr>, c4, w4)}"
    using d c4 by (simp add: stream_new_def new_msg_chan_def)
  with assms obtain pa where e: "c = c4" "w' = w4" "st = \<lparr>st_recv_msg = fresh w, st_control_msg = Suc (fresh w),
      st_send_data = d, st_id = sid, st_peer_addr = pa, st_local_addr = la, st_stream_reset = False\<rparr>"
    by (auto simp: bind_eq_Some_conv)
  show "st_recv_msg st = fresh w" "st_control_msg st = Suc (fresh w)"
    "sc_recv_msg c = fresh w" "sc_control_msg c = Suc (fresh w)"
    "mview (msgs w' (fresh w)) = view_new None" "mview (msgs w' (Suc (fresh w))) = view_new None"
    "quic w' = quic w" "sc_active_buffer c = None" "sc_send_data c = map_option swappable_new (st_send_data st)"
    "\<And>h. st_send_data st = Some h \<Longrightarrow> h < fresh w' \<and> dview (ce_chan (datas w' h)) = view_new (Some sz)"
    "\<And>h. h \<noteq> fresh w \<Longrightarrow> h \<noteq> Suc (fresh w) \<Longrightarrow> msgs w' h = msgs w h" "Suc (fresh w) < fresh w'"
    unfolding e using n w3 by (simp_all add: new_msg_chan_def mch.view_of_new)
qed

end

end
