(* ===== verification/Stream_Pipe.thy ===== *)
theory Stream_Pipe
  imports Stream_World
begin

text \<open>
  The invariant that ties the two ends of a sending stream together: which channels the
  context is going to read, who holds their senders, and where every byte is that the sink has
  accepted.  Each operation of \<^verbatim>\<open>src/stream.rs\<close> that touches the sending direction
  has one preservation lemma.
\<close>

section \<open>The invariant\<close>

text \<open>The senders that the waiting control messages keep alive.\<close>

fun swap_senders :: "message list \<Rightarrow> nat list" where
  "swap_senders [] = []"
| "swap_senders (MSwapSendData rx tx # ms) = tx # swap_senders ms"
| "swap_senders (_ # ms) = swap_senders ms"

lemma swap_senders_append [simp]: "swap_senders (ms @ ns) = swap_senders ms @ swap_senders ns"
  by (induction ms rule: swap_senders.induct) auto

lemma swap_other [simp]:
  "\<not> is_swap m \<Longrightarrow> swap_senders (m # ms) = swap_senders ms"
  "\<not> is_swap m \<Longrightarrow> swap_receivers (m # ms) = swap_receivers ms"
  by (cases m; simp)+

definition has_sender where
  "has_sender dview D h \<longleftrightarrow> cv_senders (dview (ce_chan (D h))) = 1"

definition accepts where
  "accepts dview D h \<longleftrightarrow> cv_open (dview (ce_chan (D h)))"

text \<open>The receivers whose senders are still held: the last one of the context and those that are
  waiting.  The sender of each is in the message that exchanges it, and the sender of the last one
  is the user's, \<open>u\<close>, unless the user is gone.\<close>

definition live_chain :: "nat swappable \<Rightarrow> message list \<Rightarrow> nat list" where
  "live_chain s ms = last (swappable_chain s) # swap_receivers ms"

definition held_inv where
  "held_inv dview u s ms D \<longleftrightarrow>
     (case u of Some h \<Rightarrow> swap_senders ms @ [h] = live_chain s ms
              | None \<Rightarrow> swap_senders ms = butlast (live_chain s ms)) \<and>
     (\<forall>h \<in> set (swap_senders ms) \<union> set_option u. has_sender dview D h) \<and>
     (\<forall>h \<in> set (live_chain s ms). accepts dview D h) \<and>
     (u = None \<longrightarrow> cv_senders (dview (ce_chan (D (last (live_chain s ms))))) = 0)"

text \<open>With \<open>careful\<close>, at most one replacement is waiting at any time.\<close>

definition send_inv where
  "send_inv careful dview u c ms w \<longleftrightarrow>
     distinct (recv_chain c ms) \<and> (\<forall>h \<in> set (recv_chain c ms). h < fresh w) \<and>
     (careful \<longrightarrow> length (recv_chain c ms) \<le> 2) \<and>
     (\<forall>s. sc_send_data c = Some s \<longrightarrow> held_inv dview u s ms (datas w)) \<and> ctx_prompt dview c w"

text \<open>Where the accepted bytes are: \<open>out\<close> has left for picoquic; unless sending was stopped,
  the rest is in the active buffer and in the channels, in this order.\<close>

abbreviation active_bytes :: "stream_ctx \<Rightarrow> bytes" where
  "active_bytes c \<equiv> (case sc_active_buffer c of Some buf \<Rightarrow> buf | None \<Rightarrow> [])"

definition byte_inv where
  "byte_inv dview stopped (u :: nat option) c ms w out acc \<longleftrightarrow>
     prefix (out @ active_bytes c) acc \<and>
     (sc_send_data c \<noteq> None \<longrightarrow> acc = out @ inflight_bytes dview c ms w) \<and>
     (sc_send_data c = None \<and> \<not> stopped \<longrightarrow> acc = out @ active_bytes c \<and> u = None)"

section \<open>Frames\<close>

lemma last_in_chain: "last (swappable_chain s) \<in> set (swappable_chain s)"
  by (simp add: swappable_chain_def split: option.split)

lemma live_chain_subset:
  "sc_send_data c = Some s \<Longrightarrow> set (live_chain s ms) \<subseteq> set (recv_chain c ms)"
  using last_in_chain [of s] by (auto simp: live_chain_def recv_chain_def)

lemma held_subset:
  "held_inv dview u s ms D \<Longrightarrow> set (swap_senders ms) \<union> set_option u \<subseteq> set (live_chain s ms)"
proof (cases u)
  case None
  assume "held_inv dview u s ms D"
  with None have "swap_senders ms = butlast (live_chain s ms)" by (simp add: held_inv_def)
  with None show ?thesis by (auto dest: in_set_butlastD)
next
  case (Some h)
  assume "held_inv dview u s ms D"
  with Some have "swap_senders ms @ [h] = live_chain s ms" by (simp add: held_inv_def)
  then have "set (swap_senders ms @ [h]) = set (live_chain s ms)" by simp
  with Some show ?thesis by auto
qed

lemma held_inv_cong:
  assumes "held_inv dview u s ms D" "\<And>h. h \<in> set (live_chain s ms) \<Longrightarrow> same_ends dview D D' h"
  shows "held_inv dview u s ms D'"
proof -
  have "last (live_chain s ms) \<in> set (live_chain s ms)" by (simp add: live_chain_def)
  with assms(1) held_subset [OF assms(1)] assms(2) show ?thesis
    unfolding held_inv_def has_sender_def accepts_def same_ends_def by (auto 0 3)
qed

lemma send_inv_cong:
  assumes "send_inv careful dview u c ms w" "sc_send_data c' = sc_send_data c" "fresh w \<le> fresh w'"
    and "\<And>h. h \<in> set (recv_chain c ms) \<Longrightarrow> same_ends dview (datas w) (datas w') h"
  shows "send_inv careful dview u c' ms w'"
proof -
  have "recv_chain c' ms = recv_chain c ms" using assms(2) by (simp add: recv_chain_def)
  moreover have "held_inv dview u s ms (datas w')" if "sc_send_data c = Some s" for s
    using assms(1,4) that live_chain_subset [OF that, of ms]
    by (auto simp: send_inv_def intro!: held_inv_cong [of dview u s ms "datas w"])
  moreover have "data_prompt dview s w'" if s: "sc_send_data c = Some s" for s
  proof -
    from s have "active_stream s \<in> set (recv_chain c ms)" by (simp add: recv_chain_def swappable_chain_def)
    from assms(4) [OF this] assms(1) s show ?thesis
      by (auto simp: send_inv_def ctx_prompt_def data_prompt_def chan_ended_def view_ended_def same_ends_def)
  qed
  ultimately show ?thesis using assms(1,2,3) by (fastforce simp: send_inv_def ctx_prompt_def)
qed

lemma inflight_cong:
  assumes "sc_active_buffer c' = sc_active_buffer c" "sc_send_data c' = sc_send_data c"
    and "\<And>h. h \<in> set (recv_chain c ms) \<Longrightarrow> chan_items dview h (datas w') = chan_items dview h (datas w)"
  shows "inflight_bytes dview c' ms w' = inflight_bytes dview c ms w"
proof -
  have "recv_chain c' ms = recv_chain c ms" using assms(2) by (simp add: recv_chain_def)
  moreover have "map (\<lambda>h. chan_items dview h (datas w')) (recv_chain c ms) =
      map (\<lambda>h. chan_items dview h (datas w)) (recv_chain c ms)"
    by (rule map_cong [OF refl]) (rule assms(3))
  ultimately show ?thesis using assms(1) by (simp add: inflight_bytes_def del: map_eq_conv)
qed

lemma byte_inv_cong:
  assumes "byte_inv dview stopped u c ms w out acc"
    and "sc_active_buffer c' = sc_active_buffer c" "sc_send_data c' = sc_send_data c"
    and "\<And>h. h \<in> set (recv_chain c ms) \<Longrightarrow> chan_items dview h (datas w') = chan_items dview h (datas w)"
    and "stopped \<Longrightarrow> stopped'"
  shows "byte_inv dview stopped' u c' ms w' out acc"
  using assms inflight_cong [OF assms(2-4)] by (auto simp: byte_inv_def)

text \<open>The bytes in flight, split at the channels the context holds already.\<close>

lemma inflight_split:
  "inflight_bytes dview c ms w =
     pending_bytes dview c w @ concat (concat (map (\<lambda>h. chan_items dview h (datas w)) (swap_receivers ms)))"
  by (simp add: pending_bytes_inflight inflight_bytes_def recv_chain_def)

lemma active_prefix [simp]: "prefix (active_bytes c) (inflight_bytes dview c ms w)"
  by (simp add: inflight_bytes_def)

section \<open>Polls of the receivers\<close>

text \<open>When the user is gone and no exchange is waiting, the receivers have ended.\<close>

lemma send_inv_ended:
  assumes "send_inv careful dview None c [] w"
  shows "send_ended dview c w"
  using assms
  by (auto simp: send_inv_def held_inv_def live_chain_def send_ended_def data_ended_def swap_ended_def ctx_prompt_def
      data_prompt_def chan_ended_def view_ended_def swappable_chain_def split: option.split)

text \<open>A receiver that has ended: nobody holds a sender any more.\<close>

lemma ended_alone:
  assumes "held_inv dview u s ms (datas w)" "data_ended dview s w"
  shows "u = None \<and> swap_receivers ms = []"
proof -
  let ?h = "last (swappable_chain s)"
  from assms(2) have "view_ended (dview (ce_chan (datas w ?h)))"
    by (auto simp: data_ended_def swap_ended_def chan_ended_def swappable_chain_def split: option.splits)
  moreover from assms(1) have "accepts dview (datas w) ?h" by (simp add: held_inv_def live_chain_def)
  ultimately have "\<not> has_sender dview (datas w) ?h"
    by (simp add: has_sender_def accepts_def view_ended_def)
  with assms(1) have "?h \<notin> set (swap_senders ms) \<union> set_option u"
    unfolding held_inv_def by blast
  with assms(1) show ?thesis
    by (cases u; cases "swap_senders ms"; cases "swap_receivers ms")
       (auto simp: held_inv_def live_chain_def split: if_splits)
qed

lemma swap_follows_live: "swap_follows s s' \<Longrightarrow> live_chain s' ms = live_chain s ms"
  by (auto simp: swap_follows_def live_chain_def swappable_chain_def)

lemma send_inv_polled:
  assumes inv: "send_inv careful dview u c ms w"
    and rel: "rel_option (\<lambda>s s'. polled dview s w s' w1) (sc_send_data c) (sc_send_data c')"
    and w': "datas w' = datas w1" "fresh w \<le> fresh w'"
  shows "send_inv careful dview u c' ms w'"
proof -
  from rel have "rel_option swap_follows (sc_send_data c) (sc_send_data c')"
    by (rule option.rel_mono_strong) (auto simp: polled_def)
  from swap_follows_recv_chain [OF this, of ms] obtain pre where
    chain: "recv_chain c ms = pre @ recv_chain c' ms" by (auto simp: suffix_def)
  have held: "held_inv dview u s' ms (datas w')" if s': "sc_send_data c' = Some s'" for s'
  proof -
    from rel s' obtain s where s: "sc_send_data c = Some s" and p: "polled dview s w s' w1"
      by (auto simp: option_rel_Some2)
    have live: "live_chain s' ms = live_chain s ms"
      by (rule swap_follows_live) (use p in \<open>simp add: polled_def\<close>)
    have "same_ends dview (datas w) (datas w1) h" if "h \<in> set (live_chain s' ms)" for h
    proof (cases "h \<in> set (swappable_chain s')")
      case True
      with p show ?thesis by (simp add: polled_def)
    next
      case False
      with that last_in_chain [of s'] have "h \<in> set (swap_receivers ms)" by (auto simp: live_chain_def)
      with inv s have "h \<notin> set (swappable_chain s)" by (auto simp: send_inv_def recv_chain_def)
      with p show ?thesis by (simp add: polled_def same_ends_def)
    qed
    moreover from inv s have "held_inv dview u s ms (datas w)" by (simp add: send_inv_def)
    then have "held_inv dview u s' ms (datas w)" unfolding held_inv_def live .
    ultimately show ?thesis unfolding w' by (rule held_inv_cong [rotated])
  qed
  have prompt: "ctx_prompt dview c' w'"
  proof -
    have "data_prompt dview s' w1" if s': "sc_send_data c' = Some s'" for s'
    proof -
      from rel s' obtain s where s: "sc_send_data c = Some s" and p: "polled dview s w s' w1"
        by (auto simp: option_rel_Some2)
      from inv s have "data_prompt dview s w" by (simp add: send_inv_def ctx_prompt_def)
      with p show ?thesis by (rule polled_prompt)
    qed
    then show ?thesis by (simp add: ctx_prompt_def data_prompt_def w'(1))
  qed
  have "distinct (recv_chain c' ms)" "\<forall>h\<in>set (recv_chain c' ms). h < fresh w'"
    "careful \<longrightarrow> length (recv_chain c' ms) \<le> 2"
    using inv w'(2) unfolding send_inv_def chain by (auto intro: less_le_trans)
  with held prompt show ?thesis unfolding send_inv_def by blast
qed

text \<open>The channels that wait in control messages are untouched by such polls.\<close>

lemma polled_waiting:
  assumes "send_inv careful dview u c ms w" "sc_send_data c = Some s" "polled dview s w s' w1"
    and "h \<in> set (swap_receivers ms)"
  shows "datas w1 h = datas w h"
  using assms by (auto simp: send_inv_def recv_chain_def polled_def)

lemma byte_inv_polled:
  assumes b: "byte_inv dview stopped u c ms w out acc" and inv: "send_inv careful dview u c ms w"
    and rel: "rel_option (\<lambda>s s'. polled dview s w s' w1) (sc_send_data c) (sc_send_data c')"
    and w': "datas w' = datas w1" and pend: "pending_bytes dview c w = sent @ pending_bytes dview c' w'"
  shows "byte_inv dview stopped u c' ms w' (out @ sent) acc"
proof (cases "sc_send_data c")
  case None
  with rel have "sc_send_data c' = None" by simp
  with None b pend show ?thesis by (auto simp: byte_inv_def pending_bytes_def)
next
  case (Some s)
  with rel obtain s' where s': "sc_send_data c' = Some s'" "polled dview s w s' w1"
    by (auto simp: option_rel_Some1)
  have "map (\<lambda>h. chan_items dview h (datas w')) (swap_receivers ms) =
      map (\<lambda>h. chan_items dview h (datas w)) (swap_receivers ms)"
    by (rule map_cong [OF refl])
       (use polled_waiting [OF inv Some s'(2)] w' in \<open>simp add: chan_items_def\<close>)
  with pend have "inflight_bytes dview c ms w = sent @ inflight_bytes dview c' ms w'"
    by (simp add: inflight_split del: map_eq_conv)
  with b Some s' have acc: "acc = (out @ sent) @ inflight_bytes dview c' ms w'" by (simp add: byte_inv_def)
  with s' show ?thesis by (auto simp: byte_inv_def inflight_bytes_def)
qed

section \<open>What picoquic has been given\<close>

text \<open>Seen from outside, picoquic has been given some bytes of this stream and perhaps its end:
  what is written into a buffer that it provided is appended, and the other calls add nothing.\<close>

locale stream_output = stream_channels E mview dview
  for E :: "('m, 'd, 'q, 'e) senv"
    and mview :: "'m \<Rightarrow> message chan_view"
    and dview :: "'d \<Rightarrow> bytes chan_view" +
  fixes out :: "'q \<Rightarrow> bytes" and fin_out :: "'q \<Rightarrow> bool"
  assumes memory: "c_memory E"
    and out_provide:
      "picoquic_provide_stream_data_buffer E q ctx (length bs) fin act = (dest, q') \<Longrightarrow>
       out (c_write E q' dest bs) = out q @ bs \<and> (fin_out (c_write E q' dest bs) \<longleftrightarrow> fin_out q \<or> fin)"
    and out_reset: "out (picoquic_reset_stream E q cnx sid e) = out q"
      "fin_out (picoquic_reset_stream E q cnx sid e) = fin_out q"
    and out_stop: "out (picoquic_stop_sending E q cnx sid e) = out q"
      "fin_out (picoquic_stop_sending E q cnx sid e) = fin_out q"
    and out_mark: "out (picoquic_mark_active_stream E q cnx sid a) = out q"
      "fin_out (picoquic_mark_active_stream E q cnx sid a) = fin_out q"
begin

lemmas out_calls [simp] = out_reset out_stop out_mark

definition silent :: "'q \<Rightarrow> 'q \<Rightarrow> bool" where
  "silent q q' \<longleftrightarrow> out q' = out q \<and> fin_out q' = fin_out q"

lemma handle_send_data_pipe:
  assumes inv: "send_inv careful dview u c ms w"
  obtains c' w' sent fin where
    "handle_send_data E ctx n c w = Some (c', w')" "send_inv careful dview u c' ms w'"
    "out (quic w') = out (quic w) @ sent" "fin_out (quic w') \<longleftrightarrow> fin_out (quic w) \<or> fin"
    "\<And>stopped o1 acc. byte_inv dview stopped u c ms w o1 acc \<Longrightarrow>
       byte_inv dview stopped u c' ms w' (o1 @ sent) acc \<and> (fin \<longrightarrow> stopped \<or> u = None \<and> acc = o1 @ sent)"
    "msgs w' = msgs w" "fresh w' = fresh w" "sc_recv_msg c' = sc_recv_msg c" "sc_control_msg c' = sc_control_msg c"
    "sent = take n (pending_bytes dview c w)" "fin \<longleftrightarrow> send_ended dview c w \<and> length (pending_bytes dview c w) \<le> n"
proof -
  have "ctx_valid c" using inv by (auto simp: send_inv_def intro: ctx_valid_chain)
  then obtain c' w' fin sent D where run: "handle_send_data E ctx n c w = Some (c', w')"
    and pend: "pending_bytes dview c w = sent @ pending_bytes dview c' w'"
    and w': "w' = w\<lparr>datas := D,
       quic := (case picoquic_provide_stream_data_buffer E (quic w) ctx (length sent) fin
                  (sc_active_buffer c' \<noteq> None)
                of (dest, q) \<Rightarrow> c_write E q dest sent)\<rparr>"
    and fin: "fin \<longleftrightarrow> send_ended dview c w \<and> pending_bytes dview c' w' = []"
    and c': "\<exists>sd. c' = c\<lparr>sc_send_data := sd, sc_active_buffer := sc_active_buffer c',
       sc_stop_sending_or_fin_sent := fin,
       sc_data_send := (sc_data_send c \<or> sent \<noteq> [] \<or> sc_active_buffer c' \<noteq> None)\<rparr>"
    and rel: "rel_option (\<lambda>s s'. polled dview s w s' (w\<lparr>datas := D\<rparr>)) (sc_send_data c) (sc_send_data c')"
    and all: "ctx_prompt dview c w \<Longrightarrow> sent = take n (pending_bytes dview c w)"
    by (rule handle_send_data_total [OF _ memory, of c ctx n w]) blast
  have frame: "msgs w' = msgs w" "fresh w' = fresh w" "datas w' = datas (w\<lparr>datas := D\<rparr>)"
    by (simp_all add: w')
  have inv': "send_inv careful dview u c' ms w'"
    using send_inv_polled [OF inv rel frame(3)] frame(2) by simp
  have bytes: "byte_inv dview stopped u c' ms w' (o1 @ sent) acc \<and> (fin \<longrightarrow> stopped \<or> u = None \<and> acc = o1 @ sent)"
    if b: "byte_inv dview stopped u c ms w o1 acc" for stopped o1 acc
  proof -
    from byte_inv_polled [OF b inv rel frame(3) pend]
    have b': "byte_inv dview stopped u c' ms w' (o1 @ sent) acc" .
    moreover have "stopped \<or> u = None \<and> acc = o1 @ sent" if fin
    proof (cases "sc_send_data c")
      case None
      with rel have "sc_send_data c' = None" by simp
      with None b b' \<open>fin\<close> fin show ?thesis by (auto simp: byte_inv_def pending_bytes_def)
    next
      case (Some s)
      with rel obtain s' where s': "sc_send_data c' = Some s'" by (auto simp: option_rel_Some1)
      from Some \<open>fin\<close> fin inv have "u = None \<and> swap_receivers ms = []"
        by (intro ended_alone [of dview u s ms w]) (simp_all add: send_inv_def send_ended_def)
      with b' s' \<open>fin\<close> fin show ?thesis by (simp add: byte_inv_def inflight_split)
    qed
    ultimately show ?thesis by blast
  qed
  obtain dest q where p: "picoquic_provide_stream_data_buffer E (quic w) ctx (length sent) fin
      (sc_active_buffer c' \<noteq> None) = (dest, q)" by fastforce
  from c' obtain sd where e: "c' = c\<lparr>sc_send_data := sd, sc_active_buffer := sc_active_buffer c',
       sc_stop_sending_or_fin_sent := fin,
       sc_data_send := (sc_data_send c \<or> sent \<noteq> [] \<or> sc_active_buffer c' \<noteq> None)\<rparr>" ..
  have handles: "sc_recv_msg c' = sc_recv_msg c" "sc_control_msg c' = sc_control_msg c"
    by (subst e, simp)+
  have sent: "sent = take n (pending_bytes dview c w)" using all inv by (simp add: send_inv_def)
  have "pending_bytes dview c' w' = drop n (pending_bytes dview c w)"
    using pend sent by (metis append_take_drop_id same_append_eq)
  with fin have fin': "fin \<longleftrightarrow> send_ended dview c w \<and> length (pending_bytes dview c w) \<le> n" by simp
  show ?thesis
    by (rule that [OF run inv' _ _ bytes frame(1,2) handles sent fin'])
       (use out_provide [OF p] p in \<open>simp_all add: w' del: not_None_eq\<close>)
qed

section \<open>Control messages\<close>

lemma same_ends_drop:
  assumes "h \<noteq> tx" "swap_to s \<noteq> Some h"
  shows "same_ends dview (datas w) (datas (data_drop_tx E tx
    (w\<lparr>datas := snd (set_swap_to (rx_drop (data_ops E)) s rx (datas w))\<rparr>))) h"
  using assms by (auto simp: same_ends_def data_drop_tx_def set_swap_to_def rx_drop_def split: option.split)

lemma exchange_pipe:
  assumes inv: "send_inv careful dview u c (MSwapSendData rx tx # ms) w" and Some: "sc_send_data c = Some s"
    and c': "c' = c\<lparr>sc_send_data := Some (s\<lparr>swap_to := Some rx\<rparr>)\<rparr>"
    and w': "w' = data_drop_tx E tx (w\<lparr>datas := snd (set_swap_to (rx_drop (data_ops E)) s rx (datas w))\<rparr>)"
  shows "send_inv careful dview u c' ms w'"
proof -
  let ?s = "s\<lparr>swap_to := Some rx\<rparr>" and ?ms = "MSwapSendData rx tx # ms"
  from inv Some have held: "held_inv dview u s ?ms (datas w)" by (simp add: send_inv_def)
  have live: "live_chain s ?ms = last (swappable_chain s) # live_chain ?s ms"
    by (simp add: live_chain_def swappable_chain_def)
  have tx: "tx = last (swappable_chain s)"
    using held live by (cases u) (auto simp: held_inv_def live_chain_def)
  have dist: "distinct (swappable_chain s @ live_chain ?s ms)"
    using inv Some by (simp add: send_inv_def recv_chain_def live_chain_def swappable_chain_def)
  have ends: "same_ends dview (datas w) (datas w') h" if "h \<in> set (live_chain ?s ms)" for h
    unfolding w' by (rule same_ends_drop) (use that dist tx last_in_chain [of s] in \<open>auto simp: swappable_chain_def\<close>)
  have "held_inv dview u ?s ms (datas w)"
    using held live unfolding held_inv_def by (cases u) (auto simp: live_chain_def split: if_splits)
  then have "held_inv dview u ?s ms (datas w')" using ends by (rule held_inv_cong)
  moreover have "fresh w' = fresh w" by (simp add: w' data_drop_tx_def)
  moreover have "set (recv_chain c' ms) \<subseteq> set (recv_chain c ?ms)"
    "distinct (recv_chain c' ms)" "length (recv_chain c' ms) \<le> length (recv_chain c ?ms)"
    using inv Some c'
    by (auto simp: send_inv_def recv_chain_def swappable_chain_def split: option.splits)
  moreover have "ctx_prompt dview c' w'"
  proof (cases "swap_to s")
    case None
    then have "tx = active_stream s" by (simp add: tx swappable_chain_def)
    moreover from held have "has_sender dview (datas w) tx" by (simp add: held_inv_def)
    ultimately show ?thesis
      using None by (simp add: ctx_prompt_def data_prompt_def c' w' chan_ended_def view_ended_def has_sender_def
        set_swap_to_def data_drop_tx_def dch.sender_drop_view)
  next
    case n: (Some n)
    with dist have "active_stream s \<noteq> tx" "swap_to s \<noteq> Some (active_stream s)"
      by (auto simp: tx swappable_chain_def)
    from same_ends_drop [OF this, of w rx] inv Some n show ?thesis
      by (simp add: send_inv_def ctx_prompt_def data_prompt_def c' w' chan_ended_def view_ended_def same_ends_def)
  qed
  ultimately show ?thesis using inv unfolding send_inv_def c' by auto
qed

lemma exchange_bytes:
  assumes "send_inv careful dview u c (MSwapSendData rx tx # ms) w" "sc_send_data c = Some s"
    and "c' = c\<lparr>sc_send_data := Some (s\<lparr>swap_to := Some rx\<rparr>)\<rparr>"
    and "w' = data_drop_tx E tx (w\<lparr>datas := snd (set_swap_to (rx_drop (data_ops E)) s rx (datas w))\<rparr>)"
    and "careful" "byte_inv dview stopped u c (MSwapSendData rx tx # ms) w o1 acc"
  shows "byte_inv dview stopped u c' ms w' o1 acc"
proof -
  from assms(1,2,5) have "swap_to s = None" "swap_receivers ms = []"
    by (auto simp: send_inv_def recv_chain_def swappable_chain_def split: option.splits)
  then have "inflight_bytes dview c' ms w' = inflight_bytes dview c (MSwapSendData rx tx # ms) w"
    using assms(2)
    by (simp add: assms(3,4) inflight_bytes_def recv_chain_def swappable_chain_def set_swap_to_def)
  with assms(2,6) show ?thesis by (simp add: byte_inv_def assms(3))
qed

lemma control_step_pipe:
  assumes inv: "send_inv careful dview u c (m # ms) w" and m: "control_message m"
    and step: "control_step E m (c, w) = (c', w')"
  shows "send_inv careful dview u c' ms w'"
    and "careful \<Longrightarrow> byte_inv dview stopped u c (m # ms) w o1 acc \<Longrightarrow>
      byte_inv dview (stopped \<or> m = MReset) u c' ms w' o1 acc"
    and "silent (quic w) (quic w')"
proof -
  show "silent (quic w) (quic w')"
    using m step
    by (cases m) (auto simp: context_reset_eq set_swap_to_def silent_def split: option.splits)
  have "send_inv careful dview u c' ms w' \<and> (careful \<longrightarrow> byte_inv dview stopped u c (m # ms) w o1 acc \<longrightarrow>
      byte_inv dview (stopped \<or> m = MReset) u c' ms w' o1 acc)"
  proof (cases m)
    case MReset
    with step have c': "c' = c\<lparr>sc_stop_sending_or_fin_sent := True, sc_send_data := None\<rparr>"
      and w': "fresh w' = fresh w" by (auto simp: context_reset_eq)
    with inv MReset show ?thesis
      by (auto simp: send_inv_def byte_inv_def recv_chain_def ctx_prompt_def)
  next
    case (MSwapSendData rx tx)
    show ?thesis
    proof (cases "sc_send_data c")
      case None
      with step MSwapSendData have "c' = c" "fresh w' = fresh w" by (auto simp: data_drop_rx_def data_drop_tx_def)
      with inv None MSwapSendData show ?thesis
        by (auto simp: send_inv_def byte_inv_def recv_chain_def ctx_prompt_def)
    next
      case (Some s)
      with step MSwapSendData have e: "c' = c\<lparr>sc_send_data := Some (s\<lparr>swap_to := Some rx\<rparr>)\<rparr>"
        "w' = data_drop_tx E tx (w\<lparr>datas := snd (set_swap_to (rx_drop (data_ops E)) s rx (datas w))\<rparr>)"
        by (auto simp: set_swap_to_def)
      note x = inv [unfolded MSwapSendData] Some e
      show ?thesis using exchange_pipe [OF x] exchange_bytes [OF x] MSwapSendData by simp
    qed
  qed (use m in simp_all)
  then show "send_inv careful dview u c' ms w'"
    and "careful \<Longrightarrow> byte_inv dview stopped u c (m # ms) w o1 acc \<Longrightarrow>
      byte_inv dview (stopped \<or> m = MReset) u c' ms w' o1 acc"
    by blast+
qed

lemma fold_control_pipe:
  assumes "send_inv careful dview u c ms w" "\<forall>m\<in>set ms. control_message m"
    and "fold (control_step E) ms (c, w) = (c', w')"
  shows "send_inv careful dview u c' [] w'"
    and "careful \<Longrightarrow> byte_inv dview stopped u c ms w o1 acc \<Longrightarrow>
      byte_inv dview (stopped \<or> MReset \<in> set ms) u c' [] w' o1 acc"
    and "silent (quic w) (quic w')" and "sc_recv_msg c' = sc_recv_msg c"
    and "sc_control_msg c' = sc_control_msg c" and "fresh w' = fresh w"
proof -
  have "send_inv careful dview u c' [] w' \<and>
    (careful \<longrightarrow> byte_inv dview stopped u c ms w o1 acc \<longrightarrow>
      byte_inv dview (stopped \<or> MReset \<in> set ms) u c' [] w' o1 acc) \<and>
    silent (quic w) (quic w') \<and> sc_recv_msg c' = sc_recv_msg c \<and>
    sc_control_msg c' = sc_control_msg c \<and> fresh w' = fresh w"
    using assms
  proof (induction ms arbitrary: c w stopped)
    case Nil
    then show ?case by (simp add: silent_def)
  next
    case (Cons m ms)
    obtain c1 w1 where st: "control_step E m (c, w) = (c1, w1)" by fastforce
    from Cons.prems(2) have m: "control_message m" by simp
    note pipe = control_step_pipe [OF Cons.prems(1) m st]
    from Cons.IH [OF pipe(1), of "stopped \<or> m = MReset"] Cons.prems(2,3) st
    have "send_inv careful dview u c' [] w' \<and>
      (careful \<longrightarrow> byte_inv dview (stopped \<or> m = MReset) u c1 ms w1 o1 acc \<longrightarrow>
        byte_inv dview (stopped \<or> MReset \<in> set (m # ms)) u c' [] w' o1 acc) \<and>
      silent (quic w1) (quic w') \<and> sc_recv_msg c' = sc_recv_msg c1 \<and>
      sc_control_msg c' = sc_control_msg c1 \<and> fresh w' = fresh w1"
      by (simp add: disj_assoc eq_commute [of MReset m])
    with pipe control_step_handles [OF st] show ?case by (auto simp: silent_def)
  qed
  then show "send_inv careful dview u c' [] w'"
    and "careful \<Longrightarrow> byte_inv dview stopped u c ms w o1 acc \<Longrightarrow>
      byte_inv dview (stopped \<or> MReset \<in> set ms) u c' [] w' o1 acc"
    and "silent (quic w) (quic w')" and "sc_recv_msg c' = sc_recv_msg c"
    and "sc_control_msg c' = sc_control_msg c" and "fresh w' = fresh w"
    by blast+
qed

section \<open>Polling the context\<close>

lemma poll_send_data_pipe:
  assumes inv: "send_inv careful dview u c [] w"
  obtains c' w' where "poll_send_data E c w = (Ok (), c', w')" "send_inv careful dview u c' [] w'"
    "\<And>stopped o1 acc. byte_inv dview stopped u c [] w o1 acc \<Longrightarrow> byte_inv dview stopped u c' [] w' o1 acc"
    "silent (quic w) (quic w')" "msgs w' = msgs w" "fresh w' = fresh w"
    "sc_recv_msg c' = sc_recv_msg c" "sc_control_msg c' = sc_control_msg c"
proof (cases "\<exists>s. sc_active_buffer c = None \<and> sc_send_data c = Some s")
  case False
  then have "poll_send_data E c w = (Ok (), c, w)"
    by (auto simp: poll_send_data_def split: option.split)
  then show ?thesis using that assms by (simp add: silent_def)
next
  case True
  then obtain s where a: "sc_active_buffer c = None" "sc_send_data c = Some s" by blast
  have v: "data_valid s"
    using inv a ctx_valid_chain by (auto simp: send_inv_def ctx_valid_def)
  note goal = that
  have kept: thesis
    if run: "poll_send_data E c w = (Ok (), c', w')" and c': "sc_send_data c' = Some s'"
      "sc_recv_msg c' = sc_recv_msg c" "sc_control_msg c' = sc_control_msg c"
      and p: "data_poll E s w = (r, s', w1)" and w': "datas w' = datas w1" "silent (quic w) (quic w')"
        "msgs w' = msgs w" "fresh w' = fresh w"
      and pend: "pending_bytes dview c w = [] @ pending_bytes dview c' w'" for c' w' r s' w1
  proof -
    have rel: "rel_option (\<lambda>s s'. polled dview s w s' w1) (sc_send_data c) (sc_send_data c')"
      using data_poll_polled [OF p v] a c' by simp
    show thesis
      by (rule goal [OF run send_inv_polled [OF inv rel w'(1)] _ w'(2-4) c'(2,3)])
         (use byte_inv_polled [OF _ inv rel w'(1) pend] w'(4) in simp_all)
  qed
  have frame: "w1 = w\<lparr>datas := datas w1\<rparr>" if "data_poll E s w = (r, s', w1)" for r s' w1
    using that by (auto simp: data_poll_def split: prod.splits)
  from v show ?thesis
  proof (cases rule: dsnd.poll_cases [where w = w])
    case (item buf s' w1)
    note fr = frame [OF item(1)]
    show ?thesis
      by (rule kept [of "c\<lparr>sc_send_data := Some s', sc_active_buffer := Some buf\<rparr>"
            "w1\<lparr>quic := picoquic_mark_active_stream E (quic w1) (sc_cnx c) (sc_id c) True\<rparr>",
            OF _ _ _ _ item(1)])
         (use a item in \<open>simp_all add: poll_send_data_def pending_bytes_def data_items_def silent_def\<close>,
          (subst fr, simp)+)
  next
    case (pending s' w1)
    note fr = frame [OF pending(1)]
    show ?thesis
      by (rule kept [of "c\<lparr>sc_send_data := Some s'\<rparr>" w1, OF _ _ _ _ pending(1)])
         (use a pending in \<open>simp_all add: poll_send_data_def pending_bytes_def silent_def\<close>,
          (subst fr, simp)+)
  next
    case (fin s' w1)
    let ?r = "handle_send_data_dropped E (c\<lparr>sc_send_data := Some s'\<rparr>) w1"
    note fr = frame [OF fin(1)]
    from inv a fin have u: "u = None \<and> swap_receivers [] = []"
      by (intro ended_alone [of dview u s "[]" w]) (simp_all add: send_inv_def)
    have run: "poll_send_data E c w = (Ok (), fst ?r, snd ?r)"
      using a fin by (simp add: poll_send_data_def)
    have c': "sc_send_data (fst ?r) = None" "sc_active_buffer (fst ?r) = None"
      "sc_recv_msg (fst ?r) = sc_recv_msg c" "sc_control_msg (fst ?r) = sc_control_msg c"
      using a by (auto simp: handle_send_data_dropped_def context_reset_eq Let_def)
    have w': "quic w1 = quic w" "msgs w1 = msgs w" "fresh w1 = fresh w" by (subst fr, simp)+
    have w'': "silent (quic w1) (quic (snd ?r))" "msgs (snd ?r) = msgs w1" "fresh (snd ?r) = fresh w1"
      by (auto simp: handle_send_data_dropped_def context_reset_eq Let_def silent_def data_drop_swappable_def)
    have empty: "inflight_bytes dview c [] w = []"
      using a fin by (simp add: pending_bytes_inflight [symmetric] pending_bytes_def)
    show ?thesis
      by (rule that [OF run])
         (use u c' w' w'' empty a in \<open>auto simp: send_inv_def recv_chain_def byte_inv_def silent_def ctx_prompt_def\<close>)
  qed
qed

lemma recv_message_dropped_pipe:
  assumes "recv_message_dropped E c w = (c', w')"
  shows "sc_send_data c' = sc_send_data c" "sc_active_buffer c' = sc_active_buffer c"
    "sc_recv_msg c' = sc_recv_msg c" "sc_control_msg c' = sc_control_msg c"
    "datas w' = datas w" "msgs w' = msgs w" "fresh w' = fresh w" "silent (quic w) (quic w')"
  using assms by (auto simp: recv_message_dropped_eq silent_def split: if_splits)

lemma inv_same:
  assumes "sc_send_data c' = sc_send_data c" "sc_active_buffer c' = sc_active_buffer c"
    and "datas w' = datas w" "fresh w' = fresh w"
  shows "send_inv careful dview u c ms w \<Longrightarrow> send_inv careful dview u c' ms w'"
    and "byte_inv dview stopped u c ms w o1 acc \<Longrightarrow> byte_inv dview stopped u c' ms w' o1 acc"
proof -
  show "send_inv careful dview u c' ms w'" if "send_inv careful dview u c ms w"
    using send_inv_cong [OF that, of c' w'] assms by (simp add: same_ends_def)
  show "byte_inv dview stopped u c' ms w' o1 acc" if "byte_inv dview stopped u c ms w o1 acc"
    using byte_inv_cong [OF that, of c' w' stopped] assms by simp
qed

lemma stream_context_poll_pipe:
  assumes inv: "send_inv careful dview u c ms w"
    and ms: "ms = cv_buffer (mview (msgs w (sc_control_msg c)))" "\<forall>m\<in>set ms. control_message m"
  obtains r c' w' ch where "stream_context_poll E c w = Some (r, c', w')"
    "send_inv careful dview u c' [] w'"
    "\<And>stopped o1 acc. careful \<Longrightarrow> byte_inv dview stopped u c ms w o1 acc \<Longrightarrow>
       byte_inv dview (stopped \<or> MReset \<in> set ms) u c' [] w' o1 acc"
    "silent (quic w) (quic w')" "msgs w' = (msgs w)(sc_control_msg c := ch)"
    "mview ch = mview (msgs w (sc_control_msg c))\<lparr>cv_buffer := []\<rparr>"
    "fresh w' = fresh w" "sc_recv_msg c' = sc_recv_msg c" "sc_control_msg c' = sc_control_msg c"
proof -
  obtain ch c1 w1 w2 where f: "fold (control_step E) ms (c, w) = (c1, w1)"
    and w2: "w2 = w1\<lparr>msgs := (msgs w)(sc_control_msg c := ch)\<rparr>"
    and ch: "mview ch = mview (msgs w (sc_control_msg c))\<lparr>cv_buffer := []\<rparr>"
    and run: "poll_control_msg E c w =
       Some (if view_ended (mview (msgs w (sc_control_msg c)))
             then (Ok (Ready ()), recv_message_dropped E c1 w2) else (Ok NotReady, c1, w2))"
    by (rule poll_control_msg_fold [of w c]) (use ms in auto)
  note pipe = fold_control_pipe [OF inv ms(2) f]
  obtain r2 c2 w3 where r2: "poll_control_msg E c w = Some (Ok r2, c2, w3)"
    and same: "sc_send_data c2 = sc_send_data c1" "sc_active_buffer c2 = sc_active_buffer c1"
      "sc_recv_msg c2 = sc_recv_msg c1" "sc_control_msg c2 = sc_control_msg c1"
      "datas w3 = datas w1" "msgs w3 = msgs w2" "fresh w3 = fresh w1" "silent (quic w1) (quic w3)"
  proof (cases "view_ended (mview (msgs w (sc_control_msg c)))")
    case True
    obtain c2 w3 where d: "recv_message_dropped E c1 w2 = (c2, w3)" by fastforce
    with True run have "poll_control_msg E c w = Some (Ok (Ready ()), c2, w3)" by simp
    then show ?thesis
      by (rule that) (use recv_message_dropped_pipe [OF d] in \<open>simp_all add: w2\<close>)
  next
    case False
    with run have "poll_control_msg E c w = Some (Ok NotReady, c1, w2)" by simp
    then show ?thesis by (rule that) (simp_all add: w2 silent_def)
  qed
  note inv2 = inv_same [OF same(1,2,5,7)]
  from inv2(1) [OF pipe(1)] obtain c' w' where p: "poll_send_data E c2 w3 = (Ok (), c', w')"
    and inv': "send_inv careful dview u c' [] w'"
    and b: "\<And>stopped o1 acc. byte_inv dview stopped u c2 [] w3 o1 acc \<Longrightarrow> byte_inv dview stopped u c' [] w' o1 acc"
    and fr: "silent (quic w3) (quic w')" "msgs w' = msgs w3" "fresh w' = fresh w3"
      "sc_recv_msg c' = sc_recv_msg c2" "sc_control_msg c' = sc_control_msg c2"
    by (rule poll_send_data_pipe) blast
  obtain r where "stream_context_poll E c w = Some (r, c', w')"
    using r2 p by (simp add: stream_context_poll_def)
  then show ?thesis
    by (rule that [OF _ inv' _ _ _ ch])
       (use pipe same fr inv2(2) b in \<open>auto simp: w2 silent_def\<close>)
qed

section \<open>Messages for the user\<close>

lemma recv_message_pipe:
  assumes "\<not> is_swap m" "recv_message E c m w = (c', w')"
  obtains ch where "msgs w' = (msgs w)(sc_recv_msg c := ch)"
    "set (cv_buffer (mview ch)) \<subseteq> insert m (set (cv_buffer (mview (msgs w (sc_recv_msg c)))))"
    "sc_send_data c' = sc_send_data c" "sc_active_buffer c' = sc_active_buffer c"
    "sc_recv_msg c' = sc_recv_msg c" "sc_control_msg c' = sc_control_msg c"
    "datas w' = datas w" "fresh w' = fresh w" "silent (quic w) (quic w')"
proof (cases "user_listens mview c w")
  case True
  then obtain ch where "recv_message E c m w = (c, w\<lparr>msgs := (msgs w)(sc_recv_msg c := ch)\<rparr>)"
    "mview ch = mview (msgs w (sc_recv_msg c))\<lparr>cv_buffer := inbox mview c w @ [m]\<rparr>"
    by (rule recv_message_listening)
  with assms show ?thesis by (intro that [of ch]) (auto simp: inbox_def silent_def)
next
  case False
  then obtain ch where "recv_message E c m w =
      recv_message_dropped E c (w\<lparr>msgs := (msgs w)(sc_recv_msg c := ch)\<rparr>)"
    "mview ch = mview (msgs w (sc_recv_msg c))"
    by (rule recv_message_gone [OF _ assms(1)])
  with assms recv_message_dropped_pipe [of c "w\<lparr>msgs := (msgs w)(sc_recv_msg c := ch)\<rparr>" c' w']
  show ?thesis by (intro that [of ch]) auto
qed

text \<open>A callback that is not about sending: the peer's request to stop ends the sending
  direction, everything else leaves it alone.\<close>

lemma callback_pipe:
  assumes "event \<noteq> callback_prepare_to_send"
  obtains c' w' ch where "stream_handle_callback E ptr len event c w = Some (c', w')"
    "msgs w' = (msgs w)(sc_recv_msg c := ch)"
    "\<And>m. m \<in> set (cv_buffer (mview ch)) \<Longrightarrow> \<not> is_swap m \<or> m \<in> set (cv_buffer (mview (msgs w (sc_recv_msg c))))"
    "sc_send_data c' = (if event = callback_stop_sending then None else sc_send_data c)"
    "sc_active_buffer c' = sc_active_buffer c"
    "sc_recv_msg c' = sc_recv_msg c" "sc_control_msg c' = sc_control_msg c"
    "event \<noteq> callback_stop_sending \<Longrightarrow> datas w' = datas w" "fresh w' = fresh w" "silent (quic w) (quic w')"
proof -
  let ?data = "c_read E (quic w) ptr len"
  obtain c1 w1 where d: "(if ?data \<noteq> [] \<and> \<not> sc_fin_received_or_recv_msg_dropped c
      then recv_message E c (MRecvData ?data) w else (c, w)) = (c1, w1)" by fastforce
  obtain ch1 where 1: "msgs w1 = (msgs w)(sc_recv_msg c := ch1)"
    "set (cv_buffer (mview ch1)) \<subseteq> insert (MRecvData ?data) (set (cv_buffer (mview (msgs w (sc_recv_msg c)))))"
    "sc_send_data c1 = sc_send_data c" "sc_active_buffer c1 = sc_active_buffer c"
    "sc_recv_msg c1 = sc_recv_msg c" "sc_control_msg c1 = sc_control_msg c"
    "datas w1 = datas w" "fresh w1 = fresh w" "silent (quic w) (quic w1)"
  proof (cases "?data \<noteq> [] \<and> \<not> sc_fin_received_or_recv_msg_dropped c")
    case True
    with d have r: "recv_message E c (MRecvData ?data) w = (c1, w1)" by simp
    have n: "\<not> is_swap (MRecvData ?data)" by simp
    show ?thesis by (rule recv_message_pipe [OF n r]) (rule that)
  next
    case False
    with d have "c1 = c" "w1 = w" by (simp_all split: if_splits)
    then show ?thesis by (intro that [of "msgs w (sc_recv_msg c)"]) (simp_all add: silent_def subset_insertI)
  qed
  let ?f = "c1\<lparr>sc_fin_received_or_recv_msg_dropped := True\<rparr>"
  have run: "stream_handle_callback E ptr len event c w = Some
     (if event = callback_stream_reset then recv_message E ?f MReset w1
      else if event = callback_stop_sending then
        close_send_data E (c1\<lparr>sc_stop_sending_or_fin_sent := True\<rparr>) w1
      else if event = callback_stream_fin then recv_message E ?f MClose w1
      else (c1, w1))"
    using assms d by (simp add: stream_handle_callback_def Let_def del: not_None_eq)
  show ?thesis
  proof (cases "end_message event")
    case Nil
    let ?r = "if event = callback_stop_sending
      then close_send_data E (c1\<lparr>sc_stop_sending_or_fin_sent := True\<rparr>) w1 else (c1, w1)"
    from Nil run have "stream_handle_callback E ptr len event c w = Some (fst ?r, snd ?r)"
      by (auto simp: end_message_def split: if_splits)
    then show ?thesis
      by (rule that) (use 1 in \<open>auto simp: silent_def\<close>)
  next
    case (Cons m ms)
    then have m: "\<not> is_swap m" "event \<noteq> callback_stop_sending"
      by (auto simp: end_message_def split: if_splits)
    obtain c' w' where r: "recv_message E ?f m w1 = (c', w')" by fastforce
    with Cons run have "stream_handle_callback E ptr len event c w = Some (c', w')"
      by (auto simp: end_message_def split: if_splits)
    moreover obtain ch where "msgs w' = (msgs w1)(sc_recv_msg ?f := ch)"
      "set (cv_buffer (mview ch)) \<subseteq> insert m (set (cv_buffer (mview (msgs w1 (sc_recv_msg ?f)))))"
      "sc_send_data c' = sc_send_data ?f" "sc_active_buffer c' = sc_active_buffer ?f"
      "sc_recv_msg c' = sc_recv_msg ?f" "sc_control_msg c' = sc_control_msg ?f"
      "datas w' = datas w1" "fresh w' = fresh w1" "silent (quic w1) (quic w')"
      by (rule recv_message_pipe [OF m(1) r])
    ultimately show ?thesis
      using 1 m by (intro that [of c' w' ch]) (auto simp: silent_def)
  qed
qed

section \<open>The user's operations\<close>

lemma start_send_frame:
  assumes "stream_start_send E item st w = (r, w')"
  shows "msgs w' = msgs w" "fresh w' = fresh w" "quic w' = quic w"
    "st_send_data st = None \<Longrightarrow> r \<noteq> Ok SinkReady \<and> w' = w"
  using assms by (auto simp: stream_start_send_def get_send_data_def split: option.splits prod.splits)

lemma start_send_ends:
  assumes "stream_start_send E item st w = (r, w')"
  shows "same_ends dview (datas w) (datas w') h"
proof (cases "st_send_data st")
  case None
  with start_send_frame(4) [OF assms] show ?thesis by (simp add: same_ends_def)
next
  case (Some k)
  with assms have w': "w' = w\<lparr>datas := (datas w)(k := snd (sender_start_send (data_ops E) (datas w k) item))\<rparr>"
    by (auto simp: stream_start_send_def get_send_data_def split: prod.splits)
  show ?thesis
    using dch.sender_start_send_open(1) [of "datas w k" item] dch.sender_start_send_closed(2) [of "datas w k" item]
    by (cases "cv_open (dview (ce_chan (datas w k)))") (auto simp: same_ends_def w')
qed

lemma held_last:
  assumes "held_inv dview (Some h) s ms D" "sc_send_data c = Some s"
  shows "recv_chain c ms \<noteq> []" "last (recv_chain c ms) = h"
proof -
  from assms(1) have "last (live_chain s ms) = h"
    by (auto simp: held_inv_def dest: arg_cong [where f = last])
  with assms(2) show "last (recv_chain c ms) = h" "recv_chain c ms \<noteq> []"
    by (auto simp: recv_chain_def live_chain_def swappable_chain_def)
qed

lemma start_send_pipe:
  assumes inv: "send_inv careful dview u c ms w" and u: "st_send_data st = u"
    and run: "stream_start_send E item st w = (r, w')"
  shows "send_inv careful dview u c ms w'"
    and "byte_inv dview stopped u c ms w o1 acc \<Longrightarrow>
      byte_inv dview stopped u c ms w' o1 (acc @ (if r = Ok SinkReady then item else []))"
proof -
  note fr = start_send_frame [OF run]
  show "send_inv careful dview u c ms w'"
    by (rule send_inv_cong [OF inv refl]) (simp_all add: fr(2) start_send_ends [OF run])
  assume b: "byte_inv dview stopped u c ms w o1 acc"
  show "byte_inv dview stopped u c ms w' o1 (acc @ (if r = Ok SinkReady then item else []))"
  proof (cases u)
    case None
    with fr(4) u b show ?thesis by simp
  next
    case (Some h)
    show ?thesis
    proof (cases "sc_send_data c")
      case None
      with b Some show ?thesis by (auto simp: byte_inv_def)
    next
      case s: (Some s)
      with inv Some have "held_inv dview (Some h) s ms (datas w)" "distinct (recv_chain c ms)"
        by (simp_all add: send_inv_def)
      with held_last [OF _ s] have "recv_chain c ms \<noteq> []" "last (recv_chain c ms) = h" "distinct (recv_chain c ms)"
        by blast+
      then have "inflight_bytes dview c ms w' = inflight_bytes dview c ms w @ (if r = Ok SinkReady then item else [])"
        by (rule start_send_inflight [OF u [unfolded Some], where w = w and item = item])
           (use run in \<open>simp_all\<close>)
      with b s show ?thesis by (auto simp: byte_inv_def)
    qed
  qed
qed

lemma poll_complete_pipe:
  assumes "stream_poll_complete E st w = (r, w')"
  shows "msgs w' = msgs w" "fresh w' = fresh w" "quic w' = quic w"
    "same_ends dview (datas w) (datas w') h" "chan_items dview h (datas w') = chan_items dview h (datas w)"
proof -
  have "w' = w \<or> (\<exists>k. w' = w\<lparr>datas := (datas w)(k := (datas w k)\<lparr>ce_chan :=
      snd (mpsc_poll_complete (data_ops E) (ce_chan (datas w k)))\<rparr>)\<rparr>)"
    using assms
    by (auto simp: stream_poll_complete_def sender_poll_complete_def get_send_data_def Let_def split_beta
        split: option.splits)
  then show "msgs w' = msgs w" "fresh w' = fresh w" "quic w' = quic w"
    "same_ends dview (datas w) (datas w') h" "chan_items dview h (datas w') = chan_items dview h (datas w)"
    by (auto simp: same_ends_def chan_items_def dch.view_of_poll_complete split: if_splits)
qed

text \<open>A message into the control channel of a living context is appended.\<close>

lemma resize_pipe:
  assumes inv: "send_inv careful dview u c ms w" and u: "st_send_data st = u"
    and ms: "ms = cv_buffer (mview (msgs w (st_control_msg st)))" "cv_open (mview (msgs w (st_control_msg st)))"
    and careful: "careful \<Longrightarrow> length (recv_chain c ms) \<le> 1"
    and run: "set_send_channel_size E sz st w = (st', w')"
  obtains ch ms' where "msgs w' = (msgs w)(st_control_msg st := ch)" "mview ch = mview (msgs w (st_control_msg st))\<lparr>cv_buffer := ms'\<rparr>"
    "\<forall>m\<in>set ms'. m \<in> set ms \<or> control_message m"
    "send_inv careful dview (st_send_data st') c ms' w'"
    "\<And>stopped o1 acc. byte_inv dview stopped u c ms w o1 acc \<Longrightarrow>
       byte_inv dview stopped (st_send_data st') c ms' w' o1 acc"
    "quic w' = quic w"
proof (cases u)
  case None
  with run u have "st' = st" "w' = w" by (simp_all add: set_send_channel_size_def)
  with that [of "msgs w (st_control_msg st)" ms] inv u ms show ?thesis by simp
next
  case (Some old)
  let ?h = "fresh w"
  let ?w = "w\<lparr>datas := (datas w)(?h := channel (data_ops E) sz), fresh := Suc ?h\<rparr>"
  let ?m = "MSwapSendData ?h old"
  obtain ch where send: "msg_send E (st_control_msg st) ?m ?w = (True, ?w\<lparr>msgs := (msgs ?w)(st_control_msg st := ch)\<rparr>)"
    and ch: "mview ch = mview (msgs w (st_control_msg st))\<lparr>cv_buffer := ms @ [?m]\<rparr>"
    using msg_send_open [of ?w "st_control_msg st" ?m] ms by auto
  from run u Some send have st': "st' = st\<lparr>st_send_data := Some ?h\<rparr>"
    and w': "w' = ?w\<lparr>msgs := (msgs w)(st_control_msg st := ch)\<rparr>"
    by (auto simp: set_send_channel_size_def new_data_chan_def)
  have chain: "recv_chain c (ms @ [?m]) = recv_chain c ms @ [?h]" by (simp add: recv_chain_def)
  have new: "h \<in> set (recv_chain c ms) \<Longrightarrow> h \<noteq> ?h" for h using inv by (auto simp: send_inv_def)
  have held: "held_inv dview (Some ?h) s (ms @ [?m]) (datas w')" if s: "sc_send_data c = Some s" for s
  proof -
    from inv s Some have h: "held_inv dview (Some old) s ms (datas w)" by (simp add: send_inv_def)
    have ne: "h \<in> set (live_chain s ms) \<Longrightarrow> h \<noteq> ?h" for h
      using new live_chain_subset [OF s, of ms] by blast
    have "held_inv dview (Some old) s ms (datas w')"
      by (rule held_inv_cong [OF h]) (use ne in \<open>simp add: w' same_ends_def\<close>)
    then have eq: "swap_senders ms @ [old] = live_chain s ms"
      and old: "\<forall>h \<in> set (swap_senders ms) \<union> {old}. has_sender dview (datas w') h"
        "\<forall>h \<in> set (live_chain s ms). accepts dview (datas w') h"
      by (simp_all add: held_inv_def)
    have live: "live_chain s (ms @ [?m]) = live_chain s ms @ [?h]" by (simp add: live_chain_def)
    have "has_sender dview (datas w') ?h" "accepts dview (datas w') ?h"
      by (simp_all add: w' has_sender_def accepts_def dch.channel_view view_new_def)
    with old show ?thesis unfolding held_inv_def live eq [symmetric] by simp
  qed
  have "ctx_prompt dview c w'"
    using inv new unfolding send_inv_def ctx_prompt_def data_prompt_def
    by (auto simp: w' chan_ended_def recv_chain_def swappable_chain_def)
  then have "send_inv careful dview (st_send_data st') c (ms @ [?m]) w'"
    using inv chain new held careful unfolding send_inv_def st' by (auto simp: w' less_SucI)
  moreover have "byte_inv dview stopped (st_send_data st') c (ms @ [?m]) w' o1 acc"
    if b: "byte_inv dview stopped u c ms w o1 acc" for stopped o1 acc
  proof -
    have "map (\<lambda>h. chan_items dview h (datas w')) (recv_chain c ms) = map (\<lambda>h. chan_items dview h (datas w)) (recv_chain c ms)"
      by (rule map_cong [OF refl]) (use new in \<open>auto simp: w' chan_items_def\<close>)
    moreover have "chan_items dview ?h (datas w') = []"
      by (simp add: w' chan_items_def dch.channel_view view_new_def)
    ultimately have "inflight_bytes dview c (ms @ [?m]) w' = inflight_bytes dview c ms w"
      by (simp add: inflight_bytes_def chain del: map_eq_conv)
    with b Some show ?thesis by (auto simp: byte_inv_def st')
  qed
  ultimately show ?thesis using ch ms by (intro that [of ch "ms @ [?m]"]) (auto simp: w')
qed

lemma drop_sender_pipe:
  assumes inv: "send_inv careful dview (Some h) c ms w"
  shows "send_inv careful dview None c ms (data_drop_tx E h w)"
proof -
  have "held_inv dview None s ms (datas (data_drop_tx E h w))" if s: "sc_send_data c = Some s" for s
  proof -
    from inv s have held: "held_inv dview (Some h) s ms (datas w)" by (simp add: send_inv_def)
    then have eq: "swap_senders ms @ [h] = live_chain s ms" by (simp add: held_inv_def)
    have "distinct (live_chain s ms)"
      using inv s last_in_chain [of s] by (auto simp: send_inv_def recv_chain_def live_chain_def)
    then have "h \<notin> set (swap_senders ms)" by (simp add: eq [symmetric])
    moreover have "swap_senders ms = butlast (live_chain s ms)" "last (live_chain s ms) = h"
      by (simp_all add: eq [symmetric])
    ultimately show ?thesis
      using held by (auto simp: held_inv_def has_sender_def accepts_def data_drop_tx_def dch.sender_drop_view)
  qed
  moreover have "ctx_prompt dview c (data_drop_tx E h w)"
    using inv by (auto simp: send_inv_def ctx_prompt_def data_prompt_def chan_ended_def view_ended_def
        data_drop_tx_def dch.sender_drop_view)
  ultimately show ?thesis using inv by (simp add: send_inv_def)
qed

lemma byte_inv_drop_tx:
  assumes "byte_inv dview stopped u c ms w o1 acc"
  shows "byte_inv dview stopped None c ms (data_drop_tx E h w) o1 acc"
proof -
  from assms have "byte_inv dview stopped None c ms w o1 acc" by (simp add: byte_inv_def)
  then show ?thesis by (rule byte_inv_cong) simp_all
qed

end

end
