(* ===== verification/Stream_System.thy ===== *)
theory Stream_System
  imports Stream_Props Stream_Pipe
begin

text \<open>
  A stream as a whole: the user's \<^verbatim>\<open>Stream\<close> and its \<^verbatim>\<open>Context\<close>,
  whose operations interleave in any order, together with everything else that runs beside them.
  In every reachable state no operation panics; and if the send channel is exchanged carefully,
  the stream is a pipe: what picoquic has been given is a prefix of what the sink accepted, and
  the end of the stream is given only behind the last byte.
\<close>

section \<open>States and steps\<close>

text \<open>Beside the two parties and the world, two variables record the history: the bytes the sink
  accepted, and whether sending was stopped by a reset of the user or by the peer.\<close>

record ('m, 'd, 'q, 'w) stream_sys =
  sys_user :: "stream option"
  sys_ctx :: "stream_ctx option"
  sys_world :: "('m, 'd, 'q, 'w) sworld"
  sys_accepted :: bytes
  sys_stopped :: bool

abbreviation sys_sender :: "('m, 'd, 'q, 'w) stream_sys \<Rightarrow> nat option" where
  "sys_sender s \<equiv> Option.bind (sys_user s) st_send_data"

text \<open>What belongs to the stream, and so is left alone by everything else.\<close>

definition sys_msg_handles :: "('m, 'd, 'q, 'w) stream_sys \<Rightarrow> nat set" where
  "sys_msg_handles s =
     (case sys_user s of Some st \<Rightarrow> {st_recv_msg st, st_control_msg st} | None \<Rightarrow> {}) \<union>
     (case sys_ctx s of Some c \<Rightarrow> {sc_recv_msg c, sc_control_msg c} | None \<Rightarrow> {})"

definition sys_data_handles where
  "sys_data_handles mview s =
     set_option (sys_sender s) \<union>
     (case sys_ctx s of
        Some c \<Rightarrow> set (recv_chain c (queue mview (sc_control_msg c) (sys_world s))) \<union>
                  set (swap_senders (queue mview (sc_control_msg c) (sys_world s)))
      | None \<Rightarrow> {})"

text \<open>With \<open>careful\<close>, the user exchanges the send channel only when no replacement is
  waiting.\<close>

definition may_resize where
  "may_resize careful mview s \<longleftrightarrow>
     (careful \<longrightarrow> (\<forall>c. sys_ctx s = Some c \<longrightarrow>
        length (recv_chain c (queue mview (sc_control_msg c) (sys_world s))) \<le> 1))"

inductive stream_step for E mview out fin_out careful where
  user_send: "sys_user s = Some st \<Longrightarrow> stream_start_send E item st (sys_world s) = (r, w') \<Longrightarrow>
    stream_step E mview out fin_out careful s
      (s\<lparr>sys_world := w', sys_accepted := sys_accepted s @ (if r = Ok SinkReady then item else [])\<rparr>)"
| user_flush: "sys_user s = Some st \<Longrightarrow> stream_poll_complete E st (sys_world s) = (rc, w') \<Longrightarrow>
    stream_step E mview out fin_out careful s (s\<lparr>sys_world := w'\<rparr>)"
| user_poll: "sys_user s = Some st \<Longrightarrow> stream_poll E st (sys_world s) = Some (rp, st', w') \<Longrightarrow>
    stream_step E mview out fin_out careful s (s\<lparr>sys_user := Some st', sys_world := w'\<rparr>)"
| user_reset: "sys_user s = Some st \<Longrightarrow> stream_reset E st (sys_world s) = (rr, w') \<Longrightarrow>
    stream_step E mview out fin_out careful s (s\<lparr>sys_world := w'\<rparr>)"
| user_resize: "sys_user s = Some st \<Longrightarrow> may_resize careful mview s \<Longrightarrow>
    set_send_channel_size E sz st (sys_world s) = (st', w') \<Longrightarrow>
    stream_step E mview out fin_out careful s (s\<lparr>sys_user := Some st', sys_world := w'\<rparr>)"
| user_drop: "sys_user s = Some st \<Longrightarrow> stream_drop E st (sys_world s) = w' \<Longrightarrow>
    stream_step E mview out fin_out careful s (s\<lparr>sys_user := None, sys_world := w'\<rparr>)"
| ctx_callback: "sys_ctx s = Some c \<Longrightarrow>
    stream_handle_callback E ptr len event c (sys_world s) = Some (c', w') \<Longrightarrow>
    stream_step E mview out fin_out careful s
      (s\<lparr>sys_ctx := Some c', sys_world := w', sys_stopped := (sys_stopped s \<or> event = callback_stop_sending)\<rparr>)"
| ctx_poll: "sys_ctx s = Some c \<Longrightarrow> stream_context_poll E c (sys_world s) = Some (rx, c', w') \<Longrightarrow>
    stream_step E mview out fin_out careful s
      (s\<lparr>sys_ctx := Some c', sys_world := w',
         sys_stopped := (sys_stopped s \<or> MReset \<in> set (queue mview (sc_control_msg c) (sys_world s)))\<rparr>)"
| ctx_error: "sys_ctx s = Some c \<Longrightarrow> handle_connection_error E err c (sys_world s) = (c', w') \<Longrightarrow>
    stream_step E mview out fin_out careful s (s\<lparr>sys_ctx := Some c', sys_world := w'\<rparr>)"
| ctx_close: "sys_ctx s = Some c \<Longrightarrow> handle_connection_close E c (sys_world s) = (c', w') \<Longrightarrow>
    stream_step E mview out fin_out careful s (s\<lparr>sys_ctx := Some c', sys_world := w'\<rparr>)"
| ctx_drop: "sys_ctx s = Some c \<Longrightarrow> stream_context_drop E c (sys_world s) = w' \<Longrightarrow>
    stream_step E mview out fin_out careful s (s\<lparr>sys_ctx := None, sys_world := w'\<rparr>)"
| others: "\<forall>h \<in> sys_msg_handles s. msgs w' h = msgs (sys_world s) h \<Longrightarrow>
    \<forall>h \<in> sys_data_handles mview s. datas w' h = datas (sys_world s) h \<Longrightarrow>
    fresh (sys_world s) \<le> fresh w' \<Longrightarrow> out (quic w') = out (quic (sys_world s)) \<Longrightarrow>
    fin_out (quic w') = fin_out (quic (sys_world s)) \<Longrightarrow>
    stream_step E mview out fin_out careful s (s\<lparr>sys_world := w'\<rparr>)"

text \<open>A stream starts with \<^verbatim>\<open>Stream::new\<close>, before picoquic has been given anything.\<close>

inductive stream_reach for E mview out fin_out careful where
  start: "stream_new E sid cnx local_addr is_client sz w = Some (st, c, w') \<Longrightarrow>
    out (quic w) = [] \<Longrightarrow> \<not> fin_out (quic w) \<Longrightarrow>
    stream_reach E mview out fin_out careful
      \<lparr>sys_user = Some st, sys_ctx = Some c, sys_world = w', sys_accepted = [], sys_stopped = False\<rparr>"
| step: "stream_reach E mview out fin_out careful s \<Longrightarrow> stream_step E mview out fin_out careful s s' \<Longrightarrow>
    stream_reach E mview out fin_out careful s'"

section \<open>The invariant\<close>

definition ctx_inv where
  "ctx_inv mview dview careful rx ct u c w stopped out acc \<longleftrightarrow>
     sc_recv_msg c = rx \<and> sc_control_msg c = ct \<and> cv_open (mview (msgs w ct)) \<and>
     send_inv careful dview u c (queue mview ct w) w \<and>
     (careful \<longrightarrow> byte_inv dview stopped u c (queue mview ct w) w out acc)"

definition mail_inv where
  "mail_inv mview rx ct w \<longleftrightarrow>
     rx \<noteq> ct \<and> (\<forall>m \<in> set (queue mview rx w). \<not> is_swap m) \<and> (\<forall>m \<in> set (queue mview ct w). control_message m)"

definition out_inv where
  "out_inv out fin stopped (u :: nat option) acc \<longleftrightarrow> prefix out acc \<and> (fin \<longrightarrow> stopped \<or> u = None \<and> out = acc)"

definition sys_inv where
  "sys_inv mview dview out fin_out careful rx ct s \<longleftrightarrow>
     (sys_user s \<noteq> None \<or> sys_ctx s \<noteq> None \<longrightarrow> mail_inv mview rx ct (sys_world s)) \<and>
     (\<forall>st. sys_user s = Some st \<longrightarrow> st_recv_msg st = rx \<and> st_control_msg st = ct) \<and>
     (\<forall>c. sys_ctx s = Some c \<longrightarrow> ctx_inv mview dview careful rx ct (sys_sender s) c (sys_world s)
        (sys_stopped s) (out (quic (sys_world s))) (sys_accepted s)) \<and>
     (careful \<longrightarrow> out_inv (out (quic (sys_world s))) (fin_out (quic (sys_world s))) (sys_stopped s)
        (sys_sender s) (sys_accepted s))"

lemmas inv_defs = sys_inv_def ctx_inv_def mail_inv_def out_inv_def

context stream_output
begin

text \<open>The user's steps.\<close>

lemma user_send_inv:
  assumes inv: "sys_inv mview dview out fin_out careful rx ct s" and st: "sys_user s = Some st"
    and run: "stream_start_send E item st (sys_world s) = (r, w')"
  shows "sys_inv mview dview out fin_out careful rx ct
    (s\<lparr>sys_world := w', sys_accepted := sys_accepted s @ (if r = Ok SinkReady then item else [])\<rparr>)"
proof -
  note fr = start_send_frame [OF run]
  have q: "queue mview h w' = queue mview h (sys_world s)" for h by (simp add: queue_def fr)
  have "ctx_inv mview dview careful rx ct (sys_sender s) c w' (sys_stopped s) (out (quic w'))
      (sys_accepted s @ (if r = Ok SinkReady then item else []))" if "sys_ctx s = Some c" for c
  proof -
    from inv that have c: "ctx_inv mview dview careful rx ct (sys_sender s) c (sys_world s) (sys_stopped s)
        (out (quic (sys_world s))) (sys_accepted s)" by (simp add: sys_inv_def)
    have u: "st_send_data st = sys_sender s" by (simp add: st)
    from c have "send_inv careful dview (sys_sender s) c (queue mview ct (sys_world s)) (sys_world s)"
      by (simp add: ctx_inv_def)
    note pipe = start_send_pipe [OF this u run]
    from c pipe show ?thesis unfolding ctx_inv_def q fr by blast
  qed
  moreover have "r = Ok SinkReady \<Longrightarrow> sys_sender s \<noteq> None" using fr(4) st by auto
  ultimately show ?thesis using inv by (auto simp: sys_inv_def mail_inv_def out_inv_def q fr)
qed

lemma user_flush_inv:
  assumes inv: "sys_inv mview dview out fin_out careful rx ct s" and st: "sys_user s = Some st"
    and run: "stream_poll_complete E st (sys_world s) = (r, w')"
  shows "sys_inv mview dview out fin_out careful rx ct (s\<lparr>sys_world := w'\<rparr>)"
proof -
  note fr = poll_complete_pipe [OF run]
  have q: "queue mview h w' = queue mview h (sys_world s)" for h by (simp add: queue_def fr)
  have "ctx_inv mview dview careful rx ct (sys_sender s) c w' (sys_stopped s) (out (quic w')) (sys_accepted s)"
    if "sys_ctx s = Some c" for c
  proof -
    from inv that have c: "ctx_inv mview dview careful rx ct (sys_sender s) c (sys_world s) (sys_stopped s)
        (out (quic (sys_world s))) (sys_accepted s)" by (simp add: sys_inv_def)
    have "send_inv careful dview (sys_sender s) c (queue mview ct (sys_world s)) w'"
      by (rule send_inv_cong [where w = "sys_world s" and c = c]) (use c fr in \<open>simp_all add: ctx_inv_def\<close>)
    moreover have "byte_inv dview (sys_stopped s) (sys_sender s) c (queue mview ct (sys_world s)) w'
        (out (quic (sys_world s))) (sys_accepted s)" if careful
      by (rule byte_inv_cong [where w = "sys_world s" and c = c and stopped = "sys_stopped s"])
         (use c that fr in \<open>simp_all add: ctx_inv_def\<close>)
    ultimately show ?thesis using c by (simp add: ctx_inv_def q fr)
  qed
  with inv show ?thesis by (simp add: sys_inv_def mail_inv_def out_inv_def q fr)
qed

text \<open>A change of the message channels alone.\<close>

lemma mail_change_inv:
  assumes inv: "sys_inv mview dview out fin_out careful rx ct s"
    and w': "w' = (sys_world s)\<lparr>msgs := X\<rparr>" and mail: "mail_inv mview rx ct w'"
    and ct: "cv_open (mview (X ct)) = cv_open (mview (msgs (sys_world s) ct))"
      "swap_senders (queue mview ct w') = swap_senders (queue mview ct (sys_world s))"
      "swap_receivers (queue mview ct w') = swap_receivers (queue mview ct (sys_world s))"
    and user: "\<forall>st. su = Some st \<longrightarrow> st_recv_msg st = rx \<and> st_control_msg st = ct"
      "Option.bind su st_send_data = sys_sender s"
  shows "sys_inv mview dview out fin_out careful rx ct (s\<lparr>sys_user := su, sys_world := w'\<rparr>)"
proof -
  have chain: "recv_chain c (queue mview ct w') = recv_chain c (queue mview ct (sys_world s))" for c
    by (simp add: recv_chain_def ct)
  have live: "live_chain sw (queue mview ct w') = live_chain sw (queue mview ct (sys_world s))" for sw
    by (simp add: live_chain_def ct)
  have "send_inv careful dview u c (queue mview ct w') w' \<longleftrightarrow>
      send_inv careful dview u c (queue mview ct (sys_world s)) (sys_world s)" for c u
    unfolding send_inv_def held_inv_def chain live ct by (simp add: w' ctx_prompt_def data_prompt_def)
  moreover have "byte_inv dview stopped u c (queue mview ct w') w' o1 acc \<longleftrightarrow>
      byte_inv dview stopped u c (queue mview ct (sys_world s)) (sys_world s) o1 acc" for c stopped o1 acc and u :: "nat option"
    unfolding byte_inv_def inflight_bytes_def chain by (simp add: w')
  ultimately show ?thesis
    using inv mail ct(1) user by (simp add: sys_inv_def ctx_inv_def w')
qed

lemma user_poll_inv:
  assumes inv: "sys_inv mview dview out fin_out careful rx ct s" and st: "sys_user s = Some st"
    and run: "stream_poll E st (sys_world s) = Some (r, st', w')"
  shows "sys_inv mview dview out fin_out careful rx ct (s\<lparr>sys_user := Some st', sys_world := w'\<rparr>)"
proof -
  from inv st have h: "st_recv_msg st = rx" "st_control_msg st = ct" and mail: "mail_inv mview rx ct (sys_world s)"
    by (simp_all add: sys_inv_def)
  have clean: "\<forall>m\<in>set (cv_buffer (mview (msgs (sys_world s) (st_recv_msg st)))). \<not> is_swap m"
    using mail h by (simp add: mail_inv_def queue_def)
  obtain r2 st2 ch where p: "stream_poll E st (sys_world s) =
      Some (r2, st2, (sys_world s)\<lparr>msgs := (msgs (sys_world s))(st_recv_msg st := ch)\<rparr>)"
    "set (cv_buffer (mview ch)) \<subseteq> set (cv_buffer (mview (msgs (sys_world s) (st_recv_msg st))))"
    "st_recv_msg st2 = st_recv_msg st" "st_control_msg st2 = st_control_msg st" "st_send_data st2 = st_send_data st"
    by (rule user_poll_world [OF clean])
  with run have e: "st' = st2" "w' = (sys_world s)\<lparr>msgs := (msgs (sys_world s))(rx := ch)\<rparr>"
    by (simp_all add: h)
  show ?thesis
    by (rule mail_change_inv [OF inv e(2)])
       (use p(2-5) e mail h st clean in \<open>auto simp: mail_inv_def queue_def\<close>)
qed

lemma user_reset_inv:
  assumes inv: "sys_inv mview dview out fin_out careful rx ct s" and st: "sys_user s = Some st"
    and run: "stream_reset E st (sys_world s) = (r, w')"
  shows "sys_inv mview dview out fin_out careful rx ct (s\<lparr>sys_world := w'\<rparr>)"
proof -
  from inv st have h: "st_recv_msg st = rx" "st_control_msg st = ct" and mail: "mail_inv mview rx ct (sys_world s)"
    by (simp_all add: sys_inv_def)
  obtain ch b D where m: "msg_send E ct MReset (sys_world s) =
      (b, (sys_world s)\<lparr>msgs := (msgs (sys_world s))(ct := ch), datas := D\<rparr>)"
    "cv_open (mview ch) = cv_open (mview (msgs (sys_world s) ct))"
    "cv_buffer (mview ch) = cv_buffer (mview (msgs (sys_world s) ct)) @ (if b then [MReset] else [])"
    "b = cv_open (mview (msgs (sys_world s) ct))" "\<not> is_swap MReset \<Longrightarrow> D = datas (sys_world s)"
    by (rule msg_send_world [where h = ct and m = MReset and w = "sys_world s"]) blast
  with run have w': "w' = (sys_world s)\<lparr>msgs := (msgs (sys_world s))(ct := ch)\<rparr>"
    by (auto simp: stream_reset_def h)
  have "sys_inv mview dview out fin_out careful rx ct (s\<lparr>sys_user := sys_user s, sys_world := w'\<rparr>)"
    by (rule mail_change_inv [OF inv w'])
       (use m(2,3) mail inv in \<open>auto simp: w' mail_inv_def sys_inv_def queue_def\<close>)
  then show ?thesis by simp
qed

lemma user_resize_inv:
  assumes inv: "sys_inv mview dview out fin_out careful rx ct s" and st: "sys_user s = Some st"
    and may: "may_resize careful mview s" and run: "set_send_channel_size E sz st (sys_world s) = (st', w')"
  shows "sys_inv mview dview out fin_out careful rx ct (s\<lparr>sys_user := Some st', sys_world := w'\<rparr>)"
proof -
  from inv st have h: "st_recv_msg st = rx" "st_control_msg st = ct" and mail: "mail_inv mview rx ct (sys_world s)"
    by (simp_all add: sys_inv_def)
  obtain ch where w: "msgs w' = (msgs (sys_world s))(ct := ch)"
    "cv_open (mview ch) = cv_open (mview (msgs (sys_world s) ct))"
    "\<forall>m\<in>set (cv_buffer (mview ch)). m \<in> set (cv_buffer (mview (msgs (sys_world s) ct))) \<or> control_message m"
    "quic w' = quic (sys_world s)" "st_recv_msg st' = st_recv_msg st" "st_control_msg st' = st_control_msg st"
    "st_send_data st = None \<longrightarrow> st_send_data st' = None"
    using resize_world [OF run] unfolding h by blast
  have "ctx_inv mview dview careful rx ct (st_send_data st') c w' (sys_stopped s) (out (quic w')) (sys_accepted s)"
    if "sys_ctx s = Some c" for c
  proof -
    from inv that have c: "ctx_inv mview dview careful rx ct (sys_sender s) c (sys_world s) (sys_stopped s)
        (out (quic (sys_world s))) (sys_accepted s)" by (simp add: sys_inv_def)
    have u: "st_send_data st = sys_sender s" by (simp add: st)
    have len: "careful \<Longrightarrow> length (recv_chain c (queue mview ct (sys_world s))) \<le> 1"
      using may that c by (simp add: may_resize_def ctx_inv_def)
    from c have "send_inv careful dview (sys_sender s) c (queue mview ct (sys_world s)) (sys_world s)"
      by (simp add: ctx_inv_def)
    from this u obtain ch2 ms' where p: "msgs w' = (msgs (sys_world s))(ct := ch2)"
      "mview ch2 = mview (msgs (sys_world s) ct)\<lparr>cv_buffer := ms'\<rparr>"
      "send_inv careful dview (st_send_data st') c ms' w'"
      "\<And>stopped o1 acc. byte_inv dview stopped (sys_sender s) c (queue mview ct (sys_world s)) (sys_world s) o1 acc \<Longrightarrow>
         byte_inv dview stopped (st_send_data st') c ms' w' o1 acc"
      by (rule resize_pipe [where ms = "queue mview ct (sys_world s)" and w = "sys_world s" and st = st and c = c, OF _ _ _ _ len run, unfolded h])
         (use c in \<open>auto simp: ctx_inv_def queue_def\<close>)
    have "queue mview ct w' = ms'" using p(1,2) by (simp add: queue_def)
    with c p w(1,2,4) show ?thesis by (simp add: ctx_inv_def)
  qed
  with inv mail w st h show ?thesis
    by (auto simp: sys_inv_def mail_inv_def out_inv_def queue_def)
qed

lemma user_drop_inv:
  assumes inv: "sys_inv mview dview out fin_out careful rx ct s" and st: "sys_user s = Some st"
  shows "sys_inv mview dview out fin_out careful rx ct (s\<lparr>sys_user := None, sys_world := stream_drop E st (sys_world s)\<rparr>)"
proof -
  from inv st have h: "st_recv_msg st = rx" "st_control_msg st = ct" and mail: "mail_inv mview rx ct (sys_world s)"
    by (simp_all add: sys_inv_def)
  have pre: "\<forall>m\<in>set (cv_buffer (mview (msgs (sys_world s) (st_recv_msg st)))). \<not> is_swap m" "st_recv_msg st \<noteq> st_control_msg st"
    using mail h by (simp_all add: mail_inv_def queue_def)
  obtain ch1 ch2 where d: "stream_drop E st (sys_world s) =
      (let w' = (sys_world s)\<lparr>msgs := (msgs (sys_world s))(rx := ch1, ct := ch2)\<rparr>
       in case st_send_data st of Some h \<Rightarrow> data_drop_tx E h w' | None \<Rightarrow> w')"
    "cv_buffer (mview ch1) = []"
    "mview ch2 = mview (msgs (sys_world s) ct)\<lparr>cv_senders := cv_senders (mview (msgs (sys_world s) ct)) - 1\<rparr>"
    using stream_drop_world [OF pre] unfolding h by blast
  let ?w = "(sys_world s)\<lparr>msgs := (msgs (sys_world s))(rx := ch1, ct := ch2)\<rparr>"
  from mail d have m: "mail_inv mview rx ct ?w" by (simp add: mail_inv_def queue_def)
  have 1: "sys_inv mview dview out fin_out careful rx ct (s\<lparr>sys_user := sys_user s, sys_world := ?w\<rparr>)"
    by (rule mail_change_inv [OF inv refl m]) (use inv d mail in \<open>simp_all add: sys_inv_def queue_def mail_inv_def\<close>)
  show ?thesis
  proof (cases "st_send_data st")
    case None
    with 1 d st show ?thesis by (simp add: sys_inv_def)
  next
    case (Some k)
    have q: "queue mview x (data_drop_tx E k w) = queue mview x w" for x and w :: "('m, 'd, 'q, 'w) sworld"
      by (simp add: queue_def)
    define w1 where "w1 = ?w"
    from 1 have 1: "sys_inv mview dview out fin_out careful rx ct (s\<lparr>sys_world := w1\<rparr>)"
      unfolding w1_def by simp
    from d Some have drop: "stream_drop E st (sys_world s) = data_drop_tx E k w1" by (simp add: w1_def)
    have "ctx_inv mview dview careful rx ct None c (data_drop_tx E k w1) (sys_stopped s)
        (out (quic (data_drop_tx E k w1))) (sys_accepted s)" if "sys_ctx s = Some c" for c
    proof -
      from 1 that st Some have c: "ctx_inv mview dview careful rx ct (Some k) c w1 (sys_stopped s)
        (out (quic w1)) (sys_accepted s)" by (simp add: sys_inv_def)
      then show ?thesis
        using drop_sender_pipe [of careful k c "queue mview ct w1" w1]
          byte_inv_drop_tx [of "sys_stopped s" "Some k" c "queue mview ct w1" w1 "out (quic w1)" "sys_accepted s" k]
        by (simp add: ctx_inv_def q)
    qed
    with 1 st Some show ?thesis unfolding sys_inv_def mail_inv_def out_inv_def drop by (simp add: q)
  qed
qed

text \<open>The context's steps.\<close>

lemma ctx_inv_of:
  assumes "sys_inv mview dview out fin_out careful rx ct s" "sys_ctx s = Some c"
  shows "sc_recv_msg c = rx" "sc_control_msg c = ct" "cv_open (mview (msgs (sys_world s) ct))"
    "send_inv careful dview (sys_sender s) c (queue mview ct (sys_world s)) (sys_world s)"
    "careful \<Longrightarrow> byte_inv dview (sys_stopped s) (sys_sender s) c (queue mview ct (sys_world s)) (sys_world s)
       (out (quic (sys_world s))) (sys_accepted s)"
    "mail_inv mview rx ct (sys_world s)"
    "careful \<Longrightarrow> out_inv (out (quic (sys_world s))) (fin_out (quic (sys_world s))) (sys_stopped s)
        (sys_sender s) (sys_accepted s)"
  using assms by (simp_all add: sys_inv_def ctx_inv_def)

lemma ctx_change_inv:
  assumes inv: "sys_inv mview dview out fin_out careful rx ct s" and c: "sys_ctx s = Some c"
    and c': "ctx_inv mview dview careful rx ct (sys_sender s) c' w' stopped (out (quic w')) (sys_accepted s)"
    and mail: "mail_inv mview rx ct w'"
    and out: "careful \<Longrightarrow> out_inv (out (quic w')) (fin_out (quic w')) stopped (sys_sender s) (sys_accepted s)"
  shows "sys_inv mview dview out fin_out careful rx ct (s\<lparr>sys_ctx := Some c', sys_world := w', sys_stopped := stopped\<rparr>)"
  using assms by (simp add: sys_inv_def)

lemma out_inv_silent:
  assumes "out_inv (out q) (fin_out q) stopped u acc" "silent q q'" "stopped \<Longrightarrow> stopped'"
  shows "out_inv (out q') (fin_out q') stopped' u acc"
  using assms by (auto simp: out_inv_def silent_def)

lemma out_inv_append:
  assumes "out_inv o1 fin stopped u acc" "prefix (o1 @ sent) acc" "fin' \<longrightarrow> stopped \<or> u = None \<and> acc = o1 @ sent"
  shows "out_inv (o1 @ sent) (fin \<or> fin') stopped u acc"
proof -
  have "sent = []" if "o1 = acc" using assms(2) that by (auto simp: prefix_def)
  with assms show ?thesis unfolding out_inv_def by auto
qed

lemma prepare_inv:
  assumes inv: "sys_inv mview dview out fin_out careful rx ct s" and c: "sys_ctx s = Some c"
    and run: "handle_send_data E ptr len c (sys_world s) = Some (c', w')"
  shows "sys_inv mview dview out fin_out careful rx ct (s\<lparr>sys_ctx := Some c', sys_world := w', sys_stopped := sys_stopped s\<rparr>)"
proof -
  note ci = ctx_inv_of [OF inv c]
  obtain c2 w2 sent fin where p: "handle_send_data E ptr len c (sys_world s) = Some (c2, w2)"
    "send_inv careful dview (sys_sender s) c2 (queue mview ct (sys_world s)) w2"
    "out (quic w2) = out (quic (sys_world s)) @ sent" "fin_out (quic w2) \<longleftrightarrow> fin_out (quic (sys_world s)) \<or> fin"
    "\<And>stopped o1 acc. byte_inv dview stopped (sys_sender s) c (queue mview ct (sys_world s)) (sys_world s) o1 acc \<Longrightarrow>
       byte_inv dview stopped (sys_sender s) c2 (queue mview ct (sys_world s)) w2 (o1 @ sent) acc \<and>
       (fin \<longrightarrow> stopped \<or> sys_sender s = None \<and> acc = o1 @ sent)"
    "msgs w2 = msgs (sys_world s)" "fresh w2 = fresh (sys_world s)"
    "sc_recv_msg c2 = sc_recv_msg c" "sc_control_msg c2 = sc_control_msg c"
    by (rule handle_send_data_pipe [OF ci(4), of ptr len]) blast
  from p(1) run have e: "c' = c2" "w' = w2" by simp_all
  have q: "queue mview h w2 = queue mview h (sys_world s)" for h by (simp add: queue_def p)
  show ?thesis unfolding e
  proof (rule ctx_change_inv [OF inv c])
    show "ctx_inv mview dview careful rx ct (sys_sender s) c2 w2 (sys_stopped s) (out (quic w2)) (sys_accepted s)"
      unfolding ctx_inv_def q p(3)
    proof (intro conjI impI)
      show "sc_recv_msg c2 = rx" "sc_control_msg c2 = ct" using ci(1,2) p(8,9) by simp_all
      show "cv_open (mview (msgs w2 ct))" using ci(3) p(6) by simp
      show "byte_inv dview (sys_stopped s) (sys_sender s) c2 (queue mview ct (sys_world s)) w2
          (out (quic (sys_world s)) @ sent) (sys_accepted s)" if careful
        using p(5) [OF ci(5) [OF that]] by (rule conjunct1)
    qed (rule p(2))
    show "mail_inv mview rx ct w2" using ci(6) by (simp add: mail_inv_def q)
    assume careful: careful
    from p(5) [OF ci(5) [OF careful]] have b: "byte_inv dview (sys_stopped s) (sys_sender s) c2
        (queue mview ct (sys_world s)) w2 (out (quic (sys_world s)) @ sent) (sys_accepted s)"
      and f: "fin \<longrightarrow> sys_stopped s \<or> sys_sender s = None \<and> sys_accepted s = out (quic (sys_world s)) @ sent"
      by blast+
    from b have pre: "prefix (out (quic (sys_world s)) @ sent) (sys_accepted s)"
      by (metis byte_inv_def append_prefixD)
    show "out_inv (out (quic w2)) (fin_out (quic w2)) (sys_stopped s) (sys_sender s) (sys_accepted s)"
      unfolding p(3,4) by (rule out_inv_append [OF ci(7) [OF careful] pre f])
  qed
qed

lemma stop_pipe:
  assumes "sc_send_data c' = None" "sc_active_buffer c' = sc_active_buffer c" "fresh w' = fresh w"
  shows "send_inv careful dview u c ms w \<Longrightarrow> send_inv careful dview u c' ms w'"
    and "byte_inv dview stopped u c ms w o1 acc \<Longrightarrow> byte_inv dview True u c' ms w' o1 acc"
  using assms by (auto simp: send_inv_def byte_inv_def recv_chain_def ctx_prompt_def)

lemma callback_inv:
  assumes inv: "sys_inv mview dview out fin_out careful rx ct s" and c: "sys_ctx s = Some c"
    and run: "stream_handle_callback E ptr len event c (sys_world s) = Some (c', w')"
  shows "sys_inv mview dview out fin_out careful rx ct
    (s\<lparr>sys_ctx := Some c', sys_world := w', sys_stopped := (sys_stopped s \<or> event = callback_stop_sending)\<rparr>)"
proof (cases "event = callback_prepare_to_send")
  case True
  with run prepare_inv [OF inv c] show ?thesis by (simp add: stream_handle_callback_def)
next
  case False
  note ci = ctx_inv_of [OF inv c]
  obtain c2 w2 ch where p: "stream_handle_callback E ptr len event c (sys_world s) = Some (c2, w2)"
    "msgs w2 = (msgs (sys_world s))(sc_recv_msg c := ch)"
    "\<And>m. m \<in> set (cv_buffer (mview ch)) \<Longrightarrow> \<not> is_swap m \<or> m \<in> set (cv_buffer (mview (msgs (sys_world s) (sc_recv_msg c))))"
    "sc_send_data c2 = (if event = callback_stop_sending then None else sc_send_data c)"
    "sc_active_buffer c2 = sc_active_buffer c"
    "sc_recv_msg c2 = sc_recv_msg c" "sc_control_msg c2 = sc_control_msg c"
    "event \<noteq> callback_stop_sending \<Longrightarrow> datas w2 = datas (sys_world s)"
    "fresh w2 = fresh (sys_world s)" "silent (quic (sys_world s)) (quic w2)"
    by (rule callback_pipe [OF False, of ptr len c "sys_world s"]) blast
  from p(1) run have e: "c' = c2" "w' = w2" by simp_all
  have ne: "rx \<noteq> ct" using ci(6) by (simp add: mail_inv_def)
  have q: "queue mview ct w2 = queue mview ct (sys_world s)" using p(2) ci(1) ne by (simp add: queue_def)
  have inbox: "\<forall>m\<in>set (queue mview rx w2). \<not> is_swap m"
    using p(2,3) ci(1,6) by (auto simp: queue_def mail_inv_def)
  have out: "out (quic w2) = out (quic (sys_world s))" using p(10) by (simp add: silent_def)
  show ?thesis unfolding e
  proof (rule ctx_change_inv [OF inv c])
    show "ctx_inv mview dview careful rx ct (sys_sender s) c2 w2 (sys_stopped s \<or> event = callback_stop_sending)
      (out (quic w2)) (sys_accepted s)"
    proof (cases "event = callback_stop_sending")
      case True
      with p have "sc_send_data c2 = None" by simp
      note st = stop_pipe [OF this p(5,9)]
      from True ci(1-3) p(2,6,7) ne st(1) [OF ci(4)] st(2) [OF ci(5)] show ?thesis
        by (simp add: ctx_inv_def q out)
    next
      case False
      with p have "sc_send_data c2 = sc_send_data c" "datas w2 = datas (sys_world s)" by simp_all
      note same = inv_same [OF this(1) p(5) this(2) p(9)]
      from False ci(1-3) p(2,6,7) ne same(1) [OF ci(4)] same(2) [OF ci(5)] show ?thesis
        by (simp add: ctx_inv_def q out)
    qed
    show "mail_inv mview rx ct w2" using ci(6) inbox ne q by (simp add: mail_inv_def)
  qed (rule out_inv_silent [OF ci(7) p(10)], simp_all)
qed

lemma context_poll_inv:
  assumes inv: "sys_inv mview dview out fin_out careful rx ct s" and c: "sys_ctx s = Some c"
    and run: "stream_context_poll E c (sys_world s) = Some (r, c', w')"
  shows "sys_inv mview dview out fin_out careful rx ct
    (s\<lparr>sys_ctx := Some c', sys_world := w',
       sys_stopped := (sys_stopped s \<or> MReset \<in> set (queue mview (sc_control_msg c) (sys_world s)))\<rparr>)"
proof -
  note ci = ctx_inv_of [OF inv c]
  let ?ms = "queue mview ct (sys_world s)"
  have ms: "?ms = cv_buffer (mview (msgs (sys_world s) (sc_control_msg c)))" "\<forall>m\<in>set ?ms. control_message m"
    using ci(2,6) by (simp_all add: queue_def mail_inv_def)
  obtain r2 c2 w2 ch where p: "stream_context_poll E c (sys_world s) = Some (r2, c2, w2)"
    "send_inv careful dview (sys_sender s) c2 [] w2"
    "\<And>stopped o1 acc. careful \<Longrightarrow> byte_inv dview stopped (sys_sender s) c ?ms (sys_world s) o1 acc \<Longrightarrow>
       byte_inv dview (stopped \<or> MReset \<in> set ?ms) (sys_sender s) c2 [] w2 o1 acc"
    "silent (quic (sys_world s)) (quic w2)" "msgs w2 = (msgs (sys_world s))(sc_control_msg c := ch)"
    "mview ch = mview (msgs (sys_world s) (sc_control_msg c))\<lparr>cv_buffer := []\<rparr>"
    "fresh w2 = fresh (sys_world s)" "sc_recv_msg c2 = sc_recv_msg c" "sc_control_msg c2 = sc_control_msg c"
    by (rule stream_context_poll_pipe [OF ci(4) ms]) blast
  from p(1) run have e: "c' = c2" "w' = w2" by simp_all
  have ne: "rx \<noteq> ct" using ci(6) by (simp add: mail_inv_def)
  have q: "queue mview ct w2 = []" "queue mview rx w2 = queue mview rx (sys_world s)"
    using p(5,6) ci(2) ne by (simp_all add: queue_def)
  have out: "out (quic w2) = out (quic (sys_world s))" using p(4) by (simp add: silent_def)
  show ?thesis unfolding e ci(2)
  proof (rule ctx_change_inv [OF inv c])
    show "ctx_inv mview dview careful rx ct (sys_sender s) c2 w2 (sys_stopped s \<or> MReset \<in> set ?ms)
      (out (quic w2)) (sys_accepted s)"
      using ci(1-3) p(2,8,9) p(3) [OF _ ci(5)] p(5,6) q out by (simp add: ctx_inv_def)
    show "mail_inv mview rx ct w2" using ci(6) q by (simp add: mail_inv_def)
  qed (rule out_inv_silent [OF ci(7) p(4)], simp_all)
qed

lemma ctx_inv_same:
  assumes ci: "ctx_inv mview dview careful rx ct u c w stopped o1 acc"
    and c': "sc_recv_msg c' = sc_recv_msg c" "sc_control_msg c' = sc_control_msg c"
      "sc_send_data c' = sc_send_data c" "sc_active_buffer c' = sc_active_buffer c"
    and w': "mview (msgs w' ct) = mview (msgs w ct)" "fresh w \<le> fresh w'"
      "\<And>h. h \<in> set (recv_chain c (queue mview ct w)) \<Longrightarrow> same_ends dview (datas w) (datas w') h"
      "\<And>h. h \<in> set (recv_chain c (queue mview ct w)) \<Longrightarrow>
         chan_items dview h (datas w') = chan_items dview h (datas w)"
  shows "ctx_inv mview dview careful rx ct u c' w' stopped o1 acc"
proof -
  have q: "queue mview ct w' = queue mview ct w" by (simp add: queue_def w')
  from ci have "send_inv careful dview u c (queue mview ct w) w" by (simp add: ctx_inv_def)
  then have "send_inv careful dview u c' (queue mview ct w) w'"
    by (rule send_inv_cong [OF _ c'(3) w'(2) w'(3)])
  moreover have "byte_inv dview stopped u c' (queue mview ct w) w' o1 acc" if careful
  proof (rule byte_inv_cong [OF _ c'(4,3) w'(4)])
    from ci that show "byte_inv dview stopped u c (queue mview ct w) w o1 acc" by (simp add: ctx_inv_def)
  qed
  ultimately show ?thesis using ci c' w'(1) by (simp add: ctx_inv_def q)
qed

lemma recv_message_inv:
  assumes inv: "sys_inv mview dview out fin_out careful rx ct s" and c: "sys_ctx s = Some c"
    and m: "\<not> is_swap m" and run: "recv_message E c m (sys_world s) = (c', w')"
  shows "sys_inv mview dview out fin_out careful rx ct (s\<lparr>sys_ctx := Some c', sys_world := w'\<rparr>)"
proof -
  note ci = ctx_inv_of [OF inv c]
  obtain ch where p: "msgs w' = (msgs (sys_world s))(sc_recv_msg c := ch)"
    "set (cv_buffer (mview ch)) \<subseteq> insert m (set (cv_buffer (mview (msgs (sys_world s) (sc_recv_msg c)))))"
    "sc_send_data c' = sc_send_data c" "sc_active_buffer c' = sc_active_buffer c"
    "sc_recv_msg c' = sc_recv_msg c" "sc_control_msg c' = sc_control_msg c"
    "datas w' = datas (sys_world s)" "fresh w' = fresh (sys_world s)" "silent (quic (sys_world s)) (quic w')"
    by (rule recv_message_pipe [OF m run])
  have ne: "rx \<noteq> ct" using ci(6) by (simp add: mail_inv_def)
  have "ctx_inv mview dview careful rx ct (sys_sender s) c' w' (sys_stopped s)
      (out (quic (sys_world s))) (sys_accepted s)"
    by (rule ctx_inv_same [where c = c and w = "sys_world s"])
       (use inv c p ne ci(1) in \<open>simp_all add: sys_inv_def same_ends_def\<close>)
  moreover have "mail_inv mview rx ct w'"
    using ci(1,6) p(1,2) m ne by (auto simp: mail_inv_def queue_def)
  moreover have "out (quic w') = out (quic (sys_world s))" using p(9) by (simp add: silent_def)
  ultimately have "sys_inv mview dview out fin_out careful rx ct
      (s\<lparr>sys_ctx := Some c', sys_world := w', sys_stopped := sys_stopped s\<rparr>)"
    by (intro ctx_change_inv [OF inv c] out_inv_silent [OF ci(7) p(9)]) simp_all
  then show ?thesis by simp
qed

lemma connection_error_inv:
  assumes inv: "sys_inv mview dview out fin_out careful rx ct s" and c: "sys_ctx s = Some c"
    and run: "handle_connection_error E err c (sys_world s) = (c', w')"
  shows "sys_inv mview dview out fin_out careful rx ct (s\<lparr>sys_ctx := Some c', sys_world := w'\<rparr>)"
proof -
  obtain c1 w1 where r: "recv_message E c (MError (err ())) (sys_world s) = (c1, w1)" by fastforce
  have 1: "sys_inv mview dview out fin_out careful rx ct (s\<lparr>sys_ctx := Some c1, sys_world := w1\<rparr>)"
    by (rule recv_message_inv [OF inv c _ r]) simp
  have c1: "c' = c1" using run r by (auto simp: handle_connection_error_def Let_def split: option.splits)
  have w: "msgs w' = msgs w1" "fresh w' = fresh w1" "quic w' = quic w1"
    "same_ends dview (datas w1) (datas w') h" "chan_items dview h (datas w') = chan_items dview h (datas w1)" for h
    using run r
    by (auto simp: handle_connection_error_def Let_def same_ends_def chan_items_def dch.propagate_error_view
        split: option.splits if_splits)
  have q: "queue mview h w' = queue mview h w1" for h by (simp add: queue_def w)
  have ci: "ctx_inv mview dview careful rx ct (sys_sender s) c1 w1 (sys_stopped s) (out (quic w1)) (sys_accepted s)"
    using 1 by (simp add: sys_inv_def)
  have "ctx_inv mview dview careful rx ct (sys_sender s) c1 w' (sys_stopped s) (out (quic w1)) (sys_accepted s)"
    by (rule ctx_inv_same [OF ci]) (simp_all add: w)
  with 1 show ?thesis by (simp add: sys_inv_def mail_inv_def q c1 w)
qed

lemma context_drop_inv:
  assumes inv: "sys_inv mview dview out fin_out careful rx ct s" and c: "sys_ctx s = Some c"
  shows "sys_inv mview dview out fin_out careful rx ct
    (s\<lparr>sys_ctx := None, sys_world := stream_context_drop E c (sys_world s)\<rparr>)"
proof -
  note ci = ctx_inv_of [OF inv c]
  let ?w = "stream_context_drop E c (sys_world s)"
  have ne: "rx \<noteq> ct" using ci(6) by (simp add: mail_inv_def)
  obtain ch b D where m: "msg_send E rx MClose (sys_world s) =
      (b, (sys_world s)\<lparr>msgs := (msgs (sys_world s))(rx := ch), datas := D\<rparr>)"
    "cv_buffer (mview ch) = queue mview rx (sys_world s) @ (if b then [MClose] else [])"
    using msg_send_world [where h = rx and m = MClose and w = "sys_world s"] unfolding queue_def by metis
  have q: "quic ?w = quic (sys_world s)" "queue mview ct ?w = []"
    "queue mview rx ?w = queue mview rx (sys_world s) @ (if b then [MClose] else [])"
    using m ne ci(1,2)
    by (simp_all add: stream_context_drop_def Let_def split_beta msg_drop_rx_def msg_drop_tx_def queue_def
        mch.view_of_drop_tx mch.drop_rx_snd)
  with inv ci(6) show ?thesis by (auto simp: sys_inv_def mail_inv_def)
qed

lemma others_inv:
  assumes inv: "sys_inv mview dview out fin_out careful rx ct s"
    and msgs: "\<forall>h \<in> sys_msg_handles s. msgs w' h = msgs (sys_world s) h"
    and datas: "\<forall>h \<in> sys_data_handles mview s. datas w' h = datas (sys_world s) h"
    and fresh: "fresh (sys_world s) \<le> fresh w'"
    and out: "out (quic w') = out (quic (sys_world s))" "fin_out (quic w') = fin_out (quic (sys_world s))"
  shows "sys_inv mview dview out fin_out careful rx ct (s\<lparr>sys_world := w'\<rparr>)"
proof -
  have ctx: "ctx_inv mview dview careful rx ct (sys_sender s) c w' (sys_stopped s) (out (quic w')) (sys_accepted s)"
    if c: "sys_ctx s = Some c" for c
  proof -
    note ci = ctx_inv_of [OF inv c]
    have m: "mview (msgs w' ct) = mview (msgs (sys_world s) ct)"
      using msgs c ci(2) by (simp add: sys_msg_handles_def)
    have d: "datas w' h = datas (sys_world s) h" if "h \<in> set (recv_chain c (queue mview ct (sys_world s)))" for h
      using datas c ci(2) that by (simp add: sys_data_handles_def)
    have old: "ctx_inv mview dview careful rx ct (sys_sender s) c (sys_world s) (sys_stopped s)
        (out (quic w')) (sys_accepted s)"
      using inv c out by (simp add: sys_inv_def)
    show ?thesis
      by (rule ctx_inv_same [OF old refl refl refl refl m fresh]) (simp_all add: same_ends_def chan_items_def d)
  qed
  have "mail_inv mview rx ct w'" if "sys_user s \<noteq> None \<or> sys_ctx s \<noteq> None"
  proof -
    have "rx \<in> sys_msg_handles s \<and> ct \<in> sys_msg_handles s"
      using that inv by (auto simp: sys_inv_def ctx_inv_def sys_msg_handles_def split: option.splits)
    moreover from that inv have "mail_inv mview rx ct (sys_world s)" unfolding sys_inv_def by blast
    ultimately show ?thesis using msgs by (simp add: mail_inv_def queue_def)
  qed
  with inv ctx out show ?thesis by (simp add: sys_inv_def)
qed

text \<open>The start: two empty message channels, and an empty data channel whose sender the user
  holds if the stream may send.\<close>

lemma start_inv:
  assumes run: "stream_new E sid cnx la ic sz w = Some (st, c, w')"
    and out: "out (quic w) = []" "\<not> fin_out (quic w)"
  shows "sys_inv mview dview out fin_out careful (fresh w) (Suc (fresh w))
    \<lparr>sys_user = Some st, sys_ctx = Some c, sys_world = w', sys_accepted = [], sys_stopped = False\<rparr>"
proof -
  note n = stream_new_world [OF run]
  have q: "queue mview (fresh w) w' = []" "queue mview (Suc (fresh w)) w' = []"
    using n by (simp_all add: queue_def view_new_def)
  have chain: "recv_chain c [] = (case st_send_data st of Some h \<Rightarrow> [h] | None \<Rightarrow> [])"
    using n(9) by (simp add: recv_chain_def swappable_chain_def swappable_new_def split: option.split)
  have "send_inv careful dview (st_send_data st) c [] w'"
    using n(9,10) unfolding send_inv_def chain
    by (auto simp: held_inv_def live_chain_def swappable_chain_def swappable_new_def has_sender_def accepts_def
        view_new_def ctx_prompt_def data_prompt_def split: option.split)
  moreover have "byte_inv dview False (st_send_data st) c [] w' [] []"
    using n(8,9,10) by (auto simp: byte_inv_def inflight_bytes_def chain chan_items_def view_new_def split: option.split)
  ultimately show ?thesis
    using n(1-7) out by (simp add: inv_defs q view_new_def)
qed

text \<open>Every reachable state satisfies the invariant.\<close>

lemma stream_step_inv:
  assumes "stream_step E mview out fin_out careful s s'" "sys_inv mview dview out fin_out careful rx ct s"
  shows "sys_inv mview dview out fin_out careful rx ct s'"
  using assms
proof (induction rule: stream_step.induct)
  case (ctx_close s c c' w')
  then show ?case by (intro recv_message_inv [where m = MClose]) (simp_all add: handle_connection_close_def)
next
  case (others s w')
  then show ?case by (intro others_inv)
qed (blast intro: user_send_inv user_flush_inv user_poll_inv user_reset_inv user_resize_inv user_drop_inv
    callback_inv context_poll_inv connection_error_inv context_drop_inv)+

lemma stream_reach_inv:
  assumes "stream_reach E mview out fin_out careful s"
  obtains rx ct where "sys_inv mview dview out fin_out careful rx ct s"
  using assms by (induction rule: stream_reach.induct) (blast intro: start_inv stream_step_inv)+


text \<open>What the states say of the stream, in any order of the steps.\<close>

lemma reach_returns:
  assumes "stream_reach E mview out fin_out careful s"
  shows "sys_user s = Some st \<Longrightarrow> \<exists>r st' w'. stream_poll E st (sys_world s) = Some (r, st', w')"
    and "sys_ctx s = Some c \<Longrightarrow> \<exists>c' w'. stream_handle_callback E ptr len event c (sys_world s) = Some (c', w')"
    and "sys_ctx s = Some c \<Longrightarrow> \<exists>r c' w'. stream_context_poll E c (sys_world s) = Some (r, c', w')"
proof -
  from assms obtain rx ct where inv: "sys_inv mview dview out fin_out careful rx ct s" by (rule stream_reach_inv)
  show "\<exists>r st' w'. stream_poll E st (sys_world s) = Some (r, st', w')" if "sys_user s = Some st"
  proof -
    have "\<forall>m\<in>set (cv_buffer (mview (msgs (sys_world s) (st_recv_msg st)))). \<not> is_swap m"
      using inv that by (simp add: sys_inv_def mail_inv_def queue_def)
    then show ?thesis by (rule user_poll_world) blast
  qed
  show "\<exists>c' w'. stream_handle_callback E ptr len event c (sys_world s) = Some (c', w')" if c: "sys_ctx s = Some c"
  proof (cases "event = callback_prepare_to_send")
    case True
    obtain c' w' where "handle_send_data E ptr len c (sys_world s) = Some (c', w')"
      by (rule handle_send_data_pipe [OF ctx_inv_of(4) [OF inv c], of ptr len]) blast
    with True show ?thesis by (simp add: stream_handle_callback_def)
  next
    case False
    then show ?thesis by (rule callback_pipe [of event ptr len c "sys_world s"]) blast
  qed
  show "\<exists>r c' w'. stream_context_poll E c (sys_world s) = Some (r, c', w')" if c: "sys_ctx s = Some c"
  proof -
    note ci = ctx_inv_of [OF inv c]
    show ?thesis
      by (rule stream_context_poll_pipe [OF ci(4)])
         (use ci(2,6) in \<open>auto simp: queue_def mail_inv_def\<close>)
  qed
qed

lemma reach_out_inv:
  assumes "stream_reach E mview out fin_out True s"
  shows "out_inv (out (quic (sys_world s))) (fin_out (quic (sys_world s))) (sys_stopped s) (sys_sender s) (sys_accepted s)"
proof -
  from assms obtain rx ct where "sys_inv mview dview out fin_out True rx ct s" by (rule stream_reach_inv)
  then show ?thesis by (simp add: sys_inv_def)
qed

text \<open>A poll of the context followed by a request of picoquic for \<open>n\<close> bytes hands over the next
  \<open>n\<close> of all the bytes that were accepted, and the end of the stream if they are the last.\<close>

lemma reach_drains:
  assumes reach: "stream_reach E mview out fin_out True s" and c: "sys_ctx s = Some c"
    and on: "\<not> sys_stopped s" "MReset \<notin> set (queue mview (sc_control_msg c) (sys_world s))"
  obtains r c1 w1 c2 w2 where "stream_context_poll E c (sys_world s) = Some (r, c1, w1)"
    "stream_handle_callback E ptr n callback_prepare_to_send c1 w1 = Some (c2, w2)"
    "out (quic w2) = take (length (out (quic (sys_world s))) + n) (sys_accepted s)"
    "sys_sender s = None \<and> length (sys_accepted s) \<le> length (out (quic (sys_world s))) + n \<longrightarrow> fin_out (quic w2)"
proof -
  from reach obtain rx ct where inv: "sys_inv mview dview out fin_out True rx ct s" by (rule stream_reach_inv)
  note ci = ctx_inv_of [OF inv c]
  let ?ms = "queue mview ct (sys_world s)" and ?o = "out (quic (sys_world s))"
  have ms: "?ms = cv_buffer (mview (msgs (sys_world s) (sc_control_msg c)))" "\<forall>m\<in>set ?ms. control_message m"
    using ci(2,6) by (simp_all add: queue_def mail_inv_def)
  obtain r c1 w1 where p: "stream_context_poll E c (sys_world s) = Some (r, c1, w1)"
    "send_inv True dview (sys_sender s) c1 [] w1"
    "\<And>stopped o1 acc. True \<Longrightarrow> byte_inv dview stopped (sys_sender s) c ?ms (sys_world s) o1 acc \<Longrightarrow>
       byte_inv dview (stopped \<or> MReset \<in> set ?ms) (sys_sender s) c1 [] w1 o1 acc"
    "silent (quic (sys_world s)) (quic w1)"
    by (rule stream_context_poll_pipe [OF ci(4) ms]) blast
  have "byte_inv dview False (sys_sender s) c1 [] w1 ?o (sys_accepted s)"
    using p(3) [OF TrueI ci(5) [OF TrueI]] on ci(2) by simp
  then have acc: "sys_accepted s = ?o @ pending_bytes dview c1 w1"
    by (cases "sc_send_data c1") (simp_all add: byte_inv_def pending_bytes_def pending_bytes_inflight [symmetric])
  obtain c2 w2 fin where h: "handle_send_data E ptr n c1 w1 = Some (c2, w2)"
    "out (quic w2) = out (quic w1) @ take n (pending_bytes dview c1 w1)"
    "fin_out (quic w2) \<longleftrightarrow> fin_out (quic w1) \<or> fin"
    "fin \<longleftrightarrow> send_ended dview c1 w1 \<and> length (pending_bytes dview c1 w1) \<le> n"
    by (rule handle_send_data_pipe [OF p(2), of ptr n]) blast
  show ?thesis
  proof (rule that [OF p(1)])
    show "stream_handle_callback E ptr n callback_prepare_to_send c1 w1 = Some (c2, w2)"
      using h(1) by (simp add: stream_handle_callback_def)
    show "out (quic w2) = take (length ?o + n) (sys_accepted s)"
      using h(2) p(4) by (simp add: acc silent_def)
    show "sys_sender s = None \<and> length (sys_accepted s) \<le> length ?o + n \<longrightarrow> fin_out (quic w2)"
      using h(3,4) p(2) send_inv_ended [of True dview c1 w1] by (auto simp: acc)
  qed
qed

text \<open>Every step only adds to what was accepted and handed over, and nothing is accepted any more
  once the user's sender is gone.\<close>

definition grows :: "('m, 'd, 'q, 'w) stream_sys \<Rightarrow> ('m, 'd, 'q, 'w) stream_sys \<Rightarrow> bool" where
  "grows s s' \<longleftrightarrow>
     prefix (out (quic (sys_world s))) (out (quic (sys_world s'))) \<and>
     (fin_out (quic (sys_world s)) \<longrightarrow> fin_out (quic (sys_world s'))) \<and>
     (\<exists>bs. sys_accepted s' = sys_accepted s @ bs \<and> (bs \<noteq> [] \<longrightarrow> sys_sender s \<noteq> None)) \<and>
     (sys_stopped s \<longrightarrow> sys_stopped s') \<and> (sys_sender s = None \<longrightarrow> sys_sender s' = None)"

lemma growsI:
  assumes "silent (quic (sys_world s)) (quic (sys_world s'))" "sys_accepted s' = sys_accepted s"
    "sys_stopped s \<Longrightarrow> sys_stopped s'" "sys_sender s = None \<Longrightarrow> sys_sender s' = None"
  shows "grows s s'"
  using assms by (simp add: grows_def silent_def)

lemma user_quic:
  "stream_poll E st w = Some (r, st', w') \<Longrightarrow> quic w' = quic w \<and> st_send_data st' = st_send_data st"
  "stream_reset E st w = (rr, w') \<Longrightarrow> quic w' = quic w"
  "quic (stream_drop E st w) = quic w"
  "quic (stream_context_drop E c w) = quic w"
  by (auto simp: stream_poll_def msg_poll_def stream_reset_def msg_send_def stream_drop_def stream_context_drop_def
      msg_drop_rx_def msg_drop_tx_def data_drop_tx_def Let_def split_beta
      split: prod.splits result.splits async.splits option.splits message.splits)

lemma connection_error_silent:
  assumes "handle_connection_error E err c w = (c', w')"
  shows "silent (quic w) (quic w')"
proof -
  obtain c1 w1 where r: "recv_message E c (MError (err ())) w = (c1, w1)" by fastforce
  have "silent (quic w) (quic w1)" by (rule recv_message_pipe [OF _ r]) simp_all
  moreover have "quic w' = quic w1"
    using assms r by (auto simp: handle_connection_error_def Let_def split: option.splits)
  ultimately show ?thesis by simp
qed

lemma callback_grows:
  assumes inv: "sys_inv mview dview out fin_out careful rx ct s" and c: "sys_ctx s = Some c"
    and run: "stream_handle_callback E ptr len event c (sys_world s) = Some (c', w')"
  shows "grows s (s\<lparr>sys_ctx := Some c', sys_world := w', sys_stopped := (sys_stopped s \<or> event = callback_stop_sending)\<rparr>)"
proof (cases "event = callback_prepare_to_send")
  case True
  obtain c2 w2 sent fin where "handle_send_data E ptr len c (sys_world s) = Some (c2, w2)"
    "out (quic w2) = out (quic (sys_world s)) @ sent" "fin_out (quic w2) \<longleftrightarrow> fin_out (quic (sys_world s)) \<or> fin"
    by (rule handle_send_data_pipe [OF ctx_inv_of(4) [OF inv c], of ptr len]) blast
  with True run show ?thesis by (simp add: grows_def stream_handle_callback_def)
next
  case False
  obtain c2 w2 where "stream_handle_callback E ptr len event c (sys_world s) = Some (c2, w2)"
    "silent (quic (sys_world s)) (quic w2)"
    by (rule callback_pipe [OF False, of ptr len c "sys_world s"]) blast
  with run show ?thesis by (intro growsI) simp_all
qed

lemma stream_step_grows:
  assumes "stream_step E mview out fin_out careful s s'" "sys_inv mview dview out fin_out careful rx ct s"
  shows "grows s s'"
  using assms
proof (induction rule: stream_step.induct)
  case (user_send s st item r w')
  then show ?case using start_send_frame(3,4) [OF user_send(2)] by (auto simp: grows_def)
next
  case (user_flush s st rc w')
  then show ?case by (intro growsI) (simp_all add: silent_def poll_complete_pipe)
next
  case (user_poll s st rp st' w')
  then show ?case using user_quic(1) [OF user_poll(2)] by (intro growsI) (simp_all add: silent_def)
next
  case (user_reset s st rr w')
  then show ?case by (intro growsI) (simp_all add: silent_def user_quic)
next
  case (user_resize s st sz st' w')
  have "quic w' = quic (sys_world s)" "st_send_data st = None \<longrightarrow> st_send_data st' = None"
    by (rule resize_world [OF user_resize(3)], simp)+
  with user_resize show ?case by (intro growsI) (simp_all add: silent_def)
next
  case (user_drop s st w')
  then show ?case by (intro growsI) (auto simp: silent_def user_quic)
next
  case (ctx_callback s c ptr len event c' w')
  then show ?case by (intro callback_grows)
next
  case (ctx_poll s c rx' c' w')
  note ci = ctx_inv_of [OF ctx_poll(3,1)]
  have ms: "queue mview ct (sys_world s) = cv_buffer (mview (msgs (sys_world s) (sc_control_msg c)))"
    "\<forall>m\<in>set (queue mview ct (sys_world s)). control_message m"
    using ci(2,6) by (simp_all add: queue_def mail_inv_def)
  obtain r2 c2 w2 where "stream_context_poll E c (sys_world s) = Some (r2, c2, w2)"
    "silent (quic (sys_world s)) (quic w2)"
    by (rule stream_context_poll_pipe [OF ci(4) ms]) blast
  with ctx_poll(2) show ?case by (intro growsI) simp_all
next
  case (ctx_error s c err c' w')
  then show ?case using connection_error_silent [OF ctx_error(2)] by (intro growsI) simp_all
next
  case (ctx_close s c c' w')
  have "silent (quic (sys_world s)) (quic w')"
    by (rule recv_message_pipe [OF _ ctx_close(2) [unfolded handle_connection_close_def]]) simp_all
  then show ?case by (intro growsI) simp_all
next
  case (ctx_drop s c w')
  then show ?case by (intro growsI) (auto simp: silent_def user_quic)
next
  case (others s w')
  then show ?case by (intro growsI) (simp_all add: silent_def)
qed

end

section \<open>The specification\<close>

text \<open>A pipe: bytes are accepted until it is closed, they are delivered in order, and it is finished
  only when it is closed and everything was delivered, or when it was stopped.\<close>

record pipe =
  accepted :: bytes
  delivered :: bytes
  closed :: bool
  finished :: bool
  stopped :: bool

inductive pipe_step :: "pipe \<Rightarrow> pipe \<Rightarrow> bool" where
  pipe_accept: "\<not> closed p \<Longrightarrow> pipe_step p (p\<lparr>accepted := accepted p @ bs\<rparr>)"
| pipe_deliver: "prefix (delivered p @ bs) (accepted p) \<Longrightarrow> pipe_step p (p\<lparr>delivered := delivered p @ bs\<rparr>)"
| pipe_close: "pipe_step p (p\<lparr>closed := True\<rparr>)"
| pipe_stop: "pipe_step p (p\<lparr>stopped := True\<rparr>)"
| pipe_finish: "stopped p \<or> closed p \<and> delivered p = accepted p \<Longrightarrow> pipe_step p (p\<lparr>finished := True\<rparr>)"

definition sys_pipe where
  "sys_pipe out fin_out s =
     \<lparr>accepted = sys_accepted s, delivered = out (quic (sys_world s)), closed = (sys_sender s = None),
      finished = fin_out (quic (sys_world s)), stopped = sys_stopped s\<rparr>"

text \<open>Whatever grows and satisfies the invariant in the end is made of steps of the pipe.\<close>

lemma pipe_steps:
  assumes "\<not> closed p \<or> bs = []" "prefix (delivered p @ ds) (accepted p @ bs)"
    and "closed p \<Longrightarrow> cl" "stopped p \<Longrightarrow> sto" "finished p \<Longrightarrow> fin"
    and "fin \<Longrightarrow> sto \<or> cl \<and> delivered p @ ds = accepted p @ bs"
  shows "pipe_step\<^sup>*\<^sup>* p \<lparr>accepted = accepted p @ bs, delivered = delivered p @ ds, closed = cl, finished = fin, stopped = sto\<rparr>"
proof -
  define p1 where "p1 = p\<lparr>accepted := accepted p @ bs\<rparr>"
  define p2 where "p2 = (if cl then p1\<lparr>closed := True\<rparr> else p1)"
  define p3 where "p3 = (if sto then p2\<lparr>stopped := True\<rparr> else p2)"
  define p4 where "p4 = p3\<lparr>delivered := delivered p3 @ ds\<rparr>"
  define p5 where "p5 = (if fin then p4\<lparr>finished := True\<rparr> else p4)"
  note p = p1_def p2_def p3_def p4_def p5_def
  have "pipe_step\<^sup>*\<^sup>* p p1" using assms(1) pipe_accept [of p bs] by (cases "bs = []") (auto simp: p1_def)
  also have "pipe_step\<^sup>*\<^sup>* p1 p2" using pipe_close [of p1] by (auto simp: p2_def)
  also have "pipe_step\<^sup>*\<^sup>* p2 p3" using pipe_stop [of p2] by (auto simp: p3_def)
  also have "pipe_step\<^sup>*\<^sup>* p3 p4"
    unfolding p4_def by (intro r_into_rtranclp pipe_deliver) (use assms(2) in \<open>simp add: p\<close>)
  also have "pipe_step\<^sup>*\<^sup>* p4 p5"
  proof (cases fin)
    case True
    have "stopped p4 \<or> closed p4 \<and> delivered p4 = accepted p4"
      using assms(6) [OF True] by (auto simp: p)
    with True show ?thesis unfolding p5_def by (auto intro: pipe_finish)
  qed (simp add: p5_def)
  also have "p5 = \<lparr>accepted = accepted p @ bs, delivered = delivered p @ ds, closed = cl, finished = fin, stopped = sto\<rparr>"
    using assms(3-5) by (cases p) (auto simp: p)
  finally show ?thesis .
qed

context stream_output
begin

lemma stream_step_pipe:
  assumes step: "stream_step E mview out fin_out True s s'" and inv: "sys_inv mview dview out fin_out True rx ct s"
  shows "pipe_step\<^sup>*\<^sup>* (sys_pipe out fin_out s) (sys_pipe out fin_out s')"
proof -
  from stream_step_grows [OF step inv] obtain ds bs where g:
    "out (quic (sys_world s')) = out (quic (sys_world s)) @ ds"
    "fin_out (quic (sys_world s)) \<Longrightarrow> fin_out (quic (sys_world s'))"
    "sys_accepted s' = sys_accepted s @ bs" "bs \<noteq> [] \<longrightarrow> sys_sender s \<noteq> None"
    "sys_stopped s \<Longrightarrow> sys_stopped s'" "sys_sender s = None \<Longrightarrow> sys_sender s' = None"
    unfolding grows_def by (auto simp: prefix_def)
  have "out_inv (out (quic (sys_world s'))) (fin_out (quic (sys_world s'))) (sys_stopped s') (sys_sender s') (sys_accepted s')"
    using stream_step_inv [OF step inv] by (simp add: sys_inv_def)
  then have "pipe_step\<^sup>*\<^sup>* (sys_pipe out fin_out s)
    \<lparr>accepted = accepted (sys_pipe out fin_out s) @ bs, delivered = delivered (sys_pipe out fin_out s) @ ds,
     closed = (sys_sender s' = None), finished = fin_out (quic (sys_world s')), stopped = sys_stopped s'\<rparr>"
    using g by (intro pipe_steps) (auto simp: sys_pipe_def out_inv_def)
  then show ?thesis using g(1,3) by (simp add: sys_pipe_def)
qed

end

end
