(* ===== verification/Pipe_Props.thy ===== *)
theory Pipe_Props
  imports Stream_System
begin

text \<open>
  The properties of a whole stream, in every interleaving of its user, its context and everything
  else, and the recording environment as an instance of what they assume.
\<close>

section \<open>The recording environment\<close>

definition quic_out :: "quic_call list \<Rightarrow> bytes" where
  "quic_out q = concat (map (\<lambda>c. case c of CallWrite bs \<Rightarrow> bs | _ \<Rightarrow> []) q)"

definition quic_fin :: "quic_call list \<Rightarrow> bool" where
  "quic_fin q = list_ex (\<lambda>c. case c of CallProvide n fin act \<Rightarrow> fin | _ \<Rightarrow> False) q"

interpretation recorded: stream_output record_env "\<lambda>v. v" "\<lambda>v. v" quic_out quic_fin
  by (intro stream_output.intro stream_output_axioms.intro rec.stream_channels_axioms record_env_c_memory)
     (auto simp: record_env_def quic_out_def quic_fin_def)

text \<open>A stream with id 4 whose user sends three bytes, of which picoquic asks for two.\<close>

definition sample_new where
  "sample_new = the (stream_new record_env 4 7 (SocketAddrV4 3 4) True 5 (sample_world (\<lambda>_. []) (\<lambda>_. []) 1))"

definition sample_sent where
  "sample_sent = stream_start_send record_env [1, 2, 3] (fst sample_new) (snd (snd sample_new))"

definition sample_prepared where
  "sample_prepared = the (stream_handle_callback record_env 9 2 callback_prepare_to_send
     (fst (snd sample_new)) (snd sample_sent))"

definition sample_sys where
  "sample_sys =
     \<lparr>sys_user = Some (fst sample_new), sys_ctx = Some (fst sample_prepared), sys_world = snd sample_prepared,
      sys_accepted = [1, 2, 3], sys_stopped = False\<rparr>"

lemma sample_runs:
  "stream_new record_env 4 7 (SocketAddrV4 3 4) True 5 (sample_world (\<lambda>_. []) (\<lambda>_. []) 1) =
     Some (fst sample_new, fst (snd sample_new), snd (snd sample_new))"
  "stream_start_send record_env [1, 2, 3] (fst sample_new) (snd (snd sample_new)) = (Ok SinkReady, snd sample_sent)"
  "stream_handle_callback record_env 9 2 callback_prepare_to_send (fst (snd sample_new)) (snd sample_sent) =
     Some (fst sample_prepared, snd sample_prepared)"
proof -
  have "\<not> Option.is_none (stream_new record_env 4 7 (SocketAddrV4 3 4) True 5 (sample_world (\<lambda>_. []) (\<lambda>_. []) 1))"
    by code_simp
  then show "stream_new record_env 4 7 (SocketAddrV4 3 4) True 5 (sample_world (\<lambda>_. []) (\<lambda>_. []) 1) =
      Some (fst sample_new, fst (snd sample_new), snd (snd sample_new))"
    by (simp add: sample_new_def Option.is_none_def)
  have "case fst sample_sent of Ok SinkReady \<Rightarrow> True | _ \<Rightarrow> False" by code_simp
  then have "fst sample_sent = Ok SinkReady" by (auto split: result.splits async_sink.splits)
  then show "stream_start_send record_env [1, 2, 3] (fst sample_new) (snd (snd sample_new)) = (Ok SinkReady, snd sample_sent)"
    by (metis prod.collapse sample_sent_def)
  have "\<not> Option.is_none (stream_handle_callback record_env 9 2 callback_prepare_to_send (fst (snd sample_new)) (snd sample_sent))"
    by code_simp
  then show "stream_handle_callback record_env 9 2 callback_prepare_to_send (fst (snd sample_new)) (snd sample_sent) =
      Some (fst sample_prepared, snd sample_prepared)"
    by (simp add: sample_prepared_def Option.is_none_def)
qed

lemma sample_reach: "stream_reach record_env (\<lambda>v. v) quic_out quic_fin careful sample_sys"
proof -
  let ?s0 = "\<lparr>sys_user = Some (fst sample_new), sys_ctx = Some (fst (snd sample_new)), sys_world = snd (snd sample_new),
    sys_accepted = [], sys_stopped = False\<rparr>"
  have "stream_reach record_env (\<lambda>v. v) quic_out quic_fin careful ?s0"
    by (rule stream_reach.start [OF sample_runs(1)]) (simp_all add: sample_defs quic_out_def quic_fin_def)
  moreover have "stream_step record_env (\<lambda>v. v) quic_out quic_fin careful ?s0
      (?s0\<lparr>sys_world := snd sample_sent, sys_accepted := [1, 2, 3]\<rparr>)"
    using stream_step.user_send [of ?s0 _ record_env "[1, 2, 3]" "Ok SinkReady" "snd sample_sent" "\<lambda>v. v" quic_out quic_fin careful]
      sample_runs(2) by simp
  ultimately have 2: "stream_reach record_env (\<lambda>v. v) quic_out quic_fin careful
      (?s0\<lparr>sys_world := snd sample_sent, sys_accepted := [1, 2, 3]\<rparr>)"
    by (rule stream_reach.step)
  have "stream_step record_env (\<lambda>v. v) quic_out quic_fin careful (?s0\<lparr>sys_world := snd sample_sent, sys_accepted := [1, 2, 3]\<rparr>) sample_sys"
    using stream_step.ctx_callback [of "?s0\<lparr>sys_world := snd sample_sent, sys_accepted := [1, 2, 3]\<rparr>" _ record_env 9 2
        callback_prepare_to_send _ _ "\<lambda>v. v" quic_out quic_fin careful] sample_runs(3)
    by (simp add: sample_sys_def)
  with 2 show ?thesis by (rule stream_reach.step)
qed

section \<open>No panic\<close>

text \<open>C7.  In every state that a stream can reach, whatever the user, the connection and the peer do
  and in whatever order, no operation panics and no loop runs forever: polling the stream, every
  callback of picoquic and polling the context return.\<close>

theorem stream_never_panics:
  assumes "stream_output E mview dview out fin_out" "stream_reach E mview out fin_out careful s"
  shows "(\<forall>st. sys_user s = Some st \<longrightarrow> (\<exists>r st' w'. stream_poll E st (sys_world s) = Some (r, st', w'))) \<and>
    (\<forall>c. sys_ctx s = Some c \<longrightarrow>
       (\<forall>ptr len event. \<exists>c' w'. stream_handle_callback E ptr len event c (sys_world s) = Some (c', w')) \<and>
       (\<exists>r c' w'. stream_context_poll E c (sys_world s) = Some (r, c', w')))"
  by (intro conjI allI impI) (rule stream_output.reach_returns [OF assms]; assumption)+

theorem stream_never_panics_witness:
  "(\<exists>r st' w'. stream_poll record_env (fst sample_new) (snd sample_prepared) = Some (r, st', w')) \<and>
   (\<forall>ptr len event. \<exists>c' w'. stream_handle_callback record_env ptr len event (fst sample_prepared)
      (snd sample_prepared) = Some (c', w')) \<and>
   (\<exists>r c' w'. stream_context_poll record_env (fst sample_prepared) (snd sample_prepared) = Some (r, c', w'))"
  using stream_never_panics [OF recorded.stream_output_axioms sample_reach [of False]]
  by (simp add: sample_sys_def)

section \<open>The stream is a pipe\<close>

text \<open>C8.  If the send channel is exchanged only while no replacement waits, then at any time the
  bytes that picoquic was given are the first bytes that the sink accepted, none lost, none twice
  and none out of order.\<close>

theorem stream_in_order:
  assumes "stream_output E mview dview out fin_out" "stream_reach E mview out fin_out True s"
  shows "prefix (out (quic (sys_world s))) (sys_accepted s)"
  using stream_output.reach_out_inv [OF assms] by (simp add: out_inv_def)

theorem stream_in_order_witness:
  "prefix (quic_out (quic (snd sample_prepared))) [1, 2, 3] \<and> quic_out (quic (snd sample_prepared)) = [1, 2]"
proof -
  have "quic_out (quic (snd sample_prepared)) = [1, 2]" by code_simp
  with stream_in_order [OF recorded.stream_output_axioms sample_reach] show ?thesis
    by (simp add: sample_sys_def)
qed


text \<open>The user drops the stream of the example, and picoquic asks for more.\<close>

definition sample_dropped where
  "sample_dropped = stream_drop record_env (fst sample_new) (snd sample_prepared)"

definition sample_finished where
  "sample_finished = the (stream_handle_callback record_env 9 2 callback_prepare_to_send
     (fst sample_prepared) sample_dropped)"

definition sample_end where
  "sample_end =
     \<lparr>sys_user = None, sys_ctx = Some (fst sample_finished), sys_world = snd sample_finished,
      sys_accepted = [1, 2, 3], sys_stopped = False\<rparr>"

lemma sample_drop_step:
  "stream_step record_env (\<lambda>v. v) quic_out quic_fin careful sample_sys
     (sample_sys\<lparr>sys_user := None, sys_world := sample_dropped\<rparr>)"
  by (rule stream_step.user_drop) (simp_all add: sample_sys_def sample_dropped_def)

lemmas sample_dropped_reach = stream_reach.step [OF sample_reach sample_drop_step]

lemma sample_end_reach: "stream_reach record_env (\<lambda>v. v) quic_out quic_fin careful sample_end"
proof -
  let ?s1 = "sample_sys\<lparr>sys_user := None, sys_world := sample_dropped\<rparr>"
  have "\<not> Option.is_none (stream_handle_callback record_env 9 2 callback_prepare_to_send
      (fst sample_prepared) sample_dropped)" by code_simp
  then have "stream_handle_callback record_env 9 2 callback_prepare_to_send (fst sample_prepared) sample_dropped =
      Some (fst sample_finished, snd sample_finished)"
    by (simp add: sample_finished_def Option.is_none_def)
  with stream_step.ctx_callback [of ?s1 _ record_env 9 2 callback_prepare_to_send _ _ "\<lambda>v. v" quic_out quic_fin careful]
  have "stream_step record_env (\<lambda>v. v) quic_out quic_fin careful ?s1 sample_end"
    by (simp add: sample_sys_def sample_end_def)
  with sample_dropped_reach show ?thesis by (rule stream_reach.step)
qed


text \<open>C10.  Nothing gets stuck.  If the send channel is exchanged only while no replacement waits, and
  sending was not stopped and no reset is waiting for the context, a poll of the context followed by
  a request of picoquic for \<open>n\<close> bytes hands over exactly the next \<open>n\<close> of all the
  bytes that the sink accepted, those behind an exchanged channel included, and the end of the
  stream when they are the last and the user's sender is gone.\<close>

theorem stream_delivers:
  assumes "stream_output E mview dview out fin_out" "stream_reach E mview out fin_out True s"
    and "sys_ctx s = Some c" "\<not> sys_stopped s" "MReset \<notin> set (queue mview (sc_control_msg c) (sys_world s))"
  shows "\<exists>r c1 w1 c2 w2.
    stream_context_poll E c (sys_world s) = Some (r, c1, w1) \<and>
    stream_handle_callback E ptr n callback_prepare_to_send c1 w1 = Some (c2, w2) \<and>
    out (quic w2) = take (length (out (quic (sys_world s))) + n) (sys_accepted s) \<and>
    (sys_sender s = None \<and> length (sys_accepted s) \<le> length (out (quic (sys_world s))) + n \<longrightarrow> fin_out (quic w2))"
  by (rule stream_output.reach_drains [OF assms, of ptr n]) blast

theorem stream_delivers_witness:
  "\<exists>r c1 w1 c2 w2.
    stream_context_poll record_env (fst sample_prepared) sample_dropped = Some (r, c1, w1) \<and>
    stream_handle_callback record_env 9 5 callback_prepare_to_send c1 w1 = Some (c2, w2) \<and>
    quic_out (quic w2) = [1, 2, 3] \<and> quic_fin (quic w2)"
proof -
  let ?s1 = "sample_sys\<lparr>sys_user := None, sys_world := sample_dropped\<rparr>"
  have "quic_out (quic sample_dropped) = [1, 2]"
    "MReset \<notin> set (queue (\<lambda>v. v) (sc_control_msg (fst sample_prepared)) sample_dropped)"
    by code_simp+
  with stream_delivers [OF recorded.stream_output_axioms sample_dropped_reach, of "fst sample_prepared" 9 5] show ?thesis
    by (simp add: sample_sys_def)
qed

text \<open>C11.  If the send channel is exchanged only while no replacement waits, the stream refines a
  pipe: every step of the whole system is a sequence of steps of the specification, in which bytes are accepted until it is closed, delivered in order, and the pipe
  is finished only when it is closed and everything was delivered, or when it was stopped.\<close>

theorem stream_refines_pipe:
  assumes "stream_output E mview dview out fin_out"
    and "stream_reach E mview out fin_out True s" "stream_step E mview out fin_out True s s'"
  shows "pipe_step\<^sup>*\<^sup>* (sys_pipe out fin_out s) (sys_pipe out fin_out s')"
proof -
  obtain rx ct where "sys_inv mview dview out fin_out True rx ct s"
    by (rule stream_output.stream_reach_inv [OF assms(1,2)])
  with assms(1,3) show ?thesis by (blast intro: stream_output.stream_step_pipe)
qed

theorem stream_refines_pipe_witness:
  "pipe_step\<^sup>*\<^sup>*
     \<lparr>accepted = [1, 2, 3], delivered = [1, 2], closed = False, finished = False, stopped = False\<rparr>
     \<lparr>accepted = [1, 2, 3], delivered = [1, 2], closed = True, finished = False, stopped = False\<rparr>"
proof -
  have "quic_out (quic (snd sample_prepared)) = [1, 2]" "\<not> quic_fin (quic (snd sample_prepared))"
    "quic_out (quic sample_dropped) = [1, 2]" "\<not> quic_fin (quic sample_dropped)"
    "st_send_data (fst sample_new) \<noteq> None"
    by code_simp+
  then show ?thesis
    using stream_refines_pipe [OF recorded.stream_output_axioms sample_reach sample_drop_step]
    by (auto simp: sys_pipe_def sample_sys_def)
qed

end
