(* ===== verification/Receive_Props.thy ===== *)
theory Receive_Props
  imports Stream_Props
begin

text \<open>
  The receiving direction of a stream from end to end: what a series of callbacks announces is what
  the user's polls return.
\<close>

section \<open>Series of callbacks and polls\<close>

fun run_callbacks ::
  "('m, 'd, 'q, 'e) senv \<Rightarrow> (ptr \<times> nat \<times> callback_event) list \<Rightarrow> stream_ctx \<Rightarrow> ('m, 'd, 'q, 'w) sworld \<Rightarrow>
   (stream_ctx \<times> ('m, 'd, 'q, 'w) sworld) option" where
  "run_callbacks E [] c w = Some (c, w)"
| "run_callbacks E ((ptr, len, event) # evs) c w =
     do { (c, w) \<leftarrow> stream_handle_callback E ptr len event c w; run_callbacks E evs c w }"

fun stream_polls ::
  "('m, 'd, 'q, 'e) senv \<Rightarrow> nat \<Rightarrow> stream \<Rightarrow> ('m, 'd, 'q, 'w) sworld \<Rightarrow>
   ((bytes option, error) poll list \<times> stream \<times> ('m, 'd, 'q, 'w) sworld) option" where
  "stream_polls E 0 st w = Some ([], st, w)"
| "stream_polls E (Suc n) st w =
     do { (r, st, w) \<leftarrow> stream_poll E st w;
          (rs, st, w) \<leftarrow> stream_polls E n st w;
          Some (r # rs, st, w) }"

text \<open>What the callbacks announce: data until the peer has ended the stream, and its end.\<close>

fun announced ::
  "('m, 'd, 'q, 'e) senv \<Rightarrow> 'q \<Rightarrow> bool \<Rightarrow> (ptr \<times> nat \<times> callback_event) list \<Rightarrow> message list" where
  "announced E q fin [] = []"
| "announced E q fin ((ptr, len, event) # evs) =
     (if c_read E q ptr len \<noteq> [] \<and> \<not> fin then [MRecvData (c_read E q ptr len)] else []) @
     end_message event @ announced E q (fin \<or> end_message event \<noteq> []) evs"

fun message_result :: "message \<Rightarrow> (bytes option, error) poll" where
  "message_result (MRecvData d) = Ok (Ready (Some d))"
| "message_result (MError e) = Err e"
| "message_result _ = Ok (Ready None)"

lemma announced_no_swap: "\<forall>m\<in>set (announced E q fin evs). \<not> is_swap m"
  by (induction evs arbitrary: fin) (auto simp: end_message_def split: if_splits)

context stream_channels
begin

lemma run_callbacks_announce:
  assumes "user_listens mview c w" "\<forall>(ptr, len, event)\<in>set evs. event \<noteq> callback_prepare_to_send"
  shows "\<exists>c' w'. run_callbacks E evs c w = Some (c', w') \<and> sc_recv_msg c' = sc_recv_msg c \<and> quic w' = quic w \<and>
    inbox mview c' w' = inbox mview c w @ announced E (quic w) (sc_fin_received_or_recv_msg_dropped c) evs"
  using assms
proof (induction evs arbitrary: c w)
  case (Cons e evs)
  obtain ptr len event where e: "e = (ptr, len, event)" by (cases e)
  with Cons.prems(2) have ev: "event \<noteq> callback_prepare_to_send" by simp
  obtain c1 w1 where 1: "stream_handle_callback E ptr len event c w = Some (c1, w1)"
    "inbox mview c1 w1 = inbox mview c w @
       (if c_read E (quic w) ptr len \<noteq> [] \<and> \<not> sc_fin_received_or_recv_msg_dropped c
        then [MRecvData (c_read E (quic w) ptr len)] else []) @ end_message event"
    "user_listens mview c1 w1" "sc_recv_msg c1 = sc_recv_msg c" "quic w1 = quic w"
    "sc_fin_received_or_recv_msg_dropped c1 \<longleftrightarrow> sc_fin_received_or_recv_msg_dropped c \<or> end_message event \<noteq> []"
    by (rule callback_listening [OF Cons.prems(1) ev refl]) (rule that)
  from Cons.IH [OF 1(3)] Cons.prems(2) obtain c' w' where "run_callbacks E evs c1 w1 = Some (c', w')"
    "sc_recv_msg c' = sc_recv_msg c1" "quic w' = quic w1" "inbox mview c' w' = inbox mview c1 w1 @
       announced E (quic w1) (sc_fin_received_or_recv_msg_dropped c1) evs"
    by auto
  with 1 show ?case by (simp add: e)
qed simp

lemma stream_polls_inbox:
  assumes "cv_buffer (mview (msgs w (st_recv_msg st))) = ms @ rest" "\<forall>m\<in>set ms. \<not> is_swap m"
  shows "\<exists>st' w'. stream_polls E (length ms) st w = Some (map message_result ms, st', w') \<and>
    (is_reset st' \<longleftrightarrow> is_reset st \<or> MReset \<in> set ms) \<and> cv_buffer (mview (msgs w' (st_recv_msg st))) = rest"
  using assms
proof (induction ms arbitrary: st w)
  case (Cons m ms)
  obtain ch where p: "msg_poll E (st_recv_msg st) w =
      (fst (view_poll (mview (msgs w (st_recv_msg st)))), w\<lparr>msgs := (msgs w)(st_recv_msg st := ch)\<rparr>)"
    "mview ch = snd (view_poll (mview (msgs w (st_recv_msg st))))"
    by (rule msg_poll_cases)
  let ?st = "if m = MReset then st\<lparr>st_stream_reset := True\<rparr> else st"
  let ?w = "w\<lparr>msgs := (msgs w)(st_recv_msg st := ch)\<rparr>"
  have poll: "stream_poll E st w = Some (message_result m, ?st, ?w)"
    using p Cons.prems by (cases m) (simp_all add: stream_poll_def view_poll_def)
  have "cv_buffer (mview (msgs ?w (st_recv_msg ?st))) = ms @ rest"
    using p(2) Cons.prems(1) by (simp add: view_poll_def)
  from Cons.IH [OF this] Cons.prems(2) obtain st' w' where
    "stream_polls E (length ms) ?st ?w = Some (map message_result ms, st', w')"
    "is_reset st' \<longleftrightarrow> is_reset ?st \<or> MReset \<in> set ms" "cv_buffer (mview (msgs w' (st_recv_msg ?st))) = rest"
    by auto
  with poll show ?case by (auto simp: is_reset_def)
qed simp

end

section \<open>The property\<close>

text \<open>C15.  What picoquic announces in any series of callbacks reaches the user: as long as the user
  listens, the polls of the stream return the received data complete and in order up to the end
  of the stream, then its end, and the stream counts as reset exactly if the peer reset it.\<close>

theorem received_data_reaches_user:
  assumes "stream_channels E mview dview" "user_listens mview c w" "inbox mview c w = []"
    and "st_recv_msg st = sc_recv_msg c" "\<forall>(ptr, len, event)\<in>set evs. event \<noteq> callback_prepare_to_send"
    and "msgs_in = announced E (quic w) (sc_fin_received_or_recv_msg_dropped c) evs"
  shows "\<exists>c' w' st' w''. run_callbacks E evs c w = Some (c', w') \<and>
    stream_polls E (length msgs_in) st w' = Some (map message_result msgs_in, st', w'') \<and>
    (is_reset st' \<longleftrightarrow> is_reset st \<or> MReset \<in> set msgs_in)"
proof -
  from stream_channels.run_callbacks_announce [OF assms(1,2,5)] assms(3,6) obtain c' w' where
    1: "run_callbacks E evs c w = Some (c', w')" "sc_recv_msg c' = sc_recv_msg c" "inbox mview c' w' = msgs_in"
    by auto
  then have "cv_buffer (mview (msgs w' (st_recv_msg st))) = msgs_in @ []" using assms(4) by (simp add: inbox_def)
  moreover have "\<forall>m\<in>set msgs_in. \<not> is_swap m" unfolding assms(6) by (rule announced_no_swap)
  ultimately show ?thesis using stream_channels.stream_polls_inbox [OF assms(1)] 1(1) by blast
qed

definition sample_user :: stream where
  "sample_user =
     \<lparr>st_recv_msg = 0, st_control_msg = 1, st_send_data = Some 2, st_id = 4, st_peer_addr = SocketAddrV4 1 2,
      st_local_addr = SocketAddrV4 3 4, st_stream_reset = False\<rparr>"

definition sample_events :: "(ptr \<times> nat \<times> callback_event) list" where
  "sample_events = [(7, 2, callback_stream_data), (8, 1, callback_stream_fin), (9, 3, callback_stream_data)]"

theorem received_data_reaches_user_witness:
  "\<exists>c' w' st' w''.
     run_callbacks record_env sample_events (sample_ctx None None) (sample_world (\<lambda>_. []) (\<lambda>_. []) 1) = Some (c', w') \<and>
     stream_polls record_env 3 sample_user w' =
       Some ([Ok (Ready (Some [7, 7])), Ok (Ready (Some [8])), Ok (Ready None)], st', w'') \<and> \<not> is_reset st'"
proof -
  have "announced record_env (quic (sample_world (\<lambda>_. []) (\<lambda>_. []) 1))
      (sc_fin_received_or_recv_msg_dropped (sample_ctx None None)) sample_events =
      [MRecvData [7, 7], MRecvData [8], MClose]"
    by (simp add: sample_events_def sample_defs record_env_def end_message_def numeral_2_eq_2)
  note ann = this
  have "\<not> is_reset sample_user" by (simp add: sample_user_def is_reset_def)
  moreover have "user_listens (\<lambda>v. v) (sample_ctx None None) (sample_world (\<lambda>_. []) (\<lambda>_. []) 1)"
    "inbox (\<lambda>v. v) (sample_ctx None None) (sample_world (\<lambda>_. []) (\<lambda>_. []) 1) = []"
    "st_recv_msg sample_user = sc_recv_msg (sample_ctx None None)"
    "\<forall>(ptr, len, event)\<in>set sample_events. event \<noteq> callback_prepare_to_send"
    by (simp_all add: sample_defs sample_user_def sample_events_def user_listens_def inbox_def)
  ultimately show ?thesis
    using received_data_reaches_user [OF rec.stream_channels_axioms, of "sample_ctx None None"
      "sample_world (\<lambda>_. []) (\<lambda>_. []) 1" sample_user sample_events, OF _ _ _ _ ann [symmetric]]
    by (simp add: numeral_3_eq_3 del: stream_polls.simps run_callbacks.simps)
qed

end
