(* ===== verification/Durations.thy ===== *)
theory Durations
  imports Prelude
begin

text \<open>
  \<^verbatim>\<open>std::time::Duration\<close> as far as the sources use it, and the trait
  \<^verbatim>\<open>MicroSeconds\<close> of \<^verbatim>\<open>src/ffi/quic_ctx.rs\<close> that converts it from and
  to the microseconds of picoquic.
\<close>

record duration =
  dur_secs :: u64
  dur_nanos :: u32

text \<open>\<^verbatim>\<open>Duration::new\<close> carries whole seconds over and panics when the seconds
  overflow.\<close>

definition duration_new :: "u64 \<Rightarrow> u32 \<Rightarrow> duration option" where
  "duration_new secs nanos =
     (let s = unat secs + unat nanos div 10 ^ 9 in
      if s < 2 ^ 64 then Some \<lparr>dur_secs = of_nat s, dur_nanos = nanos mod 1000000000\<rparr> else None)"

definition from_micro_seconds :: "u64 \<Rightarrow> duration option" where
  "from_micro_seconds micros =
     (let secs = micros div 1000000;
          nanos = micros mod 1000000 * 1000
      in duration_new secs (ucast nanos))"

definition as_micro_seconds :: "duration \<Rightarrow> u64" where
  "as_micro_seconds d = dur_secs d * 1000000 + ucast (dur_nanos d) div 1000"

section \<open>The conversions in numbers\<close>

lemma unat_word_bounds: "unat (v :: u64) < 2 ^ 64" "unat (w :: u32) < 2 ^ 32"
  using unsigned_less [of v, where ?'a = nat] unsigned_less [of w, where ?'a = nat] by simp_all

definition duration_ok :: "duration \<Rightarrow> bool" where
  "duration_ok d \<longleftrightarrow> unat (dur_nanos d) < 10 ^ 9"

lemma unat_micro_nanos: "unat (ucast ((m :: u64) mod 1000000 * 1000) :: u32) = unat m mod 1000000 * 1000"
proof -
  have "unat m mod 1000000 * 1000 < (2 :: nat) ^ 32"
    using mod_less_divisor [of 1000000 "unat m"] by simp
  moreover have "unat (m mod 1000000 * 1000) = unat m mod 1000000 * 1000"
    using calculation by (simp add: unat_word_ariths unat_mod)
  ultimately show ?thesis by (simp add: unsigned_ucast_eq take_bit_nat_eq_self)
qed

lemma duration_new_small:
  assumes "unat nanos < 10 ^ 9"
  shows "duration_new secs nanos = Some \<lparr>dur_secs = secs, dur_nanos = nanos\<rparr>"
proof -
  have "nanos mod 1000000000 = nanos"
    using assms by (simp add: word_unat_eq_iff unat_mod)
  moreover have "unat secs < 2 ^ 64" by (rule unat_word_bounds)
  ultimately show ?thesis using assms by (simp add: duration_new_def)
qed

text \<open>Converting from microseconds never panics, and splits them exactly.\<close>

lemma from_micro_seconds_eq:
  "from_micro_seconds m =
     Some \<lparr>dur_secs = m div 1000000, dur_nanos = ucast (m mod 1000000 * 1000)\<rparr>"
proof -
  have "unat m mod 1000000 * 1000 < (10 :: nat) ^ 9"
    using mod_less_divisor [of 1000000 "unat m"] by simp
  then show ?thesis
    by (simp add: from_micro_seconds_def Let_def duration_new_small unat_micro_nanos)
qed

lemma unat_as_micro_seconds:
  "unat (as_micro_seconds d) = (unat (dur_secs d) * 1000000 + unat (dur_nanos d) div 1000) mod 2 ^ 64"
proof -
  have "unat (ucast (dur_nanos d) :: u64) = unat (dur_nanos d)"
    using unat_word_bounds(2) [of "dur_nanos d"] by (simp add: unsigned_ucast_eq take_bit_nat_eq_self)
  then show ?thesis
    by (simp add: as_micro_seconds_def unat_word_ariths unat_div mod_simps)
qed

end
