(* ===== verification/Configs.thy ===== *)
theory Configs
  imports Errors Durations
begin

text \<open>
  \<^verbatim>\<open>src/config.rs\<close>: the configuration of a context, its setters and the check
  that \<^verbatim>\<open>Context::new\<close> makes before it uses one.

  A path is the byte string of an operating system path.  The file system is a parameter: the
  paths that exist, and how \<^verbatim>\<open>{:?}\<close> shows one.  The certificate handler, a boxed
  trait object, is a value of an arbitrary type.
\<close>

type_synonym path = bytes

datatype role = Server | Client

datatype file_format = PEM | DER

record 'h config =
  certificate_chain_filename :: "path option"
  certificate_chain :: "(file_format \<times> bytes list) option"
  root_certificate_filename :: "path option"
  root_certificates :: "(file_format \<times> bytes list) option"
  private_key_filename :: "path option"
  private_key :: "(file_format \<times> bytes) option"
  reset_seed :: "bytes option"
  keep_alive_interval :: "duration option"
  keep_alive_sender :: role
  client_authentication :: bool
  verify_certificate_handler :: "'h option"
  stream_send_channel_default_size :: nat

definition config_default :: "'h config" where
  "config_default =
     \<lparr>certificate_chain_filename = None, certificate_chain = None,
      root_certificate_filename = None, root_certificates = None,
      private_key_filename = None, private_key = None, reset_seed = None,
      keep_alive_interval = None, keep_alive_sender = Client, client_authentication = False,
      verify_certificate_handler = None, stream_send_channel_default_size = 100\<rparr>"

definition config_new :: "'h config" where
  "config_new = config_default"

definition config_clone_from :: "'h config \<Rightarrow> 'i config" where
  "config_clone_from other =
     \<lparr>certificate_chain_filename = certificate_chain_filename other,
      certificate_chain = certificate_chain other,
      root_certificate_filename = root_certificate_filename other,
      root_certificates = root_certificates other,
      private_key_filename = private_key_filename other,
      private_key = private_key other,
      reset_seed = reset_seed other,
      keep_alive_interval = keep_alive_interval other,
      keep_alive_sender = keep_alive_sender other,
      client_authentication = client_authentication other,
      verify_certificate_handler = None,
      stream_send_channel_default_size = stream_send_channel_default_size other\<rparr>"

section \<open>Setters\<close>

definition set_certificate_chain_filename :: "path \<Rightarrow> 'h config \<Rightarrow> 'h config" where
  "set_certificate_chain_filename p cfg = cfg\<lparr>certificate_chain_filename := Some p\<rparr>"

definition set_private_key_filename :: "path \<Rightarrow> 'h config \<Rightarrow> 'h config" where
  "set_private_key_filename p cfg = cfg\<lparr>private_key_filename := Some p\<rparr>"

definition config_enable_keep_alive :: "duration \<Rightarrow> 'h config \<Rightarrow> 'h config" where
  "config_enable_keep_alive dur cfg = cfg\<lparr>keep_alive_interval := Some dur\<rparr>"

definition set_keep_alive_sender :: "role \<Rightarrow> 'h config \<Rightarrow> 'h config" where
  "set_keep_alive_sender r cfg = cfg\<lparr>keep_alive_sender := r\<rparr>"

definition enable_client_authentication :: "'h config \<Rightarrow> 'h config" where
  "enable_client_authentication cfg = cfg\<lparr>client_authentication := True\<rparr>"

definition set_verify_certificate_handler :: "'h \<Rightarrow> 'h config \<Rightarrow> 'h config" where
  "set_verify_certificate_handler h cfg = cfg\<lparr>verify_certificate_handler := Some h\<rparr>"

definition set_certificate_chain :: "bytes list \<Rightarrow> file_format \<Rightarrow> 'h config \<Rightarrow> 'h config" where
  "set_certificate_chain certs format cfg = cfg\<lparr>certificate_chain := Some (format, certs)\<rparr>"

definition set_private_key :: "bytes \<Rightarrow> file_format \<Rightarrow> 'h config \<Rightarrow> 'h config" where
  "set_private_key key format cfg = cfg\<lparr>private_key := Some (format, key)\<rparr>"

definition set_root_certificate_filename :: "path \<Rightarrow> 'h config \<Rightarrow> 'h config" where
  "set_root_certificate_filename p cfg = cfg\<lparr>root_certificate_filename := Some p\<rparr>"

definition set_root_certificates :: "bytes list \<Rightarrow> file_format \<Rightarrow> 'h config \<Rightarrow> 'h config" where
  "set_root_certificates certs format cfg = cfg\<lparr>root_certificates := Some (format, certs)\<rparr>"

definition set_stream_send_channel_default_size :: "nat \<Rightarrow> 'h config \<Rightarrow> 'h config" where
  "set_stream_send_channel_default_size sz cfg = cfg\<lparr>stream_send_channel_default_size := sz\<rparr>"

section \<open>Verification\<close>

record file_system =
  path_exists :: "path \<Rightarrow> bool"
  debug_path :: "path \<Rightarrow> string"

definition check_path_exist :: "file_system \<Rightarrow> path option \<Rightarrow> (unit, error) result" where
  "check_path_exist fs p =
     (case p of
        Some p \<Rightarrow> if \<not> path_exists fs p then bail (''File does not exist: '' @ debug_path fs p) else Ok ()
      | None \<Rightarrow> Ok ())"

definition config_verify :: "file_system \<Rightarrow> 'h config \<Rightarrow> (unit, error) result" where
  "config_verify fs cfg =
     (let private_key_set = (private_key cfg \<noteq> None \<or> private_key_filename cfg \<noteq> None);
          certificate_set = (certificate_chain cfg \<noteq> None \<or> certificate_chain_filename cfg \<noteq> None)
      in if private_key_set \<noteq> certificate_set
         then bail ''Either both, private key and certificate chain need to be set or none of them!''
         else
           result_bind (check_path_exist fs (certificate_chain_filename cfg)) (\<lambda>_.
           result_bind (check_path_exist fs (root_certificate_filename cfg)) (\<lambda>_.
           result_bind (check_path_exist fs (private_key_filename cfg)) (\<lambda>_. Ok ()))))"

section \<open>What the check accepts\<close>

text \<open>The condition that the check decides.\<close>

definition config_valid :: "file_system \<Rightarrow> 'h config \<Rightarrow> bool" where
  "config_valid fs cfg \<longleftrightarrow>
     (private_key cfg = None \<and> private_key_filename cfg = None \<longleftrightarrow>
      certificate_chain cfg = None \<and> certificate_chain_filename cfg = None) \<and>
     (\<forall>p \<in> set_option (certificate_chain_filename cfg) \<union> set_option (root_certificate_filename cfg) \<union>
           set_option (private_key_filename cfg). path_exists fs p)"

lemma check_path_exist_cases:
  "check_path_exist fs p =
     (if \<forall>x\<in>set_option p. path_exists fs x then Ok ()
      else Err (MkError (Custom (''File does not exist: '' @ debug_path fs (the p)))))"
  by (auto simp: check_path_exist_def bail_def error_from_failure_def error_from_kind_def split: option.split)

text \<open>An error names the mismatch first and then the first missing file in the fixed order
  chain, root, key.\<close>

definition missing_files :: "file_system \<Rightarrow> 'h config \<Rightarrow> path list" where
  "missing_files fs cfg =
     concat (map (\<lambda>p. case p of Some p \<Rightarrow> if path_exists fs p then [] else [p] | None \<Rightarrow> [])
       [certificate_chain_filename cfg, root_certificate_filename cfg, private_key_filename cfg])"

lemma config_verify_eq:
  "config_verify fs cfg =
     (if (private_key cfg = None \<and> private_key_filename cfg = None) \<noteq>
         (certificate_chain cfg = None \<and> certificate_chain_filename cfg = None)
      then bail ''Either both, private key and certificate chain need to be set or none of them!''
      else case missing_files fs cfg of
             [] \<Rightarrow> Ok ()
           | p # _ \<Rightarrow> bail (''File does not exist: '' @ debug_path fs p))"
  unfolding config_verify_def Let_def check_path_exist_def missing_files_def
  by (cases "certificate_chain_filename cfg"; cases "root_certificate_filename cfg";
      cases "private_key_filename cfg"; cases "private_key cfg"; cases "certificate_chain cfg")
     (simp_all add: bail_def)

lemma config_verify_Ok: "config_verify fs cfg = Ok () \<longleftrightarrow> config_valid fs cfg"
  unfolding config_verify_eq config_valid_def missing_files_def
  by (cases "certificate_chain_filename cfg"; cases "root_certificate_filename cfg";
      cases "private_key_filename cfg"; cases "private_key cfg"; cases "certificate_chain cfg")
     (auto simp: bail_def)

end
