(* ===== verification/Verify_Certificate.thy ===== *)
theory Verify_Certificate
  imports Errors
begin

text \<open>
  \<^verbatim>\<open>src/ffi/verify_certificate.rs\<close> and \<^verbatim>\<open>src/verify_certificate.rs\<close>:
  the callbacks through which picotls asks the user's handler about a certificate and checks
  the signature of the handshake with the key of that certificate.

  OpenSSL is a parameter: parsed certificates \<open>'x\<close>, public keys \<open>'k\<close>, verifiers
  \<open>'v\<close> and stacks of error codes.  So are the numeric values of the picotls constants,
  which the build generates.
\<close>

type_synonym error_stack = "u64 list"  \<comment> \<open>the codes (\<^verbatim>\<open>c_ulong\<close>) of its errors, the first one first\<close>

datatype connection_type = Incoming | Outgoing

record ptls =
  PTLS_ALERT_BAD_CERTIFICATE :: u32
  PTLS_ALERT_CERTIFICATE_EXPIRED :: u32
  PTLS_ALERT_CERTIFICATE_REVOKED :: u32
  PTLS_ALERT_CERTIFICATE_UNKNOWN :: u32
  PTLS_ALERT_DECRYPT_ERROR :: u32
  PTLS_ERROR_LIBRARY :: u32
  PTLS_ERROR_NO_MEMORY :: u32

record ('x, 'k, 'v) openssl =
  x509_from_der :: "bytes \<Rightarrow> ('x, error_stack) result"
  stack_push :: "'x list \<Rightarrow> 'x \<Rightarrow> ('x list, error_stack) result"
  stack_new :: "('x list, error_stack) result"
  x509_public_key :: "'x \<Rightarrow> ('k, error_stack) result"
  pkey_is_rsa :: "'k \<Rightarrow> bool"
  verifier_new_sha256 :: "'k \<Rightarrow> ('v, error_stack) result"
  set_rsa_padding_pss :: "'v \<Rightarrow> ('v, error_stack) result"
  set_rsa_pss_saltlen_digest :: "'v \<Rightarrow> ('v, error_stack) result"
  set_rsa_mgf1_sha256 :: "'v \<Rightarrow> ('v, error_stack) result"
  verifier_update :: "'v \<Rightarrow> bytes \<Rightarrow> ('v, error_stack) result"
  verifier_verify :: "'v \<Rightarrow> bytes \<Rightarrow> (bool, error_stack) result"
  X509_V_ERR_OUT_OF_MEM :: int
  X509_V_ERR_CERT_REVOKED :: int
  X509_V_ERR_CERT_HAS_EXPIRED :: int

section \<open>The signature\<close>

text \<open>\<^verbatim>\<open>verify_sign_callback\<close>; the key is the one that
  \<^verbatim>\<open>verify_certificate_callback\<close> left as its context.\<close>

definition rsa_setup :: "('x, 'k, 'v) openssl \<Rightarrow> 'k \<Rightarrow> 'v \<Rightarrow> ('v, error_stack) result" where
  "rsa_setup ossl pkey verifier =
     (if pkey_is_rsa ossl pkey then
        result_bind (set_rsa_padding_pss ossl verifier) (\<lambda>verifier.
        result_bind (set_rsa_pss_saltlen_digest ossl verifier) (\<lambda>verifier.
        set_rsa_mgf1_sha256 ossl verifier))
      else Ok verifier)"

definition verify_sign_callback ::
  "ptls \<Rightarrow> ('x, 'k, 'v) openssl \<Rightarrow> 'k \<Rightarrow> bytes \<Rightarrow> bytes \<Rightarrow> int" where
  "verify_sign_callback T ossl pkey data sign =
     (if data = [] \<or> sign = [] then 0
      else case verifier_new_sha256 ossl pkey of
        Err _ \<Rightarrow> sint (PTLS_ERROR_LIBRARY T)
      | Ok verifier \<Rightarrow>
          (case rsa_setup ossl pkey verifier of
             Err _ \<Rightarrow> sint (PTLS_ERROR_LIBRARY T)
           | Ok verifier \<Rightarrow>
               (case verifier_update ossl verifier data of
                  Err _ \<Rightarrow> sint (PTLS_ERROR_LIBRARY T)
                | Ok verifier \<Rightarrow>
                    (case verifier_verify ossl verifier sign of
                       Ok True \<Rightarrow> 0
                     | _ \<Rightarrow> sint (PTLS_ALERT_DECRYPT_ERROR T)))))"

section \<open>The certificate\<close>

definition ssl_error_to_error_code :: "ptls \<Rightarrow> ('x, 'k, 'v) openssl \<Rightarrow> error_stack \<Rightarrow> u32" where
  "ssl_error_to_error_code T ossl err =
     (case err of
        first # _ \<Rightarrow>
          let code = sint (ucast first :: u32) in
          if code = X509_V_ERR_OUT_OF_MEM ossl then PTLS_ERROR_NO_MEMORY T
          else if code = X509_V_ERR_CERT_REVOKED ossl then PTLS_ALERT_CERTIFICATE_REVOKED T
          else if code = X509_V_ERR_CERT_HAS_EXPIRED ossl then PTLS_ALERT_CERTIFICATE_EXPIRED T
          else PTLS_ALERT_CERTIFICATE_UNKNOWN T
      | [] \<Rightarrow> PTLS_ALERT_CERTIFICATE_UNKNOWN T)"

definition extract_certificate :: "('x, 'k, 'v) openssl \<Rightarrow> bytes \<Rightarrow> ('x, error_stack) result" where
  "extract_certificate ossl cert = x509_from_der ossl cert"

primrec extract_chain ::
  "('x, 'k, 'v) openssl \<Rightarrow> bytes list \<Rightarrow> 'x list \<Rightarrow> ('x list, error_stack) result" where
  "extract_chain ossl [] chain = Ok chain"
| "extract_chain ossl (cert # certs) chain =
     result_bind (extract_certificate ossl cert) (\<lambda>x.
     result_bind (stack_push ossl chain x) (\<lambda>chain. extract_chain ossl certs chain))"

text \<open>\<^verbatim>\<open>certs[0]\<close> panics on an empty slice.\<close>

definition extract_certificates ::
  "('x, 'k, 'v) openssl \<Rightarrow> bytes list \<Rightarrow> ('x \<times> 'x list, error_stack) result option" where
  "extract_certificates ossl certs =
     (case certs of
        [] \<Rightarrow> None
      | first # rest \<Rightarrow> Some (
          result_bind (extract_certificate ossl first) (\<lambda>cert.
          result_bind (stack_new ossl) (\<lambda>chain.
          result_bind (extract_chain ossl rest chain) (\<lambda>chain. Ok (cert, chain))))))"

text \<open>The user's handler (\<^verbatim>\<open>VerifyCertificate::verify\<close>) is an argument; it may
  change its own state.  The result is the code for picotls, the new state of the handler, and
  the key for \<^verbatim>\<open>verify_sign_callback\<close> if the two out-pointers are set.\<close>

type_synonym ('h, 'x) verify_handler =
  "'h \<Rightarrow> u64 \<Rightarrow> connection_type \<Rightarrow> 'x \<Rightarrow> 'x list \<Rightarrow> (bool, error_stack) result \<times> 'h"

definition verify_certificate_callback_impl ::
  "ptls \<Rightarrow> ('x, 'k, 'v) openssl \<Rightarrow> ('h, 'x) verify_handler \<Rightarrow> 'h \<Rightarrow> u64 \<Rightarrow> connection_type \<Rightarrow>
   bytes list \<Rightarrow> (u32 \<times> 'h \<times> 'k option) option" where
  "verify_certificate_callback_impl T ossl verify handler local_id con_type certs =
     (if certs = [] then Some (PTLS_ALERT_CERTIFICATE_UNKNOWN T, handler, None)
      else do {
        extracted \<leftarrow> extract_certificates ossl certs;
        (case extracted of
           Err _ \<Rightarrow> Some (PTLS_ALERT_BAD_CERTIFICATE T, handler, None)
         | Ok (cert, chain) \<Rightarrow>
             (case verify handler local_id con_type cert chain of
                (Ok False, handler) \<Rightarrow> Some (PTLS_ALERT_CERTIFICATE_UNKNOWN T, handler, None)
              | (Err e, handler) \<Rightarrow> Some (ssl_error_to_error_code T ossl e, handler, None)
              | (Ok True, handler) \<Rightarrow>
                  (case x509_public_key ossl cert of
                     Err e \<Rightarrow> Some (ssl_error_to_error_code T ossl e, handler, None)
                   | Ok pkey \<Rightarrow> Some (0, handler, Some pkey))))
      })"

text \<open>\<^verbatim>\<open>verify_certificate_callback\<close> hands the code on as a signed integer and
  leaves the handler with picoquic.\<close>

definition verify_certificate_callback ::
  "ptls \<Rightarrow> ('x, 'k, 'v) openssl \<Rightarrow> ('h, 'x) verify_handler \<Rightarrow> 'h \<Rightarrow> u64 \<Rightarrow> connection_type \<Rightarrow>
   bytes list \<Rightarrow> (int \<times> 'h \<times> 'k option) option" where
  "verify_certificate_callback T ossl verify handler local_id con_type certs =
     do {
       (code, handler, key) \<leftarrow> verify_certificate_callback_impl T ossl verify handler local_id con_type certs;
       Some (sint code, handler, key)
     }"

text \<open>\<^verbatim>\<open>default_verify_certificate\<close>: a store context is made and asked.\<close>

definition default_verify_certificate ::
  "('c, error_stack) result \<Rightarrow> ('c \<Rightarrow> 's \<Rightarrow> 'x \<Rightarrow> 'x list \<Rightarrow> (bool, error_stack) result) \<Rightarrow>
   'x \<Rightarrow> 'x list \<Rightarrow> 's \<Rightarrow> (bool, error_stack) result" where
  "default_verify_certificate new_context init_verify cert chain store =
     result_bind new_context (\<lambda>context. init_verify context store cert chain)"

section \<open>Lemmas\<close>

text \<open>The codes are alerts and errors, so none of them is the success code.\<close>

definition ptls_codes_nonzero :: "ptls \<Rightarrow> bool" where
  "ptls_codes_nonzero T \<longleftrightarrow>
     0 \<notin> {PTLS_ALERT_BAD_CERTIFICATE T, PTLS_ALERT_CERTIFICATE_EXPIRED T,
          PTLS_ALERT_CERTIFICATE_REVOKED T, PTLS_ALERT_CERTIFICATE_UNKNOWN T,
          PTLS_ALERT_DECRYPT_ERROR T, PTLS_ERROR_LIBRARY T, PTLS_ERROR_NO_MEMORY T}"

lemma ssl_error_nonzero: "ptls_codes_nonzero T \<Longrightarrow> ssl_error_to_error_code T ossl e \<noteq> 0"
  by (auto simp: ptls_codes_nonzero_def ssl_error_to_error_code_def Let_def split: list.split)

lemma extract_chain_Ok:
  assumes "\<And>chain x. stack_push ossl chain x = Ok (chain @ [x])"
  shows "extract_chain ossl certs chain = Ok xs \<longleftrightarrow>
    (\<exists>ys. xs = chain @ ys \<and> list_all2 (\<lambda>c y. x509_from_der ossl c = Ok y) certs ys)"
proof (induction certs arbitrary: chain)
  case Nil
  then show ?case by auto
next
  case (Cons c certs)
  show ?case
  proof (cases "x509_from_der ossl c")
    case (Ok x)
    with assms Cons show ?thesis by (auto simp: extract_certificate_def list_all2_Cons1)
  next
    case (Err e)
    then show ?thesis by (auto simp: extract_certificate_def list_all2_Cons1)
  qed
qed

lemma sint_code: "sint (code :: u32) = 0 \<longleftrightarrow> code = 0"
  by (rule signed_eq_0_iff)

lemma extract_certificates_total: "certs \<noteq> [] \<Longrightarrow> \<exists>r. extract_certificates ossl certs = Some r"
  by (cases certs) (simp_all add: extract_certificates_def)

text \<open>The callback never panics; what a zero code means.\<close>

lemma verify_certificate_total:
  "\<exists>code h' key. verify_certificate_callback T ossl verify h lid ct certs = Some (code, h', key)"
  using extract_certificates_total [of certs ossl]
  by (auto simp: verify_certificate_callback_def verify_certificate_callback_impl_def
      split: result.split prod.split bool.split)

lemma verify_certificate_zero:
  assumes "ptls_codes_nonzero T"
    and "verify_certificate_callback T ossl verify h lid ct certs = Some (code, h', key)"
  shows "code = 0 \<longleftrightarrow>
      (\<exists>cert chain k. extract_certificates ossl certs = Some (Ok (cert, chain)) \<and>
         verify h lid ct cert chain = (Ok True, h') \<and> x509_public_key ossl cert = Ok k \<and> key = Some k)"
    and "code \<noteq> 0 \<longrightarrow> key = None"
  using assms(2,1)
  by (auto simp: ssl_error_nonzero [OF assms(1)] verify_certificate_callback_def verify_certificate_callback_impl_def
      extract_certificates_def ptls_codes_nonzero_def sint_code
      split: if_splits result.splits prod.splits bool.splits list.splits option.splits)

text \<open>The contract of OpenSSL's \<^verbatim>\<open>Verifier\<close> and of the stack of certificates.  A verifier
  has a key, three settings for RSA, and the data it was given; a step that succeeds changes just its
  part, and the answer is whether the signature is valid for all of this, which OpenSSL decides.\<close>

record 'k signature_check =
  sv_key :: 'k
  sv_padding_pss :: bool
  sv_saltlen_digest :: bool
  sv_mgf1_sha256 :: bool
  sv_data :: bytes

definition rsa_pss_check :: "'k \<Rightarrow> bool \<Rightarrow> bytes \<Rightarrow> 'k signature_check" where
  "rsa_pss_check k rsa data =
     \<lparr>sv_key = k, sv_padding_pss = rsa, sv_saltlen_digest = rsa, sv_mgf1_sha256 = rsa, sv_data = data\<rparr>"

text \<open>Some step of the check may fail, for want of memory, say.\<close>

definition verifier_fails :: "('x, 'k, 'v) openssl \<Rightarrow> 'k \<Rightarrow> bytes \<Rightarrow> bytes \<Rightarrow> bool" where
  "verifier_fails ossl k data sign \<longleftrightarrow>
     (\<exists>v. is_err (verifier_new_sha256 ossl k) \<or> is_err (set_rsa_padding_pss ossl v) \<or>
       is_err (set_rsa_pss_saltlen_digest ossl v) \<or> is_err (set_rsa_mgf1_sha256 ossl v) \<or>
       is_err (verifier_update ossl v data) \<or> is_err (verifier_verify ossl v sign))"

lemma not_err_iff: "\<not> is_err r \<longleftrightarrow> (\<exists>a. r = Ok a)"
  by (cases r) simp_all

locale openssl_verifier =
  fixes ossl :: "('x, 'k, 'v) openssl" and view :: "'v \<Rightarrow> 'k signature_check"
    and valid :: "'k signature_check \<Rightarrow> bytes \<Rightarrow> bool"
  assumes view_new: "verifier_new_sha256 ossl k = Ok v \<Longrightarrow> view v = rsa_pss_check k False []"
    and view_padding: "set_rsa_padding_pss ossl v = Ok v1 \<Longrightarrow> view v1 = view v\<lparr>sv_padding_pss := True\<rparr>"
    and view_saltlen: "set_rsa_pss_saltlen_digest ossl v = Ok v1 \<Longrightarrow> view v1 = view v\<lparr>sv_saltlen_digest := True\<rparr>"
    and view_mgf1: "set_rsa_mgf1_sha256 ossl v = Ok v1 \<Longrightarrow> view v1 = view v\<lparr>sv_mgf1_sha256 := True\<rparr>"
    and view_update: "verifier_update ossl v d = Ok v1 \<Longrightarrow> view v1 = view v\<lparr>sv_data := sv_data (view v) @ d\<rparr>"
    and verify_valid: "verifier_verify ossl v sign = Ok b \<Longrightarrow> b = valid (view v) sign"
begin

text \<open>What reaches the verifier before the signature.\<close>

lemma view_rsa_setup:
  "view v = rsa_pss_check k False [] \<Longrightarrow> rsa_setup ossl k v = Ok v1 \<Longrightarrow> view v1 = rsa_pss_check k (pkey_is_rsa ossl k) []"
  by (auto simp: rsa_setup_def rsa_pss_check_def view_padding view_saltlen view_mgf1 result_bind_eqs split: if_splits)

lemma sign_success:
  assumes "ptls_codes_nonzero T" "verify_sign_callback T ossl k data sign = 0" "data \<noteq> []" "sign \<noteq> []"
  shows "valid (rsa_pss_check k (pkey_is_rsa ossl k) data) sign"
proof -
  from assms obtain v v1 v2 where v: "verifier_new_sha256 ossl k = Ok v" "rsa_setup ossl k v = Ok v1"
    "verifier_update ossl v1 data = Ok v2" "verifier_verify ossl v2 sign = Ok True"
    by (auto simp: verify_sign_callback_def ptls_codes_nonzero_def sint_code split: result.splits bool.splits)
  have "view v2 = rsa_pss_check k (pkey_is_rsa ossl k) data"
    using view_update [OF v(3)] view_rsa_setup [OF view_new [OF v(1)] v(2)] by (simp add: rsa_pss_check_def)
  with verify_valid [OF v(4)] show ?thesis by simp
qed

lemma sign_failure:
  assumes "verify_sign_callback T ossl k data sign \<noteq> 0" "valid (rsa_pss_check k (pkey_is_rsa ossl k) data) sign"
  shows "verifier_fails ossl k data sign"
proof (rule ccontr)
  assume "\<not> verifier_fails ossl k data sign"
  then have ok: "\<exists>v. verifier_new_sha256 ossl k = Ok v" "\<exists>v1. set_rsa_padding_pss ossl v = Ok v1"
    "\<exists>v1. set_rsa_pss_saltlen_digest ossl v = Ok v1" "\<exists>v1. set_rsa_mgf1_sha256 ossl v = Ok v1"
    "\<exists>v1. verifier_update ossl v data = Ok v1" "\<exists>b. verifier_verify ossl v sign = Ok b" for v
    unfolding verifier_fails_def not_err_iff [symmetric] by blast+
  obtain v where v: "verifier_new_sha256 ossl k = Ok v" using ok(1) by blast
  have "\<exists>v1. rsa_setup ossl k v = Ok v1" using ok(2-4) by (simp add: rsa_setup_def result_bind_eqs) blast
  then obtain v1 where v1: "rsa_setup ossl k v = Ok v1" by blast
  obtain v2 where v2: "verifier_update ossl v1 data = Ok v2" using ok(5) by blast
  obtain b where b: "verifier_verify ossl v2 sign = Ok b" using ok(6) by blast
  have "view v2 = rsa_pss_check k (pkey_is_rsa ossl k) data"
    using view_update [OF v2] view_rsa_setup [OF view_new [OF v] v1] by (simp add: rsa_pss_check_def)
  with verify_valid [OF b] assms(2) have "verify_sign_callback T ossl k data sign = 0"
    using v v1 v2 b by (simp add: verify_sign_callback_def)
  with assms(1) show False by simp
qed

end

end
