(* ===== verification/Quic_Ctx.thy ===== *)
theory Quic_Ctx
  imports Configs Verify_Certificate
begin

text \<open>
  \<^verbatim>\<open>src/ffi/quic_ctx.rs\<close>: creating the picoquic context from a configuration, with
  the conversion of certificates and keys, and the computation of the next wake-up time.

  The C library with its state \<open>'q\<close> and OpenSSL's PEM reader are parameters.  A byte array
  that is lent or leaked to C is passed as its contents.
\<close>

section \<open>Strings for C\<close>

text \<open>\<^verbatim>\<open>OsString::into_string\<close> succeeds on valid UTF-8.\<close>

definition utf8_cont :: "u8 \<Rightarrow> bool" where
  "utf8_cont b \<longleftrightarrow> 0x80 \<le> b \<and> b \<le> 0xBF"

text \<open>The number of continuation bytes a lead byte announces, with the range of the first.\<close>

definition utf8_lead :: "u8 \<Rightarrow> (nat \<times> u8 \<times> u8) option" where
  "utf8_lead b =
     (if b \<le> 0x7F then Some (0, 0x80, 0xBF)
      else if 0xC2 \<le> b \<and> b \<le> 0xDF then Some (1, 0x80, 0xBF)
      else if b = 0xE0 then Some (2, 0xA0, 0xBF)
      else if b = 0xED then Some (2, 0x80, 0x9F)
      else if 0xE1 \<le> b \<and> b \<le> 0xEF then Some (2, 0x80, 0xBF)
      else if b = 0xF0 then Some (3, 0x90, 0xBF)
      else if b = 0xF4 then Some (3, 0x80, 0x8F)
      else if 0xF1 \<le> b \<and> b \<le> 0xF3 then Some (3, 0x80, 0xBF)
      else None)"

text \<open>A scanner: \<open>n\<close> continuation bytes are due, the next one between \<open>lo\<close> and
  \<open>hi\<close>.\<close>

primrec utf8_scan :: "bytes \<Rightarrow> nat \<Rightarrow> u8 \<Rightarrow> u8 \<Rightarrow> bool" where
  "utf8_scan [] n lo hi \<longleftrightarrow> n = 0"
| "utf8_scan (b # bs) n lo hi \<longleftrightarrow>
     (case n of
        0 \<Rightarrow> (case utf8_lead b of Some (m, lo, hi) \<Rightarrow> utf8_scan bs m lo hi | None \<Rightarrow> False)
      | Suc m \<Rightarrow> lo \<le> b \<and> b \<le> hi \<and> utf8_scan bs m 0x80 0xBF)"

definition utf8_valid :: "bytes \<Rightarrow> bool" where
  "utf8_valid bs \<longleftrightarrow> utf8_scan bs 0 0x80 0xBF"

text \<open>\<^verbatim>\<open>CString::new\<close> refuses interior zero bytes.\<close>

definition cstring_new :: "bytes \<Rightarrow> (bytes, unit) result" where
  "cstring_new bs = (if 0 \<in> set bs then Err () else Ok bs)"

definition create_cstring :: "path option \<Rightarrow> (bytes option, error) result" where
  "create_cstring path =
     (case path of
        Some p \<Rightarrow>
          if \<not> utf8_valid p then Err (error_from_kind NoneUnicode)
          else (case cstring_new p of
                  Ok s \<Rightarrow> Ok (Some s)
                | Err _ \<Rightarrow> Err error_from_nul_error)
      | None \<Rightarrow> Ok None)"

section \<open>The environment\<close>

record ('q, 'h, 'x, 'k, 'i) quic_env =
  picoquic_current_time :: "'q \<Rightarrow> u64"
  picoquic_create :: "'q \<Rightarrow> nat \<Rightarrow> bytes option \<Rightarrow> bytes option \<Rightarrow> bytes option \<Rightarrow> ptr \<Rightarrow>
    bytes option \<Rightarrow> u64 \<Rightarrow> ptr \<times> 'q"
  picoquic_set_client_authentication :: "'q \<Rightarrow> ptr \<Rightarrow> int \<Rightarrow> 'q"
  picoquic_set_tls_certificate_chain :: "'q \<Rightarrow> ptr \<Rightarrow> bytes list \<Rightarrow> 'q"
  picoquic_set_tls_root_certificates :: "'q \<Rightarrow> ptr \<Rightarrow> bytes list \<Rightarrow> int \<times> 'q"
  picoquic_set_tls_key :: "'q \<Rightarrow> ptr \<Rightarrow> bytes \<Rightarrow> int \<times> 'q"
  picoquic_set_verify_certificate_callback :: "'q \<Rightarrow> ptr \<Rightarrow> 'h \<Rightarrow> int \<times> 'q"
  picoquic_free :: "'q \<Rightarrow> ptr \<Rightarrow> 'q"
  picoquic_get_next_wake_delay :: "'q \<Rightarrow> ptr \<Rightarrow> u64 \<Rightarrow> u64 \<Rightarrow> u64"  \<comment> \<open>\<^verbatim>\<open>i64\<close> as its bits\<close>
  x509_from_pem :: "bytes \<Rightarrow> ('x, error_stack) result"
  x509_to_der :: "'x \<Rightarrow> (bytes, error_stack) result"
  private_key_from_pem :: "bytes \<Rightarrow> ('k, error_stack) result"
  private_key_to_der :: "'k \<Rightarrow> (bytes, error_stack) result"
  instant_now :: "'q \<Rightarrow> 'i"
  instant_add :: "'i \<Rightarrow> duration \<Rightarrow> 'i option"  \<comment> \<open>panics on overflow\<close>

record quic_ctx =
  qc_quic :: ptr
  qc_max_delay :: duration

type_synonym ('q, 'h, 'x, 'k, 'i, 'e) qenv = "('q, 'h, 'x, 'k, 'i, 'e) quic_env_scheme"

section \<open>Certificates and keys\<close>

definition from_stack :: "('a, error_stack) result \<Rightarrow> ('a, error) result" where
  "from_stack r = map_err (\<lambda>_. error_from_error_stack) r"

primrec pem_certs :: "('q, 'h, 'x, 'k, 'i, 'e) qenv \<Rightarrow> bytes list \<Rightarrow> (bytes list, error) result" where
  "pem_certs Q [] = Ok []"
| "pem_certs Q (cert # certs) =
     result_bind (from_stack (x509_from_pem Q cert)) (\<lambda>x.
     result_bind (from_stack (x509_to_der Q x)) (\<lambda>der.
     result_bind (pem_certs Q certs) (\<lambda>ders. Ok (der # ders))))"

definition make_certs_iovec ::
  "('q, 'h, 'x, 'k, 'i, 'e) qenv \<Rightarrow> bytes list \<Rightarrow> file_format \<Rightarrow> (bytes list, error) result" where
  "make_certs_iovec Q certs format = (case format of DER \<Rightarrow> Ok certs | PEM \<Rightarrow> pem_certs Q certs)"

definition set_tls_certificate_chain ::
  "('q, 'h, 'x, 'k, 'i, 'e) qenv \<Rightarrow> ptr \<Rightarrow> bytes list \<Rightarrow> file_format \<Rightarrow> 'q \<Rightarrow> (unit, error) result \<times> 'q" where
  "set_tls_certificate_chain Q quic chain format q =
     (case make_certs_iovec Q chain format of
        Err e \<Rightarrow> (Err e, q)
      | Ok certs \<Rightarrow> (Ok (), picoquic_set_tls_certificate_chain Q q quic certs))"

definition set_tls_root_certificates ::
  "('q, 'h, 'x, 'k, 'i, 'e) qenv \<Rightarrow> ptr \<Rightarrow> bytes list \<Rightarrow> file_format \<Rightarrow> 'q \<Rightarrow> (unit, error) result \<times> 'q" where
  "set_tls_root_certificates Q quic certs format q =
     (case make_certs_iovec Q certs format of
        Err e \<Rightarrow> (Err e, q)
      | Ok certs \<Rightarrow>
          (case picoquic_set_tls_root_certificates Q q quic certs of (res, q) \<Rightarrow>
             (if res = -1 then bail ''Error at loading a root certificate''
              else if res = -2 then bail ''Error at adding a root certificate, maybe a duplicate?''
              else Ok (), q)))"

definition set_tls_private_key ::
  "('q, 'h, 'x, 'k, 'i, 'e) qenv \<Rightarrow> ptr \<Rightarrow> bytes \<Rightarrow> file_format \<Rightarrow> 'q \<Rightarrow> (unit, error) result \<times> 'q" where
  "set_tls_private_key Q quic key format q =
     (case (case format of
              DER \<Rightarrow> Ok key
            | PEM \<Rightarrow> result_bind (from_stack (private_key_from_pem Q key))
                       (\<lambda>k. from_stack (private_key_to_der Q k))) of
        Err e \<Rightarrow> (Err e, q)
      | Ok key \<Rightarrow>
          (case picoquic_set_tls_key Q q quic key of (res, q) \<Rightarrow>
             (if res = 0 then Ok () else Err (error_from_kind Unknown), q)))"

text \<open>\<^verbatim>\<open>verify_certificate::setup_callback\<close>.\<close>

definition setup_callback ::
  "('q, 'h, 'x, 'k, 'i, 'e) qenv \<Rightarrow> ptr \<Rightarrow> 'h \<Rightarrow> 'q \<Rightarrow> (unit, error) result \<times> 'q" where
  "setup_callback Q quic handler q =
     (case picoquic_set_verify_certificate_callback Q q quic handler of (res, q) \<Rightarrow>
        (if res \<noteq> 0 then Err (error_from_kind OutOfMemoryError) else Ok (), q))"

section \<open>The context\<close>

definition quic_ctx_drop :: "('q, 'h, 'x, 'k, 'i, 'e) qenv \<Rightarrow> quic_ctx \<Rightarrow> 'q \<Rightarrow> 'q" where
  "quic_ctx_drop Q self q = picoquic_free Q q (qc_quic self)"

text \<open>A step that may return early, and an optional one.\<close>

definition and_then ::
  "(unit, error) result \<times> 'q \<Rightarrow> ('q \<Rightarrow> (unit, error) result \<times> 'q) \<Rightarrow> (unit, error) result \<times> 'q" where
  "and_then rq f = (case rq of (Err e, q) \<Rightarrow> (Err e, q) | (Ok _, q) \<Rightarrow> f q)"

definition if_some ::
  "'a option \<Rightarrow> ('a \<Rightarrow> 'q \<Rightarrow> (unit, error) result \<times> 'q) \<Rightarrow> 'q \<Rightarrow> (unit, error) result \<times> 'q" where
  "if_some x f q = (case x of Some a \<Rightarrow> f a q | None \<Rightarrow> (Ok (), q))"

definition quic_ctx_setup ::
  "('q, 'h, 'x, 'k, 'i, 'e) qenv \<Rightarrow> 'h config \<Rightarrow> ptr \<Rightarrow> 'q \<Rightarrow> (unit, error) result \<times> 'q" where
  "quic_ctx_setup Q cfg quic q =
     (let q = (if client_authentication cfg then picoquic_set_client_authentication Q q quic 1 else q)
      in and_then (and_then (and_then
           (if_some (certificate_chain cfg)
              (\<lambda>(format, chain). set_tls_certificate_chain Q quic chain format) q)
           (if_some (private_key cfg) (\<lambda>(format, key). set_tls_private_key Q quic key format)))
           (if_some (root_certificates cfg)
              (\<lambda>(format, certs). set_tls_root_certificates Q quic certs format)))
           (if_some (verify_certificate_handler cfg) (setup_callback Q quic)))"

text \<open>\<^verbatim>\<open>QuicCtx::new\<close>: a null pointer panics; an early return after the context is
  created drops it.\<close>

definition quic_ctx_new ::
  "('q, 'h, 'x, 'k, 'i, 'e) qenv \<Rightarrow> 'h config \<Rightarrow> ptr \<Rightarrow> 'q \<Rightarrow> ((quic_ctx, error) result \<times> 'q) option" where
  "quic_ctx_new Q cfg default_ctx q =
     (case create_cstring (certificate_chain_filename cfg) of
        Err e \<Rightarrow> Some (Err e, q)
      | Ok cert_filename \<Rightarrow>
     (case create_cstring (private_key_filename cfg) of
        Err e \<Rightarrow> Some (Err e, q)
      | Ok key_filename \<Rightarrow>
     (case create_cstring (root_certificate_filename cfg) of
        Err e \<Rightarrow> Some (Err e, q)
      | Ok root_cert_filename \<Rightarrow>
     (case picoquic_create Q q 16 cert_filename key_filename root_cert_filename default_ctx
             (reset_seed cfg) (picoquic_current_time Q q) of
        (quic, q) \<Rightarrow>
          if quic = 0 then None
          else
            let self = \<lparr>qc_quic = quic, qc_max_delay = \<lparr>dur_secs = 10, dur_nanos = 0\<rparr>\<rparr> in
            case quic_ctx_setup Q cfg quic q of
              (Err e, q) \<Rightarrow> Some (Err e, quic_ctx_drop Q self q)
            | (Ok _, q) \<Rightarrow> Some (Ok self, q)))))"

definition get_current_time :: "('q, 'h, 'x, 'k, 'i, 'e) qenv \<Rightarrow> 'q \<Rightarrow> u64" where
  "get_current_time Q q = picoquic_current_time Q q"

definition get_next_wake_up_time ::
  "('q, 'h, 'x, 'k, 'i, 'e) qenv \<Rightarrow> quic_ctx \<Rightarrow> u64 \<Rightarrow> 'q \<Rightarrow> 'i option option" where
  "get_next_wake_up_time Q self current_time q =
     (let max_delay = as_micro_seconds (qc_max_delay self);
          wake_up = picoquic_get_next_wake_delay Q q (qc_quic self) current_time max_delay
      in if wake_up = 0 then Some None
         else do {
           d \<leftarrow> from_micro_seconds wake_up;
           at \<leftarrow> instant_add Q (instant_now Q q) d;
           Some (Some at)
         })"

section \<open>Lemmas\<close>

lemma create_cstring_Ok:
  "create_cstring p = Ok r \<longleftrightarrow> r = p \<and> (\<forall>x\<in>set_option p. utf8_valid x \<and> 0 \<notin> set x)"
  by (auto simp: create_cstring_def cstring_new_def split: option.split)

lemma pem_certs_Ok:
  "pem_certs Q certs = Ok ders \<longleftrightarrow>
     list_all2 (\<lambda>c d. \<exists>x. x509_from_pem Q c = Ok x \<and> x509_to_der Q x = Ok d) certs ders"
proof (induction certs arbitrary: ders)
  case Nil
  then show ?case by auto
next
  case (Cons c certs)
  show ?case
  proof (cases "x509_from_pem Q c")
    case (Ok x)
    with Cons.IH show ?thesis
      by (cases "x509_to_der Q x"; cases "pem_certs Q certs")
         (auto simp: from_stack_def list_all2_Cons1)
  next
    case (Err e)
    then show ?thesis by (auto simp: from_stack_def list_all2_Cons1)
  qed
qed

lemma pem_certs_Err: "pem_certs Q certs = Err e \<Longrightarrow> e = MkError OpenSSLError"
proof (induction certs)
  case (Cons c certs)
  then show ?case
    by (auto simp: from_stack_def error_from_error_stack_def error_from_kind_def result_bind_eqs
        map_err_eq_Err)
qed simp

lemma max_delay_micros: "as_micro_seconds \<lparr>dur_secs = 10, dur_nanos = 0\<rparr> = 10000000"
  by (simp add: as_micro_seconds_def)

end
