(* ===== verification/Ffi_Props.thy ===== *)
theory Ffi_Props
  imports Quic_Ctx Stream_Ids Channels
begin

text \<open>
  The properties of the parts that stand alone: stream identifiers, durations, the
  configuration, the certificate callbacks, the picoquic context, the channels with an error
  cell and the error kinds.
\<close>

section \<open>Stream identifiers\<close>

text \<open>C28.  A generated id can be read back: its two flag bits are exactly the initiator and
  the direction it was made for, and on a unidirectional stream exactly the side that made it
  may send.\<close>

theorem generate_stream_id_classified:
  "is_client_initiated (generate_stream_id n is_client t) = is_client \<and>
   is_unidirectional (generate_stream_id n is_client t) = (t = Unidirectional) \<and>
   is_unidirectional_send_allowed (generate_stream_id n is_client t) side = (side = is_client)"
  by (auto simp: generate_classified is_unidirectional_send_allowed_def)

text \<open>C29.  As long as the counter is below \<open>2\<^sup>6\<^sup>2 - 1\<close>, two different requests never get the
  same id, and none of the ids 0 to 3 is handed out.\<close>

theorem generate_stream_id_injective:
  assumes "unat n < 2 ^ 62 - 1" "unat n' < 2 ^ 62 - 1"
  shows "(generate_stream_id n c t = generate_stream_id n' c' t' \<longleftrightarrow> n = n' \<and> c = c' \<and> t = t') \<and>
    4 \<le> generate_stream_id n c t"
proof -
  have "generate_stream_id n c t = generate_stream_id n' c' t' \<Longrightarrow> c = c' \<and> t = t'"
    using generate_classified [of n c t] generate_classified [of n' c' t']
    by (cases t; cases t') auto
  moreover have "generate_stream_id n c t = generate_stream_id n' c t \<Longrightarrow> n = n'"
    using unat_generate [OF assms(1), of c t] unat_generate [OF assms(2), of c t]
    by (simp add: word_unat_eq_iff)
  moreover have "4 \<le> generate_stream_id n c t"
    by (simp add: word_le_nat_alt unat_generate [OF assms(1)])
  ultimately show ?thesis by blast
qed

theorem generate_stream_id_injective_witness:
  "(generate_stream_id 0 True Bidirectional = generate_stream_id 1 True Bidirectional \<longleftrightarrow>
      (0 :: u64) = 1 \<and> True = True \<and> Bidirectional = Bidirectional) \<and>
   4 \<le> generate_stream_id 0 True Bidirectional"
  by (rule generate_stream_id_injective) simp_all

text \<open>The bound is sharp: one step further the counter wraps to the reserved id 0 (which
  the connection ignores in callbacks), and from there the ids repeat.\<close>

theorem generate_stream_id_wraps:
  "generate_stream_id (2 ^ 62 - 1) True Bidirectional = 0 \<and>
   generate_stream_id (n + 2 ^ 62) c t = generate_stream_id n c t"
proof -
  have "(2 :: u64) ^ LENGTH(64) = 0" by (rule word_exp_length_eq_0)
  moreover have "4 * 2 ^ 62 = (2 :: u64) ^ LENGTH(64)" by simp
  ultimately have z: "4 * (2 :: u64) ^ 62 = 0" by (simp only:)
  have "n + 2 ^ 62 + 1 = (n + 1) + (2 :: u64) ^ 62" by (simp only: ac_simps)
  then have "4 * (n + 2 ^ 62 + 1) = 4 * (n + 1) + 4 * (2 :: u64) ^ 62"
    by (simp only: distrib_left [of 4 "n + 1"])
  with z have "4 * (n + 2 ^ 62 + 1) = 4 * (n + 1)" by (simp only: add_0_right)
  moreover have "generate_stream_id (2 ^ 62 - 1) True Bidirectional = 4 * 2 ^ 62"
    by (simp only: generate_eq_add diff_add_cancel if_True stream_type.distinct if_False add_0_right)
  ultimately show ?thesis using z by (simp only: generate_eq_add simp_thms)
qed

section \<open>Durations\<close>

text \<open>C30.  Every number of microseconds converts into a duration without a panic, and back to
  the same number.\<close>

theorem micro_seconds_roundtrip:
  "\<exists>d. from_micro_seconds m = Some d \<and> as_micro_seconds d = m \<and> duration_ok d"
proof -
  let ?d = "\<lparr>dur_secs = m div 1000000, dur_nanos = ucast (m mod 1000000 * 1000)\<rparr>"
  have s: "unat m mod 1000000 * 1000 < (10 :: nat) ^ 9"
    using mod_less_divisor [of 1000000 "unat m"] by simp
  have "unat (as_micro_seconds ?d) = (unat m div 1000000 * 1000000 + unat m mod 1000000) mod 2 ^ 64"
    by (simp add: unat_as_micro_seconds unat_micro_nanos unat_div)
  also have "\<dots> = unat m"
    using unat_word_bounds(1) [of m] by (simp add: div_mult_mod_eq)
  finally have "as_micro_seconds ?d = m" by (simp add: word_unat_eq_iff)
  moreover have "duration_ok ?d" using s by (simp add: duration_ok_def unat_micro_nanos)
  ultimately show ?thesis by (auto simp: from_micro_seconds_eq)
qed

text \<open>The other way round a duration loses only what is below a microsecond, provided its
  microseconds fit into 64 bits; otherwise the conversion wraps around.\<close>

theorem as_micro_seconds_value:
  assumes "duration_ok d" "unat (dur_secs d) * 1000000 + unat (dur_nanos d) div 1000 < 2 ^ 64"
  shows "unat (as_micro_seconds d) = unat (dur_secs d) * 1000000 + unat (dur_nanos d) div 1000 \<and>
    (\<exists>d'. from_micro_seconds (as_micro_seconds d) = Some d' \<and> dur_secs d' = dur_secs d \<and>
       unat (dur_nanos d') = unat (dur_nanos d) - unat (dur_nanos d) mod 1000)"
proof -
  have v: "unat (as_micro_seconds d) = unat (dur_secs d) * 1000000 + unat (dur_nanos d) div 1000"
    using assms(2) by (simp add: unat_as_micro_seconds)
  have small: "unat (dur_nanos d) div 1000 < 1000000"
    using assms(1) by (simp add: duration_ok_def)
  let ?d = "\<lparr>dur_secs = as_micro_seconds d div 1000000,
    dur_nanos = ucast (as_micro_seconds d mod 1000000 * 1000)\<rparr>"
  have "from_micro_seconds (as_micro_seconds d) = Some ?d" by (rule from_micro_seconds_eq)
  moreover have "dur_secs ?d = dur_secs d"
    using small by (simp add: word_unat_eq_iff unat_div v)
  moreover have "unat (as_micro_seconds d) mod 1000000 * 1000 =
      unat (dur_nanos d) - unat (dur_nanos d) mod 1000"
    using small by (simp add: v minus_mod_eq_div_mult)
  then have "unat (dur_nanos ?d) = unat (dur_nanos d) - unat (dur_nanos d) mod 1000"
    by (simp only: duration.select_convs unat_micro_nanos)
  ultimately show ?thesis using v by blast
qed

theorem as_micro_seconds_value_witness:
  "unat (as_micro_seconds \<lparr>dur_secs = 1, dur_nanos = 5999\<rparr>) = 1000005 \<and>
    (\<exists>d'. from_micro_seconds (as_micro_seconds \<lparr>dur_secs = 1, dur_nanos = 5999\<rparr>) = Some d' \<and>
       dur_secs d' = 1 \<and> unat (dur_nanos d') = 5000)"
  using as_micro_seconds_value [of "\<lparr>dur_secs = 1, dur_nanos = 5999\<rparr>"]
  by (simp add: duration_ok_def)

section \<open>Configuration\<close>

text \<open>C31.  The check accepts a configuration exactly when key and certificate are both given or
  both absent and every named file exists; otherwise it reports the mismatch first, then the
  first missing file in the order chain, root, key.\<close>

theorem config_verify_decides:
  "(config_verify fs cfg = Ok () \<longleftrightarrow> config_valid fs cfg) \<and>
   config_verify fs cfg =
     (if (private_key cfg = None \<and> private_key_filename cfg = None) \<noteq>
         (certificate_chain cfg = None \<and> certificate_chain_filename cfg = None)
      then bail ''Either both, private key and certificate chain need to be set or none of them!''
      else case missing_files fs cfg of
             [] \<Rightarrow> Ok ()
           | p # _ \<Rightarrow> bail (''File does not exist: '' @ debug_path fs p))"
  by (intro conjI config_verify_Ok config_verify_eq)

text \<open>Cloning a configuration keeps everything but the handler, so a clone passes the
  check whenever the original does, and cloning twice changes nothing more.\<close>

theorem config_clone_from_keeps:
  "config_verify fs (config_clone_from cfg) = config_verify fs cfg \<and>
   verify_certificate_handler (config_clone_from cfg) = None \<and>
   config_clone_from (config_clone_from cfg) = config_clone_from cfg"
proof -
  have "config_verify fs (config_clone_from cfg) = config_verify fs cfg"
    unfolding config_verify_def Let_def config_clone_from_def by (simp only: config.select_convs)
  then show ?thesis by (simp add: config_clone_from_def)
qed

section \<open>Certificates\<close>

text \<open>C23.  The certificate callback never panics.  It accepts (code 0, and a key for the
  signature check) exactly when there is a certificate, all certificates parse, the user's handler
  says yes on the first one with the others behind it as the chain, and the first one has a public
  key; then this key is handed out, and on every other path none is.  (Of OpenSSL it is assumed
  that a certificate can be pushed onto a stack.)\<close>

theorem verify_certificate_accepts:
  assumes "ptls_codes_nonzero T" "stack_new ossl = Ok []" "\<And>chain x. stack_push ossl chain x = Ok (chain @ [x])"
  shows "\<exists>code h' key. verify_certificate_callback T ossl verify h lid ct certs = Some (code, h', key) \<and>
    (code = 0 \<longleftrightarrow>
      (\<exists>first rest cert chain k. certs = first # rest \<and>
         list_all2 (\<lambda>der x. x509_from_der ossl der = Ok x) (first # rest) (cert # chain) \<and>
         verify h lid ct cert chain = (Ok True, h') \<and> x509_public_key ossl cert = Ok k \<and> key = Some k)) \<and>
    (code \<noteq> 0 \<longrightarrow> key = None)"
proof -
  obtain code h' key where r: "verify_certificate_callback T ossl verify h lid ct certs = Some (code, h', key)"
    using verify_certificate_total [of T ossl verify h lid ct certs] by blast
  have "extract_certificates ossl certs = Some (Ok (cert, chain)) \<longleftrightarrow>
      (\<exists>first rest. certs = first # rest \<and>
         list_all2 (\<lambda>der x. x509_from_der ossl der = Ok x) (first # rest) (cert # chain))" for cert chain
    by (cases certs) (auto simp: extract_certificates_def extract_certificate_def result_bind_eqs assms(2)
        extract_chain_Ok [OF assms(3)])
  with verify_certificate_zero [OF assms(1) r] r show ?thesis by (intro exI conjI) (assumption, blast+)
qed

definition sample_ptls :: ptls where
  "sample_ptls =
     \<lparr>PTLS_ALERT_BAD_CERTIFICATE = 42, PTLS_ALERT_CERTIFICATE_EXPIRED = 45,
      PTLS_ALERT_CERTIFICATE_REVOKED = 44, PTLS_ALERT_CERTIFICATE_UNKNOWN = 46,
      PTLS_ALERT_DECRYPT_ERROR = 51, PTLS_ERROR_LIBRARY = 0x203, PTLS_ERROR_NO_MEMORY = 0x201\<rparr>"

text \<open>An OpenSSL in which a certificate is its encoding, a key is the certificate, a verifier is
  what it was told, and a signature is the signed data behind the key, which counts only under all
  three settings for RSA.\<close>

definition sample_openssl :: "(bytes, bytes, bytes signature_check) openssl" where
  "sample_openssl =
     \<lparr>x509_from_der = (\<lambda>b. if b = [] then Err [1] else Ok b),
      stack_push = (\<lambda>xs x. Ok (xs @ [x])), stack_new = Ok [],
      x509_public_key = Ok, pkey_is_rsa = (\<lambda>_. True),
      verifier_new_sha256 = (\<lambda>k. Ok (rsa_pss_check k False [])),
      set_rsa_padding_pss = (\<lambda>v. Ok (v\<lparr>sv_padding_pss := True\<rparr>)),
      set_rsa_pss_saltlen_digest = (\<lambda>v. Ok (v\<lparr>sv_saltlen_digest := True\<rparr>)),
      set_rsa_mgf1_sha256 = (\<lambda>v. Ok (v\<lparr>sv_mgf1_sha256 := True\<rparr>)),
      verifier_update = (\<lambda>v d. Ok (v\<lparr>sv_data := sv_data v @ d\<rparr>)),
      verifier_verify = (\<lambda>v s. Ok (sv_key v @ sv_data v = s \<and> sv_padding_pss v \<and> sv_saltlen_digest v \<and> sv_mgf1_sha256 v)),
      X509_V_ERR_OUT_OF_MEM = 17, X509_V_ERR_CERT_REVOKED = 23, X509_V_ERR_CERT_HAS_EXPIRED = 10\<rparr>"

definition sample_valid :: "bytes signature_check \<Rightarrow> bytes \<Rightarrow> bool" where
  "sample_valid v s \<longleftrightarrow> sv_key v @ sv_data v = s \<and> sv_padding_pss v \<and> sv_saltlen_digest v \<and> sv_mgf1_sha256 v"

interpretation sample_verifier: openssl_verifier sample_openssl "\<lambda>v. v" sample_valid
  by unfold_locales (auto simp: sample_openssl_def sample_valid_def)

lemma sample_ptls_nonzero: "ptls_codes_nonzero sample_ptls"
  by (simp add: ptls_codes_nonzero_def sample_ptls_def)

theorem verify_certificate_accepts_witness:
  "\<exists>code h' key. verify_certificate_callback sample_ptls sample_openssl
      (\<lambda>h lid ct cert chain. (Ok (chain = [[3], [4]]), Suc h)) 0 7 Incoming [[1, 2], [3], [4]] = Some (code, h', key) \<and>
    (code = 0 \<longleftrightarrow>
      (\<exists>first rest cert chain k. [[1, 2], [3], [4]] = first # rest \<and>
         list_all2 (\<lambda>der x. x509_from_der sample_openssl der = Ok x) (first # rest) (cert # chain) \<and>
         (Ok (chain = [[3], [4]]) :: (bool, error_stack) result, Suc 0) = (Ok True, h') \<and>
         x509_public_key sample_openssl cert = Ok k \<and> key = Some k)) \<and>
    (code \<noteq> 0 \<longrightarrow> key = None)"
  by (rule verify_certificate_accepts [OF sample_ptls_nonzero, where h = "0 :: nat" and
        verify = "\<lambda>h lid ct cert chain. (Ok (chain = [[3], [4]]), Suc h)"]) (simp_all add: sample_openssl_def)



section \<open>Channels and errors\<close>

text \<open>C32.  A send on an open channel is queued behind what is there, or handed back when the
  channel is bounded; on a closed one it fails with the error the receiving side left, and
  without one it hands the message back.  No message is both queued and reported.\<close>

theorem sender_start_send_cases:
  assumes "mpsc_channel M view"
  shows "\<exists>r ce'. sender_start_send M ce m = (r, ce') \<and> ce_error ce' = ce_error ce \<and>
    (if cv_open (view (ce_chan ce)) then
       r = Ok SinkReady \<and> view (ce_chan ce') =
         view (ce_chan ce)\<lparr>cv_buffer := cv_buffer (view (ce_chan ce)) @ [m]\<rparr> \<or>
       r = Ok (SinkNotReady m) \<and> view (ce_chan ce') = view (ce_chan ce) \<and>
         cv_bound (view (ce_chan ce)) \<noteq> None
     else r = Err (case ce_error ce of Some f \<Rightarrow> Channel (f ()) m | None \<Rightarrow> Normal m) \<and>
       view (ce_chan ce') = view (ce_chan ce))"
proof (cases "cv_open (view (ce_chan ce))")
  case True
  then show ?thesis
    using mpsc_channel.sender_start_send_open [OF assms True, of m]
    by (cases "sender_start_send M ce m") auto
next
  case False
  then show ?thesis
    using mpsc_channel.sender_start_send_closed [OF assms False, of m]
    by (cases "sender_start_send M ce m") auto
qed

definition sample_chan :: "nat chan_view chan_err" where
  "sample_chan = channel fifo_mpsc 1"

theorem sender_start_send_cases_witness:
  "\<exists>r ce'. sender_start_send fifo_mpsc sample_chan 5 = (r, ce') \<and> ce_error ce' = ce_error sample_chan \<and>
    (if cv_open (ce_chan sample_chan) then
       r = Ok SinkReady \<and> ce_chan ce' =
         (ce_chan sample_chan)\<lparr>cv_buffer := cv_buffer (ce_chan sample_chan) @ [5]\<rparr> \<or>
       r = Ok (SinkNotReady 5) \<and> ce_chan ce' = ce_chan sample_chan \<and>
         cv_bound (ce_chan sample_chan) \<noteq> None
     else r = Err (case ce_error sample_chan of Some f \<Rightarrow> Channel (f ()) 5 | None \<Rightarrow> Normal 5) \<and>
       ce_chan ce' = ce_chan sample_chan)"
  by (rule sender_start_send_cases [OF fifo.mpsc_channel_axioms])

text \<open>Every error given to the receiving side replaces the one before: the last one is
  what a sender sees.\<close>

theorem propagate_error_last_wins:
  assumes "mpsc_channel M view" "\<not> cv_open (view (ce_chan ce))"
  shows "fst (sender_start_send M (propagate_error g (propagate_error f ce)) m) = Err (Channel (g ()) m)"
proof -
  let ?ce = "propagate_error g (propagate_error f ce)"
  have "\<not> cv_open (view (ce_chan ?ce))" "ce_error ?ce = Some g"
    using assms(2) by (simp_all add: mpsc_channel.propagate_error_view [OF assms(1)])
  then show ?thesis
    using mpsc_channel.sender_start_send_closed(1) [OF assms(1)] by simp
qed

theorem propagate_error_last_wins_witness:
  "fst (sender_start_send fifo_mpsc
      (propagate_error (\<lambda>_. MkError Unknown) (propagate_error (\<lambda>_. MkError Disconnected)
        (receiver_close fifo_mpsc (channel fifo_mpsc 1)))) (5 :: nat)) =
   Err (Channel (MkError Unknown) 5)"
  by (rule propagate_error_last_wins [OF fifo.mpsc_channel_axioms])
     (simp add: receiver_close_def channel_def fifo_mpsc_def)

text \<open>Comparing error kinds ignores payloads and nothing else: it is an equivalence, and
  two kinds compare equal exactly when they are the same after erasing their payloads.\<close>

theorem error_kind_eq_equivalence:
  "equivp error_kind_eq \<and> (error_kind_eq a b \<longleftrightarrow> erase_payload a = erase_payload b)"
  by (simp add: equivp_error_kind_eq error_kind_eq_erase)

end
