(* ===== verification/Quic_Lifetime.thy ===== *)
theory Quic_Lifetime
  imports Quic_Ctx
begin

text \<open>
  The lifetime of the picoquic context that \<^verbatim>\<open>src/ffi/quic_ctx.rs\<close> owns: every
  early return of \<^verbatim>\<open>QuicCtx::new\<close> leaves no context behind, and a successful one
  leaves exactly the context it returns.
\<close>

text \<open>What the sources rely on: \<open>live\<close> is the set of contexts that exist.  Creating one
  gives a new pointer or null, freeing removes it, and no other call creates or frees one.\<close>

locale quic_alloc =
  fixes Q :: "('q, 'h, 'x, 'k, 'i, 'e) qenv"
    and live :: "'q \<Rightarrow> ptr set"
  assumes live_create:
      "picoquic_create Q q n c k r d s t = (p, q') \<Longrightarrow>
       live q' = (if p = 0 then live q else insert p (live q)) \<and> (p \<noteq> 0 \<longrightarrow> p \<notin> live q)"
    and live_free: "live (picoquic_free Q q p) = live q - {p}"
    and live_client_authentication: "live (picoquic_set_client_authentication Q q p v) = live q"
    and live_certificate_chain: "live (picoquic_set_tls_certificate_chain Q q p cs) = live q"
    and live_root_certificates: "live (snd (picoquic_set_tls_root_certificates Q q p cs)) = live q"
    and live_key: "live (snd (picoquic_set_tls_key Q q p key)) = live q"
    and live_verify: "live (snd (picoquic_set_verify_certificate_callback Q q p h)) = live q"
begin

lemma live_and_then:
  assumes "live (snd rq) = A" "\<And>q. live q = A \<Longrightarrow> live (snd (f q)) = A"
  shows "live (snd (and_then rq f)) = A"
  using assms by (cases rq) (auto simp: and_then_def split: result.split)

lemma live_if_some:
  assumes "\<And>a. live (snd (f a q)) = live q"
  shows "live (snd (if_some x f q)) = live q"
  using assms by (simp add: if_some_def split: option.split)

lemma live_steps:
  "live (snd (set_tls_certificate_chain Q p cs fmt q)) = live q"
  "live (snd (set_tls_root_certificates Q p cs fmt q)) = live q"
  "live (snd (set_tls_private_key Q p key fmt q)) = live q"
  "live (snd (setup_callback Q p h q)) = live q"
  by (simp_all add: set_tls_certificate_chain_def set_tls_root_certificates_def
      set_tls_private_key_def setup_callback_def live_certificate_chain live_root_certificates
      live_key live_verify split_beta split: result.split)

lemma live_setup: "live (snd (quic_ctx_setup Q cfg p q)) = live q"
  unfolding quic_ctx_setup_def Let_def
  by (intro live_and_then)
     (simp_all add: live_if_some live_steps live_client_authentication split_beta)

lemma quic_ctx_new_live:
  assumes "quic_ctx_new Q cfg d q = Some (r, q')"
  shows "case r of
      Ok qc \<Rightarrow> live q' = insert (qc_quic qc) (live q) \<and> qc_quic qc \<notin> live q \<and> qc_quic qc \<noteq> 0
    | Err _ \<Rightarrow> live q' = live q"
proof (cases "is_err (create_cstring (certificate_chain_filename cfg)) \<or>
    is_err (create_cstring (private_key_filename cfg)) \<or>
    is_err (create_cstring (root_certificate_filename cfg))")
  case True
  with assms have "is_err r \<and> q' = q"
    by (auto simp: quic_ctx_new_def is_err_iff split: result.splits prod.splits if_splits)
  then show ?thesis by (cases r) auto
next
  case False
  then obtain c k rt where ok: "create_cstring (certificate_chain_filename cfg) = Ok c"
    "create_cstring (private_key_filename cfg) = Ok k" "create_cstring (root_certificate_filename cfg) = Ok rt"
    by (metis is_err.simps(2) result.exhaust)
  obtain p q1 where cr: "picoquic_create Q q 16 c k rt d (reset_seed cfg) (picoquic_current_time Q q) = (p, q1)"
    by fastforce
  obtain s q2 where st: "quic_ctx_setup Q cfg p q1 = (s, q2)" by fastforce
  have "live q2 = live q1" using live_setup [of cfg p q1] st by simp
  with live_create [OF cr] assms ok cr st show ?thesis
    by (cases s)
       (auto simp: quic_ctx_new_def quic_ctx_drop_def Let_def live_free split: if_splits)
qed

end

text \<open>An allocator: the state is the list of live contexts, a number for the next one, and
  whether keys are refused.\<close>

definition alloc_env :: "int \<Rightarrow> (ptr list, unit, bytes, bytes, nat) quic_env" where
  "alloc_env key_result =
     \<lparr>picoquic_current_time = (\<lambda>_. 0),
      picoquic_create = (\<lambda>q _ _ _ _ _ _ _. let p = Suc (fold max q 0) in (p, p # q)),
      picoquic_set_client_authentication = (\<lambda>q _ _. q),
      picoquic_set_tls_certificate_chain = (\<lambda>q _ _. q),
      picoquic_set_tls_root_certificates = (\<lambda>q _ _. (0, q)),
      picoquic_set_tls_key = (\<lambda>q _ _. (key_result, q)),
      picoquic_set_verify_certificate_callback = (\<lambda>q _ _. (0, q)),
      picoquic_free = (\<lambda>q p. filter (\<lambda>x. x \<noteq> p) q),
      picoquic_get_next_wake_delay = (\<lambda>_ _ _ m. m),
      x509_from_pem = Ok, x509_to_der = Ok, private_key_from_pem = Ok, private_key_to_der = Ok,
      instant_now = (\<lambda>_. 0), instant_add = (\<lambda>i d. Some (i + unat (dur_secs d)))\<rparr>"

lemma fold_max_bound: "x \<in> set q \<or> x \<le> a \<Longrightarrow> x \<le> fold max q (a :: nat)"
proof (induction q arbitrary: a)
  case (Cons y q)
  from Cons.prems Cons.IH [of "max y a"] show ?case by (auto simp: le_max_iff_disj)
qed simp

interpretation alloc: quic_alloc "alloc_env key_result" set
proof unfold_locales
  fix q n c k r d s t p q'
  assume "picoquic_create (alloc_env key_result) q n c k r d s t = (p, q')"
  then have "p = Suc (fold max q 0)" "q' = p # q" by (auto simp: alloc_env_def Let_def)
  moreover have "Suc (fold max q 0) \<notin> set q"
    using fold_max_bound [of "Suc (fold max q 0)" q 0] by auto
  ultimately show "set q' = (if p = 0 then set q else insert p (set q)) \<and> (p \<noteq> 0 \<longrightarrow> p \<notin> set q)"
    by simp
qed (auto simp: alloc_env_def)

text \<open>C19.  Whatever step fails, \<^verbatim>\<open>QuicCtx::new\<close> leaves no picoquic context behind;
  when it succeeds, exactly the new context that it returns is left, and it is not null.\<close>

theorem quic_ctx_new_no_leak:
  assumes "quic_alloc Q live" "quic_ctx_new Q cfg d q = Some (r, q')"
  shows "case r of
      Ok qc \<Rightarrow> live q' = insert (qc_quic qc) (live q) \<and> qc_quic qc \<notin> live q \<and> qc_quic qc \<noteq> 0
    | Err _ \<Rightarrow> live q' = live q"
  by (rule quic_alloc.quic_ctx_new_live [OF assms])

definition alloc_config :: "unit config" where
  "alloc_config = set_private_key [1] DER (set_certificate_chain [[2]] PEM config_default)"

lemmas alloc_run = quic_ctx_new_def alloc_config_def set_private_key_def set_certificate_chain_def
  config_default_def create_cstring_def alloc_env_def quic_ctx_setup_def and_then_def if_some_def
  set_tls_certificate_chain_def set_tls_private_key_def make_certs_iovec_def from_stack_def
  quic_ctx_drop_def error_from_kind_def Let_def

theorem quic_ctx_new_no_leak_witness:
  "quic_ctx_new (alloc_env 1) alloc_config 9 [4] = Some (Err (MkError Unknown), [4]) \<and>
   quic_ctx_new (alloc_env 0) alloc_config 9 [4] =
     Some (Ok \<lparr>qc_quic = 5, qc_max_delay = \<lparr>dur_secs = 10, dur_nanos = 0\<rparr>\<rparr>, [5, 4]) \<and>
   set [5, 4] = insert (5 :: ptr) (set [4]) \<and> 5 \<notin> set [4 :: ptr]"
proof -
  have "quic_ctx_new (alloc_env 1) alloc_config 9 [4] = Some (Err (MkError Unknown), [4])"
    by (simp add: alloc_run)
  moreover have e: "quic_ctx_new (alloc_env 0) alloc_config 9 [4] =
     Some (Ok \<lparr>qc_quic = 5, qc_max_delay = \<lparr>dur_secs = 10, dur_nanos = 0\<rparr>\<rparr>, [5, 4])"
    by (simp add: alloc_run)
  moreover note quic_ctx_new_no_leak [OF alloc.quic_alloc_axioms e]
  ultimately show ?thesis by simp
qed

text \<open>The time of the next wake-up: picoquic is asked with a maximum of ten seconds; it runs
  again at once exactly if it answers zero, and otherwise after exactly the delay it asked for.\<close>

theorem get_next_wake_up_time_exact:
  assumes "qc_max_delay self = \<lparr>dur_secs = 10, dur_nanos = 0\<rparr>"
    and "delay = picoquic_get_next_wake_delay Q q (qc_quic self) current_time 10000000"
  shows "get_next_wake_up_time Q self current_time q =
    (if delay = 0 then Some None
     else map_option Some (instant_add Q (instant_now Q q)
       \<lparr>dur_secs = delay div 1000000, dur_nanos = ucast (delay mod 1000000 * 1000)\<rparr>))"
  unfolding get_next_wake_up_time_def assms(1) max_delay_micros Let_def assms(2) [symmetric]
    from_micro_seconds_eq
  by (cases "instant_add Q (instant_now Q q)
       \<lparr>dur_secs = delay div 1000000, dur_nanos = ucast (delay mod 1000000 * 1000)\<rparr>") simp_all

theorem get_next_wake_up_time_exact_witness:
  "get_next_wake_up_time (alloc_env 0) \<lparr>qc_quic = 4, qc_max_delay = \<lparr>dur_secs = 10, dur_nanos = 0\<rparr>\<rparr> 5 [4] =
     Some (Some 10)"
  using get_next_wake_up_time_exact [of "\<lparr>qc_quic = 4, qc_max_delay = \<lparr>dur_secs = 10, dur_nanos = 0\<rparr>\<rparr>"
      10000000 "alloc_env 0" "[4]" 5]
  by (simp add: alloc_env_def)

end
