(* ===== verification/Oneshot.thy ===== *)
theory Oneshot
  imports Prelude
begin

text \<open>
  \<^verbatim>\<open>futures::sync::oneshot\<close>, the second kind of channel the sources use.  Like the
  queue it is not part of the repository: the record \<open>oneshot\<close> collects the operations
  that are called, and the locale \<open>oneshot_channel\<close> states their documented behaviour on
  what is observable: the value in transit and which of the two ends is alive.
\<close>

record ('o, 'a) oneshot =
  os_new :: 'o
  os_send :: "'o \<Rightarrow> 'a \<Rightarrow> (unit, 'a) result \<times> 'o"  \<comment> \<open>consumes the sender\<close>
  os_poll :: "'o \<Rightarrow> ('a, unit) poll \<times> 'o"  \<comment> \<open>the error is \<^verbatim>\<open>Canceled\<close>\<close>
  os_poll_cancel :: "'o \<Rightarrow> (unit, unit) poll \<times> 'o"
  os_drop_tx :: "'o \<Rightarrow> 'o"
  os_drop_rx :: "'o \<Rightarrow> 'a option \<times> 'o"

record 'a os_view =
  ov_value :: "'a option"
  ov_tx :: bool
  ov_rx :: bool

definition ov_new :: "'a os_view" where
  "ov_new = \<lparr>ov_value = None, ov_tx = True, ov_rx = True\<rparr>"

definition ov_send :: "'a os_view \<Rightarrow> 'a \<Rightarrow> (unit, 'a) result \<times> 'a os_view" where
  "ov_send v a =
     (if ov_rx v then (Ok (), v\<lparr>ov_value := Some a, ov_tx := False\<rparr>)
      else (Err a, v\<lparr>ov_tx := False\<rparr>))"

definition ov_poll :: "'a os_view \<Rightarrow> ('a, unit) poll \<times> 'a os_view" where
  "ov_poll v =
     (case ov_value v of
        Some a \<Rightarrow> (Ok (Ready a), v\<lparr>ov_value := None\<rparr>)
      | None \<Rightarrow> if ov_tx v then (Ok NotReady, v) else (Err (), v))"

locale oneshot_channel =
  fixes S :: "('o, 'a) oneshot"
    and oview :: "'o \<Rightarrow> 'a os_view"
  assumes oview_new: "oview (os_new S) = ov_new"
    and oview_send: "map_prod id oview (os_send S c a) = ov_send (oview c) a"
    and oview_poll: "map_prod id oview (os_poll S c) = ov_poll (oview c)"
    and oview_poll_cancel:
      "map_prod id oview (os_poll_cancel S c) =
         (if ov_rx (oview c) then Ok NotReady else Ok (Ready ()), oview c)"
    and oview_drop_tx: "oview (os_drop_tx S c) = oview c\<lparr>ov_tx := False\<rparr>"
    and oview_drop_rx:
      "map_prod id oview (os_drop_rx S c) =
         (ov_value (oview c), oview c\<lparr>ov_value := None, ov_rx := False\<rparr>)"
begin

lemma send_fst: "fst (os_send S c a) = fst (ov_send (oview c) a)"
  using oview_send [of c a] by (metis fst_map_prod id_apply)

lemma send_snd: "oview (snd (os_send S c a)) = snd (ov_send (oview c) a)"
  using oview_send [of c a] by (metis snd_map_prod)

lemma poll_fst: "fst (os_poll S c) = fst (ov_poll (oview c))"
  using oview_poll [of c] by (metis fst_map_prod id_apply)

lemma poll_snd: "oview (snd (os_poll S c)) = snd (ov_poll (oview c))"
  using oview_poll [of c] by (metis snd_map_prod)

lemma drop_rx_fst: "fst (os_drop_rx S c) = ov_value (oview c)"
  using oview_drop_rx [of c] by (cases "os_drop_rx S c") simp

lemma drop_rx_snd: "oview (snd (os_drop_rx S c)) = oview c\<lparr>ov_value := None, ov_rx := False\<rparr>"
  using oview_drop_rx [of c] by (cases "os_drop_rx S c") simp

lemma poll_cancel_fst: "fst (os_poll_cancel S c) = (if ov_rx (oview c) then Ok NotReady else Ok (Ready ()))"
  using oview_poll_cancel [of c] by (cases "os_poll_cancel S c") (auto split: if_splits)

lemma poll_cancel_snd: "oview (snd (os_poll_cancel S c)) = oview c"
  using oview_poll_cancel [of c] by (cases "os_poll_cancel S c") (auto split: if_splits)

text \<open>Only dropping the receiver changes whether it is there.\<close>

lemma receiver_alive [simp]:
  "ov_rx (oview (snd (os_send S c a))) = ov_rx (oview c)" "ov_rx (oview (snd (os_poll S c))) = ov_rx (oview c)"
  "ov_rx (oview (snd (os_poll_cancel S c))) = ov_rx (oview c)" "ov_rx (oview (os_drop_tx S c)) = ov_rx (oview c)"
  "\<not> ov_rx (oview (snd (os_drop_rx S c)))"
  by (simp_all add: send_snd poll_snd poll_cancel_snd oview_drop_tx drop_rx_snd ov_send_def ov_poll_def split: option.split)

text \<open>A value that is sent while the receiver lives is what the receiver polls next; without
  one, dropping the sender cancels.\<close>

lemma poll_after_send:
  assumes "ov_rx (oview c)"
  shows "fst (os_poll S (snd (os_send S c a))) = Ok (Ready a)"
  using assms by (simp add: poll_fst send_snd ov_send_def ov_poll_def)

lemma poll_after_drop:
  assumes "ov_value (oview c) = None"
  shows "fst (os_poll S (os_drop_tx S c)) = Err ()"
  using assms by (simp add: poll_fst oview_drop_tx ov_poll_def)

end

text \<open>The channel whose state is its view.\<close>

definition view_oneshot :: "('a os_view, 'a) oneshot" where
  "view_oneshot =
     \<lparr>os_new = ov_new, os_send = ov_send, os_poll = ov_poll,
      os_poll_cancel = (\<lambda>v. (if ov_rx v then Ok NotReady else Ok (Ready ()), v)),
      os_drop_tx = (\<lambda>v. v\<lparr>ov_tx := False\<rparr>),
      os_drop_rx = (\<lambda>v. (ov_value v, v\<lparr>ov_value := None, ov_rx := False\<rparr>))\<rparr>"

interpretation vos: oneshot_channel view_oneshot "\<lambda>v. v"
  by unfold_locales (simp_all add: view_oneshot_def id_def prod.map_ident)

end
