(* ===== verification/Connections.thy ===== *)
theory Connections
  imports Streams Oneshot Verify_Certificate Durations
begin

text \<open>
  \<^verbatim>\<open>src/connection.rs\<close> and the connection part of
  \<^verbatim>\<open>src/ffi/connection.rs\<close>: the user's \<^verbatim>\<open>Connection\<close>, the
  \<^verbatim>\<open>Context\<close> that serves it, the handle and future for new streams, and the callback
  that picoquic calls.

  The environment and the world of the streams are extended.  A context is shared between the
  list of contexts that are polled and picoquic, which keeps a raw pointer to it
  (\<^verbatim>\<open>Arc::into_raw\<close>): the world stores contexts under handles together with
  their strong count.  A callback on a handle whose context is gone is a use after free, and
  counts as not returning.

  \<^verbatim>\<open>HashMap\<close> iterates in an unspecified order: the streams are a list of entries
  in the current order of iteration, and the position of a new entry is a parameter.
\<close>

section \<open>Data\<close>

datatype con_message = CNewStream stream | CClose | CError error

record con_builder =
  cb_msg_recv :: nat
  cb_close_send :: nat
  cb_peer_addr :: socket_addr
  cb_local_addr :: socket_addr
  cb_new_stream_handle :: nat
  cb_ctype :: connection_type

record connection =
  con_msg_recv :: nat
  con_close_send :: "nat option"
  con_peer_addr :: socket_addr
  con_local_addr :: socket_addr
  con_new_stream_handle :: nat
  con_id :: u64
  con_ctype :: connection_type

record con_ctx =
  cc_send_msg :: nat
  cc_close_recv :: nat
  cc_recv_create_stream :: nat
  cc_streams :: "(u64 \<times> stream_ctx) list"
  cc_cnx :: ptr
  cc_closed :: bool
  cc_is_client :: bool
  cc_next_stream_id :: u64
  cc_wait_for_ready_state :: "(con_builder \<times> nat) option"
  cc_local_addr :: socket_addr
  cc_stream_send_channel_default_size :: nat

type_synonym create_request = "stream_type \<times> nat"

record ('m, 'd, 'q, 'c, 'r, 'u, 's, 'n) con_env = "('m, 'd, 'q) stream_env" +
  con_ops :: "('c, con_message) mpsc"
  req_ops :: "('r, create_request) mpsc"
  unit_ops :: "('u, unit) oneshot"
  sfut_ops :: "('s, (stream, error) result) oneshot"
  cfut_ops :: "('n, (connection, error) result) oneshot"
  hash_insert :: "u64 \<Rightarrow> stream_ctx \<Rightarrow> (u64 \<times> stream_ctx) list \<Rightarrow> (u64 \<times> stream_ctx) list"
  picoquic_set_callback :: "'q \<Rightarrow> ptr \<Rightarrow> nat option \<Rightarrow> 'q"  \<comment> \<open>the handle of the context, or no callback\<close>
  picoquic_close :: "'q \<Rightarrow> ptr \<Rightarrow> u64 \<Rightarrow> 'q"
  picoquic_enable_keep_alive :: "'q \<Rightarrow> ptr \<Rightarrow> u64 \<Rightarrow> 'q"
  picoquic_get_local_addr :: "'q \<Rightarrow> ptr \<Rightarrow> ptr \<times> int"
  picoquic_get_local_cnxid :: "'q \<Rightarrow> ptr \<Rightarrow> bytes"
  picoquic_val64_connection_id :: "bytes \<Rightarrow> u64"
  picoquic_is_client :: "'q \<Rightarrow> ptr \<Rightarrow> int"
  picoquic_get_cnx_state :: "'q \<Rightarrow> ptr \<Rightarrow> u32"
  picoquic_state_closing :: u32
  picoquic_state_disconnected :: u32
  picoquic_get_local_error :: "'q \<Rightarrow> ptr \<Rightarrow> u64"
  picoquic_get_remote_error :: "'q \<Rightarrow> ptr \<Rightarrow> u64"
  picoquic_is_handshake_error :: "16 word \<Rightarrow> int"
  picoquic_create_client_cnx ::
    "'q \<Rightarrow> ptr \<Rightarrow> socket_addr \<Rightarrow> u64 \<Rightarrow> u32 \<Rightarrow> bytes \<Rightarrow> bytes \<Rightarrow> ptr \<times> 'q"

record ('m, 'd, 'q, 'c, 'r, 'u, 's, 'n) con_world = "('m, 'd, 'q) world" +
  con_msgs :: "nat \<Rightarrow> 'c"
  reqs :: "nat \<Rightarrow> 'r chan_err"
  units :: "nat \<Rightarrow> 'u"
  sfuts :: "nat \<Rightarrow> 's"
  cfuts :: "nat \<Rightarrow> 'n"
  ctxs :: "nat \<Rightarrow> (con_ctx \<times> nat) option"

type_synonym ('m, 'd, 'q, 'c, 'r, 'u, 's, 'n, 'e) cenv =
  "('m, 'd, 'q, 'c, 'r, 'u, 's, 'n, 'e) con_env_scheme"
type_synonym ('m, 'd, 'q, 'c, 'r, 'u, 's, 'n, 'w) cworld =
  "('m, 'd, 'q, 'c, 'r, 'u, 's, 'n, 'w) con_world_scheme"

section \<open>The connection of the C library\<close>

definition cnx_local_addr ::
  "('m, 'd, 'q, 'c, 'r, 'u, 's, 'n, 'e) cenv \<Rightarrow> 'q \<Rightarrow> ptr \<Rightarrow> socket_addr option" where
  "cnx_local_addr E q cnx = socket_addr_from_sockaddr E q (picoquic_get_local_addr E q cnx)"

definition cnx_local_id :: "('m, 'd, 'q, 'c, 'r, 'u, 's, 'n, 'e) cenv \<Rightarrow> 'q \<Rightarrow> ptr \<Rightarrow> u64" where
  "cnx_local_id E q cnx = picoquic_val64_connection_id E (picoquic_get_local_cnxid E q cnx)"

definition cnx_con_type ::
  "('m, 'd, 'q, 'c, 'r, 'u, 's, 'n, 'e) cenv \<Rightarrow> 'q \<Rightarrow> ptr \<Rightarrow> connection_type" where
  "cnx_con_type E q cnx = (if picoquic_is_client E q cnx = 1 then Outgoing else Incoming)"

definition cnx_is_disconnected ::
  "('m, 'd, 'q, 'c, 'r, 'u, 's, 'n, 'e) cenv \<Rightarrow> 'q \<Rightarrow> ptr \<Rightarrow> bool" where
  "cnx_is_disconnected E q cnx \<longleftrightarrow> picoquic_get_cnx_state E q cnx = picoquic_state_disconnected E"

definition cnx_is_going_to_close ::
  "('m, 'd, 'q, 'c, 'r, 'u, 's, 'n, 'e) cenv \<Rightarrow> 'q \<Rightarrow> ptr \<Rightarrow> bool" where
  "cnx_is_going_to_close E q cnx \<longleftrightarrow> picoquic_get_cnx_state E q cnx \<ge> picoquic_state_closing E"

definition cnx_enable_keep_alive ::
  "('m, 'd, 'q, 'c, 'r, 'u, 's, 'n, 'e) cenv \<Rightarrow> ptr \<Rightarrow> duration \<Rightarrow> 'q \<Rightarrow> 'q" where
  "cnx_enable_keep_alive E cnx interval q =
     picoquic_enable_keep_alive E q cnx (as_micro_seconds interval)"

definition cnx_close :: "('m, 'd, 'q, 'c, 'r, 'u, 's, 'n, 'e) cenv \<Rightarrow> ptr \<Rightarrow> 'q \<Rightarrow> 'q" where
  "cnx_close E cnx q = picoquic_close E q cnx 0"

definition cnx_error ::
  "('m, 'd, 'q, 'c, 'r, 'u, 's, 'n, 'e) cenv \<Rightarrow> 'q \<Rightarrow> ptr \<Rightarrow> error_fn option" where
  "cnx_error E q cnx =
     (let err = picoquic_get_local_error E q cnx;
          error_code = (if err \<noteq> 0 then err else picoquic_get_remote_error E q cnx);
          is_handshake_error = (picoquic_is_handshake_error E (ucast error_code) = 1)
      in if error_code = 0 then None
         else Some (\<lambda>_. if is_handshake_error then error_from_kind TLSHandshakeError
                        else error_from_kind Unknown))"

text \<open>The name and the ALPN reach C as nul-terminated strings; \<^verbatim>\<open>CString::new\<close>
  refuses a name with a zero byte, and an unspecified server address panics.\<close>

definition alpn_picoquic :: bytes where
  "alpn_picoquic = map (of_nat \<circ> of_char) ''picoquic''"

definition cnx_new ::
  "('m, 'd, 'q, 'c, 'r, 'u, 's, 'n, 'e) cenv \<Rightarrow> ptr \<Rightarrow> socket_addr \<Rightarrow> u64 \<Rightarrow> bytes \<Rightarrow> 'q \<Rightarrow>
   ((ptr, error) result \<times> 'q) option" where
  "cnx_new E qctx server_addr current_time server_name q =
     (if ip_is_unspecified server_addr then None
      else if 0 \<in> set server_name then Some (Err error_from_nul_error, q)
      else
        case picoquic_create_client_cnx E q qctx server_addr current_time 0 server_name alpn_picoquic of
          (cnx, q) \<Rightarrow> Some (if cnx = 0 then Err (error_from_kind Unknown) else Ok cnx, q))"

section \<open>Ends of the connection's channels\<close>

fun drop_con_message ::
  "('m, 'd, 'q, 'c, 'r, 'u, 's, 'n, 'e) cenv \<Rightarrow> con_message \<Rightarrow>
   ('m, 'd, 'q, 'c, 'r, 'u, 's, 'n, 'w) cworld \<Rightarrow> ('m, 'd, 'q, 'c, 'r, 'u, 's, 'n, 'w) cworld" where
  "drop_con_message E (CNewStream st) w = stream_drop E st w"
| "drop_con_message E _ w = w"

definition con_send ::
  "('m, 'd, 'q, 'c, 'r, 'u, 's, 'n, 'e) cenv \<Rightarrow> nat \<Rightarrow> con_message \<Rightarrow>
   ('m, 'd, 'q, 'c, 'r, 'u, 's, 'n, 'w) cworld \<Rightarrow> ('m, 'd, 'q, 'c, 'r, 'u, 's, 'n, 'w) cworld" where
  "con_send E h msg w =
     (case mpsc_unbounded_send (con_ops E) (con_msgs w h) msg of (r, ch) \<Rightarrow>
        let w = w\<lparr>con_msgs := (con_msgs w)(h := ch)\<rparr> in
        case r of Ok _ \<Rightarrow> w | Err msg \<Rightarrow> drop_con_message E msg w)"

fun drop_stream_result ::
  "('m, 'd, 'q, 'c, 'r, 'u, 's, 'n, 'e) cenv \<Rightarrow> (stream, error) result \<Rightarrow>
   ('m, 'd, 'q, 'c, 'r, 'u, 's, 'n, 'w) cworld \<Rightarrow> ('m, 'd, 'q, 'c, 'r, 'u, 's, 'n, 'w) cworld" where
  "drop_stream_result E (Ok st) w = stream_drop E st w"
| "drop_stream_result E (Err _) w = w"

definition sfut_send ::
  "('m, 'd, 'q, 'c, 'r, 'u, 's, 'n, 'e) cenv \<Rightarrow> nat \<Rightarrow> (stream, error) result \<Rightarrow>
   ('m, 'd, 'q, 'c, 'r, 'u, 's, 'n, 'w) cworld \<Rightarrow> ('m, 'd, 'q, 'c, 'r, 'u, 's, 'n, 'w) cworld" where
  "sfut_send E h v w =
     (case os_send (sfut_ops E) (sfuts w h) v of (r, ch) \<Rightarrow>
        let w = w\<lparr>sfuts := (sfuts w)(h := ch)\<rparr> in
        case r of Ok _ \<Rightarrow> w | Err v \<Rightarrow> drop_stream_result E v w)"

definition sfut_drop_tx ::
  "('m, 'd, 'q, 'c, 'r, 'u, 's, 'n, 'e) cenv \<Rightarrow> nat \<Rightarrow>
   ('m, 'd, 'q, 'c, 'r, 'u, 's, 'n, 'w) cworld \<Rightarrow> ('m, 'd, 'q, 'c, 'r, 'u, 's, 'n, 'w) cworld" where
  "sfut_drop_tx E h w = w\<lparr>sfuts := (sfuts w)(h := os_drop_tx (sfut_ops E) (sfuts w h))\<rparr>"

definition req_drop_tx ::
  "('m, 'd, 'q, 'c, 'r, 'u, 's, 'n, 'e) cenv \<Rightarrow> nat \<Rightarrow>
   ('m, 'd, 'q, 'c, 'r, 'u, 's, 'n, 'w) cworld \<Rightarrow> ('m, 'd, 'q, 'c, 'r, 'u, 's, 'n, 'w) cworld" where
  "req_drop_tx E h w = w\<lparr>reqs := (reqs w)(h := sender_drop (req_ops E) (reqs w h))\<rparr>"

definition req_drop_rx ::
  "('m, 'd, 'q, 'c, 'r, 'u, 's, 'n, 'e) cenv \<Rightarrow> nat \<Rightarrow>
   ('m, 'd, 'q, 'c, 'r, 'u, 's, 'n, 'w) cworld \<Rightarrow> ('m, 'd, 'q, 'c, 'r, 'u, 's, 'n, 'w) cworld" where
  "req_drop_rx E h w =
     (case receiver_drop (req_ops E) (reqs w h) of (rs, ce) \<Rightarrow>
        fold (\<lambda>(_, sender). sfut_drop_tx E sender) rs (w\<lparr>reqs := (reqs w)(h := ce)\<rparr>))"

definition con_drop_rx ::
  "('m, 'd, 'q, 'c, 'r, 'u, 's, 'n, 'e) cenv \<Rightarrow> nat \<Rightarrow>
   ('m, 'd, 'q, 'c, 'r, 'u, 's, 'n, 'w) cworld \<Rightarrow> ('m, 'd, 'q, 'c, 'r, 'u, 's, 'n, 'w) cworld" where
  "con_drop_rx E h w =
     (case mpsc_drop_rx (con_ops E) (con_msgs w h) of (ms, ch) \<Rightarrow>
        fold (drop_con_message E) ms (w\<lparr>con_msgs := (con_msgs w)(h := ch)\<rparr>))"

definition unit_drop_tx ::
  "('m, 'd, 'q, 'c, 'r, 'u, 's, 'n, 'e) cenv \<Rightarrow> nat \<Rightarrow>
   ('m, 'd, 'q, 'c, 'r, 'u, 's, 'n, 'w) cworld \<Rightarrow> ('m, 'd, 'q, 'c, 'r, 'u, 's, 'n, 'w) cworld" where
  "unit_drop_tx E h w = w\<lparr>units := (units w)(h := os_drop_tx (unit_ops E) (units w h))\<rparr>"

text \<open>Dropping a \<^verbatim>\<open>Connection\<close> or the builder of one drops the ends it holds.\<close>

definition connection_drop ::
  "('m, 'd, 'q, 'c, 'r, 'u, 's, 'n, 'e) cenv \<Rightarrow> connection \<Rightarrow>
   ('m, 'd, 'q, 'c, 'r, 'u, 's, 'n, 'w) cworld \<Rightarrow> ('m, 'd, 'q, 'c, 'r, 'u, 's, 'n, 'w) cworld" where
  "connection_drop E con w =
     (let w = con_drop_rx E (con_msg_recv con) w;
          w = (case con_close_send con of Some h \<Rightarrow> unit_drop_tx E h w | None \<Rightarrow> w)
      in req_drop_tx E (con_new_stream_handle con) w)"

definition builder_drop ::
  "('m, 'd, 'q, 'c, 'r, 'u, 's, 'n, 'e) cenv \<Rightarrow> con_builder \<Rightarrow>
   ('m, 'd, 'q, 'c, 'r, 'u, 's, 'n, 'w) cworld \<Rightarrow> ('m, 'd, 'q, 'c, 'r, 'u, 's, 'n, 'w) cworld" where
  "builder_drop E b w =
     (let w = con_drop_rx E (cb_msg_recv b) w;
          w = unit_drop_tx E (cb_close_send b) w
      in req_drop_tx E (cb_new_stream_handle b) w)"

fun drop_connection_result ::
  "('m, 'd, 'q, 'c, 'r, 'u, 's, 'n, 'e) cenv \<Rightarrow> (connection, error) result \<Rightarrow>
   ('m, 'd, 'q, 'c, 'r, 'u, 's, 'n, 'w) cworld \<Rightarrow> ('m, 'd, 'q, 'c, 'r, 'u, 's, 'n, 'w) cworld" where
  "drop_connection_result E (Ok con) w = connection_drop E con w"
| "drop_connection_result E (Err _) w = w"

definition cfut_send ::
  "('m, 'd, 'q, 'c, 'r, 'u, 's, 'n, 'e) cenv \<Rightarrow> nat \<Rightarrow> (connection, error) result \<Rightarrow>
   ('m, 'd, 'q, 'c, 'r, 'u, 's, 'n, 'w) cworld \<Rightarrow> ('m, 'd, 'q, 'c, 'r, 'u, 's, 'n, 'w) cworld" where
  "cfut_send E h v w =
     (case os_send (cfut_ops E) (cfuts w h) v of (r, ch) \<Rightarrow>
        let w = w\<lparr>cfuts := (cfuts w)(h := ch)\<rparr> in
        case r of Ok _ \<Rightarrow> w | Err v \<Rightarrow> drop_connection_result E v w)"

definition cfut_drop_tx ::
  "('m, 'd, 'q, 'c, 'r, 'u, 's, 'n, 'e) cenv \<Rightarrow> nat \<Rightarrow>
   ('m, 'd, 'q, 'c, 'r, 'u, 's, 'n, 'w) cworld \<Rightarrow> ('m, 'd, 'q, 'c, 'r, 'u, 's, 'n, 'w) cworld" where
  "cfut_drop_tx E h w = w\<lparr>cfuts := (cfuts w)(h := os_drop_tx (cfut_ops E) (cfuts w h))\<rparr>"

section \<open>The context: streams\<close>

text \<open>\<^verbatim>\<open>HashMap::entry\<close> finds the first entry of a key; keys are unique.\<close>

fun streams_update :: "u64 \<Rightarrow> stream_ctx \<Rightarrow> (u64 \<times> stream_ctx) list \<Rightarrow> (u64 \<times> stream_ctx) list" where
  "streams_update k c [] = []"
| "streams_update k c ((k', c') # ss) =
     (if k' = k then (k, c) # ss else (k', c') # streams_update k c ss)"

definition handle_stream_callback ::
  "('m, 'd, 'q, 'c, 'r, 'u, 's, 'n, 'e) cenv \<Rightarrow> u64 \<Rightarrow> ptr \<Rightarrow> nat \<Rightarrow> callback_event \<Rightarrow> con_ctx \<Rightarrow>
   ('m, 'd, 'q, 'c, 'r, 'u, 's, 'n, 'w) cworld \<Rightarrow> (con_ctx \<times> ('m, 'd, 'q, 'c, 'r, 'u, 's, 'n, 'w) cworld) option" where
  "handle_stream_callback E sid ptr len event c w =
     (case map_of (cc_streams c) sid of
        Some s \<Rightarrow> do {
          (s, w) \<leftarrow> stream_handle_callback E ptr len event s w;
          Some (c\<lparr>cc_streams := streams_update sid s (cc_streams c)\<rparr>, w)
        }
      | None \<Rightarrow> do {
          (st, s, w) \<leftarrow> stream_new E sid (cc_cnx c) (cc_local_addr c) (cc_is_client c)
                           (cc_stream_send_channel_default_size c) w;
          (s, w) \<leftarrow> stream_handle_callback E ptr len event s w;
          Some (c\<lparr>cc_streams := hash_insert E sid s (cc_streams c)\<rparr>,
                con_send E (cc_send_msg c) (CNewStream st) w)
        })"

definition builder_build :: "con_builder \<Rightarrow> u64 \<Rightarrow> connection" where
  "builder_build b cid =
     \<lparr>con_msg_recv = cb_msg_recv b, con_close_send = Some (cb_close_send b),
      con_peer_addr = cb_peer_addr b, con_local_addr = cb_local_addr b,
      con_new_stream_handle = cb_new_stream_handle b, con_id = cid, con_ctype = cb_ctype b\<rparr>"

definition process_wait_for_ready_state ::
  "('m, 'd, 'q, 'c, 'r, 'u, 's, 'n, 'e) cenv \<Rightarrow> con_ctx \<Rightarrow> ('m, 'd, 'q, 'c, 'r, 'u, 's, 'n, 'w) cworld \<Rightarrow> (con_ctx \<times> ('m, 'd, 'q, 'c, 'r, 'u, 's, 'n, 'w) cworld) option" where
  "process_wait_for_ready_state E c w =
     (case cc_wait_for_ready_state c of
        Some (builder, sender) \<Rightarrow>
          let cid = cnx_local_id E (quic w) (cc_cnx c);
              con = builder_build builder cid
          in Some (c\<lparr>cc_wait_for_ready_state := None\<rparr>, cfut_send E sender (Ok con) w)
      | None \<Rightarrow> None)"

definition set_wait_for_ready_state :: "con_builder \<Rightarrow> nat \<Rightarrow> con_ctx \<Rightarrow> con_ctx" where
  "set_wait_for_ready_state builder sender c = c\<lparr>cc_wait_for_ready_state := Some (builder, sender)\<rparr>"

definition con_handle_callback ::
  "('m, 'd, 'q, 'c, 'r, 'u, 's, 'n, 'e) cenv \<Rightarrow> u64 \<Rightarrow> ptr \<Rightarrow> nat \<Rightarrow> callback_event \<Rightarrow> con_ctx \<Rightarrow>
   ('m, 'd, 'q, 'c, 'r, 'u, 's, 'n, 'w) cworld \<Rightarrow> (con_ctx \<times> ('m, 'd, 'q, 'c, 'r, 'u, 's, 'n, 'w) cworld) option" where
  "con_handle_callback E sid ptr len event c w =
     (if event = callback_almost_ready then
        (if cc_wait_for_ready_state c \<noteq> None then process_wait_for_ready_state E c w
         else Some (c, w))
      else if sid \<noteq> 0 then handle_stream_callback E sid ptr len event c w
      else Some (c, w))"

text \<open>\<^verbatim>\<open>check_create_stream_requests\<close>: an id that is taken panics.\<close>

definition req_poll ::
  "('m, 'd, 'q, 'c, 'r, 'u, 's, 'n, 'e) cenv \<Rightarrow> nat \<Rightarrow> ('m, 'd, 'q, 'c, 'r, 'u, 's, 'n, 'w) cworld \<Rightarrow> (create_request option, error) poll \<times> ('m, 'd, 'q, 'c, 'r, 'u, 's, 'n, 'w) cworld" where
  "req_poll E h w =
     (case receiver_poll (req_ops E) (reqs w h) of (r, ce) \<Rightarrow> (r, w\<lparr>reqs := (reqs w)(h := ce)\<rparr>))"

definition create_stream ::
  "('m, 'd, 'q, 'c, 'r, 'u, 's, 'n, 'e) cenv \<Rightarrow> stream_type \<Rightarrow> nat \<Rightarrow> con_ctx \<Rightarrow> ('m, 'd, 'q, 'c, 'r, 'u, 's, 'n, 'w) cworld \<Rightarrow> (con_ctx \<times> ('m, 'd, 'q, 'c, 'r, 'u, 's, 'n, 'w) cworld) option" where
  "create_stream E stype sender c w =
     (let sid = generate_stream_id (cc_next_stream_id c) (cc_is_client c) stype;
          c = c\<lparr>cc_next_stream_id := cc_next_stream_id c + 1\<rparr>
      in do {
        (st, s, w) \<leftarrow> stream_new E sid (cc_cnx c) (cc_local_addr c) (cc_is_client c)
                         (cc_stream_send_channel_default_size c) w;
        (if map_of (cc_streams c) sid \<noteq> None then None
         else Some (c\<lparr>cc_streams := hash_insert E sid s (cc_streams c)\<rparr>,
                    sfut_send E sender (Ok st) w))
      })"

partial_function (option) check_create_stream_requests ::
  "('m, 'd, 'q, 'c, 'r, 'u, 's, 'n, 'e) cenv \<Rightarrow> con_ctx \<Rightarrow> ('m, 'd, 'q, 'c, 'r, 'u, 's, 'n, 'w) cworld \<Rightarrow> (con_ctx \<times> ('m, 'd, 'q, 'c, 'r, 'u, 's, 'n, 'w) cworld) option" where
  "check_create_stream_requests E c w =
     (case req_poll E (cc_recv_create_stream c) w of (r, w) \<Rightarrow>
        case r of
          Err e \<Rightarrow> Some (c, w)
        | Ok a \<Rightarrow>
            (case a of
               NotReady \<Rightarrow> Some (c, w)
             | Ready msg \<Rightarrow>
                 (case msg of
                    None \<Rightarrow> Some (c, w)
                  | Some rq \<Rightarrow>
                      (case create_stream E (fst rq) (snd rq) c w of
                         None \<Rightarrow> None
                       | Some cw \<Rightarrow> check_create_stream_requests E (fst cw) (snd cw)))))"

section \<open>The context: closing and errors\<close>

text \<open>\<^verbatim>\<open>values_mut().for_each\<close>.\<close>

primrec each_stream ::
  "(stream_ctx \<Rightarrow> 'w \<Rightarrow> stream_ctx \<times> 'w) \<Rightarrow> (u64 \<times> stream_ctx) list \<Rightarrow> 'w \<Rightarrow>
   (u64 \<times> stream_ctx) list \<times> 'w" where
  "each_stream f [] w = ([], w)"
| "each_stream f (e # ss) w =
     (let (s, w) = f (snd e) w;
          (ss, w) = each_stream f ss w
      in ((fst e, s) # ss, w))"

definition con_close :: "('m, 'd, 'q, 'c, 'r, 'u, 's, 'n, 'e) cenv \<Rightarrow> con_ctx \<Rightarrow> ('m, 'd, 'q, 'c, 'r, 'u, 's, 'n, 'w) cworld \<Rightarrow> con_ctx \<times> ('m, 'd, 'q, 'c, 'r, 'u, 's, 'n, 'w) cworld" where
  "con_close E c w =
     (let w = w\<lparr>quic := cnx_close E (cc_cnx c) (quic w)\<rparr>;
          c = c\<lparr>cc_closed := True\<rparr>;
          (ss, w) = each_stream (handle_connection_close E) (cc_streams c) w
      in (c\<lparr>cc_streams := ss\<rparr>, con_send E (cc_send_msg c) CClose w))"

partial_function (option) fail_requests ::
  "('m, 'd, 'q, 'c, 'r, 'u, 's, 'n, 'e) cenv \<Rightarrow> error_fn \<Rightarrow> nat \<Rightarrow> ('m, 'd, 'q, 'c, 'r, 'u, 's, 'n, 'w) cworld \<Rightarrow> ('m, 'd, 'q, 'c, 'r, 'u, 's, 'n, 'w) cworld option" where
  "fail_requests E err h w =
     (case req_poll E h w of (r, w) \<Rightarrow>
        case r of
          Err e \<Rightarrow> Some w
        | Ok a \<Rightarrow>
            (case a of
               NotReady \<Rightarrow> Some w
             | Ready msg \<Rightarrow>
                 (case msg of
                    None \<Rightarrow> Some w
                  | Some rq \<Rightarrow> fail_requests E err h (sfut_send E (snd rq) (Err (err ())) w))))"

definition check_and_handle_error ::
  "('m, 'd, 'q, 'c, 'r, 'u, 's, 'n, 'e) cenv \<Rightarrow> con_ctx \<Rightarrow> ('m, 'd, 'q, 'c, 'r, 'u, 's, 'n, 'w) cworld \<Rightarrow> (con_ctx \<times> ('m, 'd, 'q, 'c, 'r, 'u, 's, 'n, 'w) cworld) option" where
  "check_and_handle_error E c w =
     (case cnx_error E (quic w) (cc_cnx c) of
        None \<Rightarrow> Some (c, w)
      | Some err \<Rightarrow>
          let (ss, w) = each_stream (handle_connection_error E err) (cc_streams c) w;
              c = c\<lparr>cc_streams := ss\<rparr>;
              h = cc_recv_create_stream c;
              w = w\<lparr>reqs := (reqs w)(h := propagate_error err (reqs w h))\<rparr>;
              w = w\<lparr>reqs := (reqs w)(h := receiver_close (req_ops E) (reqs w h))\<rparr>
          in do {
            w \<leftarrow> fail_requests E err h w;
            (case cc_wait_for_ready_state c of
               Some (builder, sender) \<Rightarrow>
                 Some (c\<lparr>cc_wait_for_ready_state := None\<rparr>,
                       builder_drop E builder (cfut_send E sender (Err (err ())) w))
             | None \<Rightarrow> Some (c, con_send E (cc_send_msg c) (CError (err ())) w))
          })"

section \<open>Polling and dropping the context\<close>

text \<open>\<^verbatim>\<open>HashMap::retain\<close> drops an entry as soon as the predicate refuses it.\<close>

primrec retain_streams ::
  "('m, 'd, 'q, 'c, 'r, 'u, 's, 'n, 'e) cenv \<Rightarrow> (u64 \<times> stream_ctx) list \<Rightarrow> ('m, 'd, 'q, 'c, 'r, 'u, 's, 'n, 'w) cworld \<Rightarrow> ((u64 \<times> stream_ctx) list \<times> ('m, 'd, 'q, 'c, 'r, 'u, 's, 'n, 'w) cworld) option" where
  "retain_streams E [] w = Some ([], w)"
| "retain_streams E (e # ss) w =
     do {
       (r, s, w) \<leftarrow> stream_context_poll E (snd e) w;
       let keep = (case r of Ok a \<Rightarrow> is_not_ready a | Err _ \<Rightarrow> False);
       (ss, w) \<leftarrow> retain_streams E ss (if keep then w else stream_context_drop E s w);
       Some (if keep then (fst e, s) # ss else ss, w)
     }"

definition con_ctx_poll ::
  "('m, 'd, 'q, 'c, 'r, 'u, 's, 'n, 'e) cenv \<Rightarrow> con_ctx \<Rightarrow> ('m, 'd, 'q, 'c, 'r, 'u, 's, 'n, 'w) cworld \<Rightarrow> ((unit, unit) poll \<times> con_ctx \<times> ('m, 'd, 'q, 'c, 'r, 'u, 's, 'n, 'w) cworld) option" where
  "con_ctx_poll E c w =
     (if cc_closed c then Some (Ok (Ready ()), c, w)
      else do {
        (ss, w) \<leftarrow> retain_streams E (cc_streams c) w;
        (c, w) \<leftarrow> check_create_stream_requests E (c\<lparr>cc_streams := ss\<rparr>) w;
        let (r, u) = os_poll (unit_ops E) (units w (cc_close_recv c));
        let w = w\<lparr>units := (units w)(cc_close_recv c := u)\<rparr>;
        let (c, w) = (case r of Ok (Ready _) \<Rightarrow> con_close E c w | _ \<Rightarrow> (c, w));
        Some (Ok NotReady, c, w)
      })"

definition con_ctx_drop :: "('m, 'd, 'q, 'c, 'r, 'u, 's, 'n, 'e) cenv \<Rightarrow> con_ctx \<Rightarrow> ('m, 'd, 'q, 'c, 'r, 'u, 's, 'n, 'w) cworld \<Rightarrow> ('m, 'd, 'q, 'c, 'r, 'u, 's, 'n, 'w) cworld" where
  "con_ctx_drop E c w =
     (let w = w\<lparr>quic := picoquic_set_callback E (quic w) (cc_cnx c) None\<rparr>;
          w = w\<lparr>con_msgs := (con_msgs w)(cc_send_msg c := mpsc_drop_tx (con_ops E) (con_msgs w (cc_send_msg c)))\<rparr>;
          w = w\<lparr>units := (units w)(cc_close_recv c := snd (os_drop_rx (unit_ops E) (units w (cc_close_recv c))))\<rparr>;
          w = req_drop_rx E (cc_recv_create_stream c) w;
          w = fold (\<lambda>e. stream_context_drop E (snd e)) (cc_streams c) w
      in case cc_wait_for_ready_state c of
           Some (builder, sender) \<Rightarrow> cfut_drop_tx E sender (builder_drop E builder w)
         | None \<Rightarrow> w)"

section \<open>The shared context\<close>

text \<open>Locking gives access to the context; dropping the last reference drops it.\<close>

definition arc_update :: "nat \<Rightarrow> con_ctx \<Rightarrow> ('m, 'd, 'q, 'c, 'r, 'u, 's, 'n, 'w) cworld \<Rightarrow> ('m, 'd, 'q, 'c, 'r, 'u, 's, 'n, 'w) cworld" where
  "arc_update h c w = w\<lparr>ctxs := (ctxs w)(h := map_option (\<lambda>(_, n). (c, n)) (ctxs w h))\<rparr>"

definition arc_drop :: "('m, 'd, 'q, 'c, 'r, 'u, 's, 'n, 'e) cenv \<Rightarrow> nat \<Rightarrow> ('m, 'd, 'q, 'c, 'r, 'u, 's, 'n, 'w) cworld \<Rightarrow> ('m, 'd, 'q, 'c, 'r, 'u, 's, 'n, 'w) cworld" where
  "arc_drop E h w =
     (case ctxs w h of
        Some (c, n) \<Rightarrow>
          if n \<le> 1 then con_ctx_drop E c (w\<lparr>ctxs := (ctxs w)(h := None)\<rparr>)
          else w\<lparr>ctxs := (ctxs w)(h := Some (c, n - 1))\<rparr>
      | None \<Rightarrow> w)"

text \<open>\<^verbatim>\<open>Context::new\<close> returns the handle, which is also the pointer given to
  picoquic, and the channel for stream requests.\<close>

definition con_ctx_new ::
  "('m, 'd, 'q, 'c, 'r, 'u, 's, 'n, 'e) cenv \<Rightarrow> ptr \<Rightarrow> nat \<Rightarrow> nat \<Rightarrow> bool \<Rightarrow> socket_addr \<Rightarrow> nat \<Rightarrow> ('m, 'd, 'q, 'c, 'r, 'u, 's, 'n, 'w) cworld \<Rightarrow> nat \<times> nat \<times> ('m, 'd, 'q, 'c, 'r, 'u, 's, 'n, 'w) cworld" where
  "con_ctx_new E cnx send_msg close_recv is_client local_addr sz w =
     (let rq = fresh w;
          ce = snd (receiver_poll (req_ops E) (unbounded (req_ops E)));
          w = w\<lparr>reqs := (reqs w)(rq := ce), fresh := Suc rq\<rparr>;
          c = \<lparr>cc_send_msg = send_msg, cc_close_recv = close_recv, cc_recv_create_stream = rq,
               cc_streams = [], cc_cnx = cnx, cc_closed = False, cc_is_client = is_client,
               cc_next_stream_id = 0, cc_wait_for_ready_state = None, cc_local_addr = local_addr,
               cc_stream_send_channel_default_size = sz\<rparr>;
          h = fresh w;
          w = w\<lparr>ctxs := (ctxs w)(h := Some (c, 2)), fresh := Suc h\<rparr>;
          w = w\<lparr>quic := picoquic_set_callback E (quic w) cnx (Some h)\<rparr>
      in (h, rq, w))"

definition connection_callback ::
  "('m, 'd, 'q, 'c, 'r, 'u, 's, 'n, 'e) cenv \<Rightarrow> u64 \<Rightarrow> ptr \<Rightarrow> nat \<Rightarrow> callback_event \<Rightarrow> nat \<Rightarrow> ('m, 'd, 'q, 'c, 'r, 'u, 's, 'n, 'w) cworld \<Rightarrow> ('m, 'd, 'q, 'c, 'r, 'u, 's, 'n, 'w) cworld option" where
  "connection_callback E sid bytes len event h w =
     do {
       (c, _) \<leftarrow> ctxs w h;
       (if event = callback_close \<or> event = callback_application_close then do {
          (c, w) \<leftarrow> check_and_handle_error E c w;
          let (c, w) = con_close E c w;
          Some (arc_drop E h (arc_update h c w))
        } else do {
          (c, w) \<leftarrow> con_handle_callback E sid bytes len event c w;
          Some (arc_update h c w)
        })
     }"

section \<open>Creating connections\<close>

definition create_builder ::
  "('m, 'd, 'q, 'c, 'r, 'u, 's, 'n, 'e) cenv \<Rightarrow> ptr \<Rightarrow> socket_addr \<Rightarrow> socket_addr \<Rightarrow> bool \<Rightarrow> duration option \<Rightarrow> nat \<Rightarrow> ('m, 'd, 'q, 'c, 'r, 'u, 's, 'n, 'w) cworld \<Rightarrow>
   con_builder \<times> nat \<times> ('m, 'd, 'q, 'c, 'r, 'u, 's, 'n, 'w) cworld" where
  "create_builder E cnx peer_addr local_addr is_client keep_alive_interval sz w =
     (let m = fresh w;
          w = w\<lparr>con_msgs := (con_msgs w)(m := mpsc_new (con_ops E) None), fresh := Suc m\<rparr>;
          u = fresh w;
          w = w\<lparr>units := (units w)(u := os_new (unit_ops E)), fresh := Suc u\<rparr>;
          (h, rq, w) = con_ctx_new E cnx m u is_client local_addr sz w;
          w = (case keep_alive_interval of
                 Some interval \<Rightarrow> w\<lparr>quic := cnx_enable_keep_alive E cnx interval (quic w)\<rparr>
               | None \<Rightarrow> w)
      in (\<lparr>cb_msg_recv = m, cb_close_send = u, cb_peer_addr = peer_addr,
           cb_local_addr = local_addr, cb_new_stream_handle = rq,
           cb_ctype = cnx_con_type E (quic w) cnx\<rparr>, h, w))"

definition from_incoming ::
  "('m, 'd, 'q, 'c, 'r, 'u, 's, 'n, 'e) cenv \<Rightarrow> ptr \<Rightarrow> u64 \<Rightarrow> ptr \<Rightarrow> nat \<Rightarrow> callback_event \<Rightarrow> duration option \<Rightarrow> nat \<Rightarrow> ('m, 'd, 'q, 'c, 'r, 'u, 's, 'n, 'w) cworld \<Rightarrow>
   (connection \<times> nat \<times> ('m, 'd, 'q, 'c, 'r, 'u, 's, 'n, 'w) cworld) option" where
  "from_incoming E cnx sid data len event keep_alive_interval sz w =
     do {
       peer_addr \<leftarrow> cnx_peer_addr E (quic w) cnx;
       local_addr \<leftarrow> cnx_local_addr E (quic w) cnx;
       let (builder, h, w) =
         create_builder E cnx peer_addr local_addr False keep_alive_interval sz w;
       let con = builder_build builder (cnx_local_id E (quic w) cnx);
       w \<leftarrow> connection_callback E sid data len event h w;
       Some (con, h, w)
     }"

definition connection_create ::
  "('m, 'd, 'q, 'c, 'r, 'u, 's, 'n, 'e) cenv \<Rightarrow> ptr \<Rightarrow> socket_addr \<Rightarrow> socket_addr \<Rightarrow> bytes \<Rightarrow> u64 \<Rightarrow> duration option \<Rightarrow> nat \<Rightarrow> nat \<Rightarrow>
   ('m, 'd, 'q, 'c, 'r, 'u, 's, 'n, 'w) cworld \<Rightarrow> ((nat, error) result \<times> ('m, 'd, 'q, 'c, 'r, 'u, 's, 'n, 'w) cworld) option" where
  "connection_create E qctx peer_addr local_addr server_name current_time keep_alive_interval
       created_sender sz w =
     do {
       (r, q) \<leftarrow> cnx_new E qctx peer_addr current_time server_name (quic w);
       let w = w\<lparr>quic := q\<rparr>;
       (case r of
          Err e \<Rightarrow> Some (Err e, cfut_drop_tx E created_sender w)
        | Ok cnx \<Rightarrow>
            let (builder, h, w) =
              create_builder E cnx peer_addr local_addr True keep_alive_interval sz w
            in do {
              (c, _) \<leftarrow> ctxs w h;
              Some (Ok h, arc_update h (set_wait_for_ready_state builder created_sender c) w)
            })
     }"

section \<open>The user's connection\<close>

definition connection_poll ::
  "('m, 'd, 'q, 'c, 'r, 'u, 's, 'n, 'e) cenv \<Rightarrow> connection \<Rightarrow> ('m, 'd, 'q, 'c, 'r, 'u, 's, 'n, 'w) cworld \<Rightarrow> (stream option, error) poll \<times> ('m, 'd, 'q, 'c, 'r, 'u, 's, 'n, 'w) cworld" where
  "connection_poll E con w =
     (case mpsc_poll (con_ops E) (con_msgs w (con_msg_recv con)) of (r, ch) \<Rightarrow>
        (case r of
           Err _ \<Rightarrow> Err (error_from_kind Unknown)
         | Ok NotReady \<Rightarrow> Ok NotReady
         | Ok (Ready None) \<Rightarrow> Ok (Ready None)
         | Ok (Ready (Some CClose)) \<Rightarrow> Ok (Ready None)
         | Ok (Ready (Some (CNewStream st))) \<Rightarrow> Ok (Ready (Some st))
         | Ok (Ready (Some (CError e))) \<Rightarrow> Err e,
         w\<lparr>con_msgs := (con_msgs w)(con_msg_recv con := ch)\<rparr>))"

definition connection_peer_addr :: "connection \<Rightarrow> socket_addr" where
  "connection_peer_addr con = con_peer_addr con"

definition connection_local_addr :: "connection \<Rightarrow> socket_addr" where
  "connection_local_addr con = con_local_addr con"

definition connection_id :: "connection \<Rightarrow> u64" where
  "connection_id con = con_id con"

definition connection_get_type :: "connection \<Rightarrow> connection_type" where
  "connection_get_type con = con_ctype con"

text \<open>The closing message is consumed with the connection.\<close>

definition close_immediately :: "('m, 'd, 'q, 'c, 'r, 'u, 's, 'n, 'e) cenv \<Rightarrow> connection \<Rightarrow> ('m, 'd, 'q, 'c, 'r, 'u, 's, 'n, 'w) cworld \<Rightarrow> ('m, 'd, 'q, 'c, 'r, 'u, 's, 'n, 'w) cworld" where
  "close_immediately E con w =
     (let w = (case con_close_send con of
                 Some h \<Rightarrow> w\<lparr>units := (units w)(h := snd (os_send (unit_ops E) (units w h) ()))\<rparr>
               | None \<Rightarrow> w)
      in connection_drop E (con\<lparr>con_close_send := None\<rparr>) w)"

text \<open>\<^verbatim>\<open>NewStreamHandle::new_stream_handle\<close>: a request that cannot be queued is
  answered at once through its own future.\<close>

definition new_stream_handle ::
  "('m, 'd, 'q, 'c, 'r, 'u, 's, 'n, 'e) cenv \<Rightarrow> nat \<Rightarrow> stream_type \<Rightarrow> ('m, 'd, 'q, 'c, 'r, 'u, 's, 'n, 'w) cworld \<Rightarrow> nat \<times> ('m, 'd, 'q, 'c, 'r, 'u, 's, 'n, 'w) cworld" where
  "new_stream_handle E rq stype w =
     (let f = fresh w;
          w = w\<lparr>sfuts := (sfuts w)(f := os_new (sfut_ops E)), fresh := Suc f\<rparr>;
          (r, ce) = sender_start_send (req_ops E) (reqs w rq) (stype, f);
          w = w\<lparr>reqs := (reqs w)(rq := ce)\<rparr>
      in (f, case r of
               Ok _ \<Rightarrow> w
             | Err (Channel e (_, s)) \<Rightarrow> sfut_send E s (Err e) w
             | Err (Normal (_, s)) \<Rightarrow> sfut_send E s (Err (error_from_kind Unknown)) w))"

definition new_bidirectional_stream :: "('m, 'd, 'q, 'c, 'r, 'u, 's, 'n, 'e) cenv \<Rightarrow> nat \<Rightarrow> ('m, 'd, 'q, 'c, 'r, 'u, 's, 'n, 'w) cworld \<Rightarrow> nat \<times> ('m, 'd, 'q, 'c, 'r, 'u, 's, 'n, 'w) cworld" where
  "new_bidirectional_stream E rq w = new_stream_handle E rq Bidirectional w"

definition new_unidirectional_stream :: "('m, 'd, 'q, 'c, 'r, 'u, 's, 'n, 'e) cenv \<Rightarrow> nat \<Rightarrow> ('m, 'd, 'q, 'c, 'r, 'u, 's, 'n, 'w) cworld \<Rightarrow> nat \<times> ('m, 'd, 'q, 'c, 'r, 'u, 's, 'n, 'w) cworld" where
  "new_unidirectional_stream E rq w = new_stream_handle E rq Unidirectional w"

text \<open>The same requests through the handle that a connection carries.\<close>

definition connection_new_bidirectional_stream ::
  "('m, 'd, 'q, 'c, 'r, 'u, 's, 'n, 'e) cenv \<Rightarrow> connection \<Rightarrow> ('m, 'd, 'q, 'c, 'r, 'u, 's, 'n, 'w) cworld \<Rightarrow> nat \<times> ('m, 'd, 'q, 'c, 'r, 'u, 's, 'n, 'w) cworld" where
  "connection_new_bidirectional_stream E con w = new_bidirectional_stream E (con_new_stream_handle con) w"

definition connection_new_unidirectional_stream ::
  "('m, 'd, 'q, 'c, 'r, 'u, 's, 'n, 'e) cenv \<Rightarrow> connection \<Rightarrow> ('m, 'd, 'q, 'c, 'r, 'u, 's, 'n, 'w) cworld \<Rightarrow> nat \<times> ('m, 'd, 'q, 'c, 'r, 'u, 's, 'n, 'w) cworld" where
  "connection_new_unidirectional_stream E con w = new_unidirectional_stream E (con_new_stream_handle con) w"

definition get_new_stream_handle :: "('m, 'd, 'q, 'c, 'r, 'u, 's, 'n, 'e) cenv \<Rightarrow> connection \<Rightarrow> ('m, 'd, 'q, 'c, 'r, 'u, 's, 'n, 'w) cworld \<Rightarrow> nat \<times> ('m, 'd, 'q, 'c, 'r, 'u, 's, 'n, 'w) cworld" where
  "get_new_stream_handle E con w =
     (let h = con_new_stream_handle con
      in (h, w\<lparr>reqs := (reqs w)(h := sender_clone (req_ops E) (reqs w h))\<rparr>))"

definition new_stream_future_poll :: "('m, 'd, 'q, 'c, 'r, 'u, 's, 'n, 'e) cenv \<Rightarrow> nat \<Rightarrow> ('m, 'd, 'q, 'c, 'r, 'u, 's, 'n, 'w) cworld \<Rightarrow> (stream, error) poll \<times> ('m, 'd, 'q, 'c, 'r, 'u, 's, 'n, 'w) cworld" where
  "new_stream_future_poll E f w =
     (case os_poll (sfut_ops E) (sfuts w f) of (r, ch) \<Rightarrow>
        (case r of
           Err _ \<Rightarrow> Err (error_from_kind Unknown)
         | Ok NotReady \<Rightarrow> Ok NotReady
         | Ok (Ready (Ok st)) \<Rightarrow> Ok (Ready st)
         | Ok (Ready (Err e)) \<Rightarrow> Err e,
         w\<lparr>sfuts := (sfuts w)(f := ch)\<rparr>))"

text \<open>Dropping a \<^verbatim>\<open>NewStreamFuture\<close> before it was polled drops the stream that
  may be in it.\<close>

definition new_stream_future_drop ::
  "('m, 'd, 'q, 'c, 'r, 'u, 's, 'n, 'e) cenv \<Rightarrow> nat \<Rightarrow> ('m, 'd, 'q, 'c, 'r, 'u, 's, 'n, 'w) cworld \<Rightarrow> ('m, 'd, 'q, 'c, 'r, 'u, 's, 'n, 'w) cworld" where
  "new_stream_future_drop E f w =
     (case os_drop_rx (sfut_ops E) (sfuts w f) of (v, ch) \<Rightarrow>
        let w = w\<lparr>sfuts := (sfuts w)(f := ch)\<rparr> in
        case v of Some r \<Rightarrow> drop_stream_result E r w | None \<Rightarrow> w)"

declare check_create_stream_requests.simps [code] fail_requests.simps [code]

end
