(* ===== verification/Connection_Laws.thy ===== *)
theory Connection_Laws
  imports Connections Stream_User "HOL-Library.Multiset"
begin

text \<open>
  What the operations of \<^verbatim>\<open>src/connection.rs\<close> rely on and guarantee: frames (which
  parts of the world an operation leaves alone), stream requests, identifiers and errors.
\<close>

named_theorems frame_simps \<open>what an operation leaves alone\<close>

section \<open>Frames\<close>

text \<open>The operations of a stream change the channels of streams and picoquic, nothing of what
  the connection adds to the world.\<close>

lemma more_channel_ops [frame_simps]:
  "world.more (data_drop_tx E h w) = world.more w" "world.more (data_drop_rx E h w) = world.more w"
  "world.more (data_drop_swappable E s w) = world.more w" "world.more (msg_drop_tx E h w) = world.more w"
  by (simp_all add: data_drop_tx_def data_drop_rx_def data_drop_swappable_def msg_drop_tx_def)

lemma drop_message_frame [frame_simps]:
  "world.more (drop_message E m w) = world.more w" "quic (drop_message E m w) = quic w"
  "fresh (drop_message E m w) = fresh w" "msgs (drop_message E m w) = msgs w"
  by (cases m; simp add: data_drop_tx_def data_drop_rx_def)+

lemma fold_drop_message_frame [frame_simps]:
  "world.more (fold (drop_message E) ms w) = world.more w"
  "quic (fold (drop_message E) ms w) = quic w" "fresh (fold (drop_message E) ms w) = fresh w"
  "msgs (fold (drop_message E) ms w) = msgs w"
  by (induction ms arbitrary: w) (simp_all add: frame_simps)

lemma msg_drop_rx_frame [frame_simps]:
  "world.more (msg_drop_rx E h w) = world.more w" "quic (msg_drop_rx E h w) = quic w"
  by (simp_all add: msg_drop_rx_def split_beta frame_simps)

lemma msg_drop_tx_frame [frame_simps]: "quic (msg_drop_tx E h w) = quic w"
  by (simp add: msg_drop_tx_def)

lemma msg_send_frame [frame_simps]:
  "world.more (snd (msg_send E h m w)) = world.more w" "quic (snd (msg_send E h m w)) = quic w"
  by (simp_all add: msg_send_def split_beta Let_def frame_simps split: result.split)

lemma stream_drop_frame [frame_simps]:
  "world.more (stream_drop E st w) = world.more w" "quic (stream_drop E st w) = quic w"
  by (simp_all add: stream_drop_def Let_def frame_simps split: option.split)

lemma context_new_frame [frame_simps]:
  "world.more (snd (context_new E a b d sid cnx ic w)) = world.more w"
  "quic (snd (context_new E a b d sid cnx ic w)) = quic w"
  "sc_id (fst (context_new E a b d sid cnx ic w)) = sid"
  by (auto simp: context_new_def Let_def msg_poll_def split_beta frame_simps
      split: result.split async.split option.split)

lemma recv_message_frame [frame_simps]:
  "world.more (snd (recv_message E c m w)) = world.more w"
  by (auto simp: recv_message_def recv_message_dropped_def Let_def split_beta frame_simps)

lemma handle_connection_frame [frame_simps]:
  "world.more (snd (handle_connection_error E f c w)) = world.more w"
  "world.more (snd (handle_connection_close E c w)) = world.more w"
  by (auto simp: handle_connection_error_def handle_connection_close_def Let_def split_beta
      frame_simps split: option.split)

lemma more_eqD:
  assumes "world.more w' = world.more w"
  shows "con_msgs w' = con_msgs w" "reqs w' = reqs w" "units w' = units w" "sfuts w' = sfuts w"
    "cfuts w' = cfuts w" "ctxs w' = ctxs w"
  using assms by (cases w; cases w'; simp)+

lemma each_stream_frame:
  assumes "\<And>s w. world.more (snd (f s w)) = world.more w"
  shows "world.more (snd (each_stream f ss w)) = world.more w"
  by (induction ss arbitrary: w) (simp_all add: Let_def split_beta assms)

lemma stream_context_drop_quic [frame_simps]: "quic (stream_context_drop E c w) = quic w"
  by (auto simp: stream_context_drop_def close_send_data_def Let_def split_beta frame_simps split: option.split)

text \<open>Dropping a context reaches picoquic once: its callback is cleared.\<close>

lemma fold_drops_quic [frame_simps]:
  "quic (fold (\<lambda>e. stream_context_drop E (snd e)) ss w) = quic w"
  "quic (fold (drop_con_message E') ms v) = quic v"
  "quic (fold (\<lambda>(_, s). sfut_drop_tx E' s) rs v) = quic v"
proof -
  have m: "quic (drop_con_message E' m u) = quic u" for m u by (cases m) (simp_all add: frame_simps)
  show "quic (fold (drop_con_message E') ms v) = quic v" by (induction ms arbitrary: v) (simp_all add: m)
  show "quic (fold (\<lambda>e. stream_context_drop E (snd e)) ss w) = quic w"
    by (induction ss arbitrary: w) (simp_all add: frame_simps)
  show "quic (fold (\<lambda>(_, s). sfut_drop_tx E' s) rs v) = quic v"
    by (induction rs arbitrary: v) (auto simp: sfut_drop_tx_def)
qed

lemma con_ctx_drop_quic: "quic (con_ctx_drop E c w) = picoquic_set_callback E (quic w) (cc_cnx c) None"
  by (simp add: con_ctx_drop_def Let_def split_beta frame_simps builder_drop_def con_drop_rx_def req_drop_rx_def
      unit_drop_tx_def req_drop_tx_def cfut_drop_tx_def split: option.split)

lemma error_keeps_cnx: "check_and_handle_error E c w = Some (c', w') \<Longrightarrow> cc_cnx c' = cc_cnx c"
  by (auto simp: check_and_handle_error_def Let_def split: option.splits prod.splits bind_splits)

lemma close_closes: "con_close E c w = (c', w') \<Longrightarrow> cc_closed c' \<and> cc_cnx c' = cc_cnx c"
  by (auto simp: con_close_def Let_def split: prod.splits)

section \<open>New streams\<close>

lemma stream_new_total:
  assumes "cnx_peer_addr E (quic w) cnx = Some a"
  obtains st s w' where "stream_new E sid cnx la ic sz w = Some (st, s, w')"
    "world.more w' = world.more w" "quic w' = quic w" "st_id st = sid" "sc_id s = sid"
proof -
  define w1 where "w1 = snd (new_msg_chan E (snd (new_msg_chan E w)))"
  define d where "d = create_send_and_recv_data E sid ic sz w1"
  have 1: "world.more w1 = world.more w" "quic w1 = quic w"
    by (simp_all add: w1_def new_msg_chan_def)
  have 2: "world.more (snd d) = world.more w" "quic (snd d) = quic w"
    using 1 by (simp_all add: d_def create_send_and_recv_data_def new_data_chan_def)
  let ?x = "context_new E (fst (new_msg_chan E w)) (fst (new_msg_chan E (snd (new_msg_chan E w))))
     (snd (fst d)) sid cnx ic (snd d)"
  have "stream_new E sid cnx la ic sz w = Some
     (\<lparr>st_recv_msg = fst (new_msg_chan E w),
       st_control_msg = fst (new_msg_chan E (snd (new_msg_chan E w))), st_send_data = fst (fst d),
       st_id = sid, st_peer_addr = a, st_local_addr = la, st_stream_reset = False\<rparr>, fst ?x, snd ?x)"
    using assms 2
    by (simp add: stream_new_def Let_def split_beta d_def w1_def frame_simps)
  then show ?thesis by (rule that) (use 2 in \<open>simp_all add: frame_simps\<close>)
qed

section \<open>The channels of a connection\<close>

text \<open>What the sources rely on: every channel behaves as documented, and inserting a key that
  is not there adds exactly this entry to a hash map.\<close>

locale connection_channels =
  stream_channels E mview dview +
  cch: mpsc_channel "con_ops E" cview + rch: mpsc_channel "req_ops E" rview +
  uch: oneshot_channel "unit_ops E" uview + sch: oneshot_channel "sfut_ops E" sview +
  nch: oneshot_channel "cfut_ops E" nview
  for E :: "('m, 'd, 'q, 'c, 'r, 'u, 's, 'n, 'e) cenv"
    and mview :: "'m \<Rightarrow> message chan_view" and dview :: "'d \<Rightarrow> bytes chan_view"
    and cview :: "'c \<Rightarrow> con_message chan_view" and rview :: "'r \<Rightarrow> create_request chan_view"
    and uview :: "'u \<Rightarrow> unit os_view" and sview :: "'s \<Rightarrow> (stream, error) result os_view"
    and nview :: "'n \<Rightarrow> (connection, error) result os_view" +
  assumes hash_insert_mset:
    "k \<notin> fst ` set ss \<Longrightarrow> mset (hash_insert E k c ss) = mset ((k, c) # ss)"
begin

lemma hash_insert_keys:
  assumes "k \<notin> fst ` set ss"
  shows "set (hash_insert E k c ss) = insert (k, c) (set ss)"
    "distinct (map fst ss) \<Longrightarrow> distinct (map fst (hash_insert E k c ss))"
proof -
  note eq = hash_insert_mset [OF assms, of c]
  show "set (hash_insert E k c ss) = insert (k, c) (set ss)"
    using eq by (metis list.set(2) set_mset_mset)
  assume "distinct (map fst ss)"
  with assms have "distinct (map fst ((k, c) # ss))" by simp
  moreover have "mset (map fst (hash_insert E k c ss)) = mset (map fst ((k, c) # ss))"
    using eq by (simp only: mset_map)
  ultimately show "distinct (map fst (hash_insert E k c ss))"
    by (metis mset_eq_imp_distinct_iff)
qed

text \<open>Answering a future changes its channel, and whatever the undelivered value drags along.\<close>

lemma sfut_send_frame:
  "reqs (sfut_send E h v w) = reqs w" "quic (sfut_send E h v w) = quic w"
  "con_msgs (sfut_send E h v w) = con_msgs w" "cfuts (sfut_send E h v w) = cfuts w"
  "sfuts (sfut_send E h v w) = (sfuts w)(h := snd (os_send (sfut_ops E) (sfuts w h) v))"
proof -
  have d: "world.more (drop_stream_result E x y) = world.more y"
      "quic (drop_stream_result E x y) = quic y" for x and y :: "('m, 'd, 'q, 'c, 'r, 'u, 's, 'n, 'z) cworld"
    by (cases x; simp add: frame_simps)+
  show "reqs (sfut_send E h v w) = reqs w" "quic (sfut_send E h v w) = quic w"
    "con_msgs (sfut_send E h v w) = con_msgs w" "cfuts (sfut_send E h v w) = cfuts w"
    "sfuts (sfut_send E h v w) = (sfuts w)(h := snd (os_send (sfut_ops E) (sfuts w h) v))"
    by (simp_all add: sfut_send_def split_beta Let_def d more_eqD [OF d(1)] split: result.split)
qed

lemma sfut_send_value:
  assumes "ov_rx (sview (sfuts w h))"
  shows "ov_value (sview (sfuts (sfut_send E h v w) h)) = Some v"
  using assms by (simp add: sfut_send_frame sch.send_snd ov_send_def)

lemma create_stream_total:
  assumes "cnx_peer_addr E (quic w) (cc_cnx c) = Some a"
    and "generate_stream_id (cc_next_stream_id c) (cc_is_client c) stype \<notin> fst ` set (cc_streams c)"
  obtains w' st s where
    "create_stream E stype sender c w = Some
      (c\<lparr>cc_next_stream_id := cc_next_stream_id c + 1, cc_streams := hash_insert E
         (generate_stream_id (cc_next_stream_id c) (cc_is_client c) stype) s (cc_streams c)\<rparr>, w')"
    "reqs w' = reqs w" "quic w' = quic w"
    "st_id st = generate_stream_id (cc_next_stream_id c) (cc_is_client c) stype"
    "sfuts w' = (sfuts w)(sender := snd (os_send (sfut_ops E) (sfuts w sender) (Ok st)))"
proof -
  let ?sid = "generate_stream_id (cc_next_stream_id c) (cc_is_client c) stype"
  obtain st s w1 where n: "stream_new E ?sid (cc_cnx c) (cc_local_addr c) (cc_is_client c)
      (cc_stream_send_channel_default_size c) w = Some (st, s, w1)"
    "world.more w1 = world.more w" "quic w1 = quic w" "st_id st = ?sid"
    using stream_new_total [OF assms(1)] by blast
  have "map_of (cc_streams c) ?sid = None"
    using assms(2) by (simp add: map_of_eq_None_iff)
  with n show ?thesis
    by (intro that [of s "sfut_send E sender (Ok st) w1" st])
       (simp_all add: create_stream_def Let_def sfut_send_frame more_eqD [OF n(2)])
qed

end

section \<open>Stream requests\<close>

text \<open>The ids that a queue of requests is going to get.\<close>

fun request_ids :: "u64 \<Rightarrow> bool \<Rightarrow> create_request list \<Rightarrow> u64 list" where
  "request_ids n is_client [] = []"
| "request_ids n is_client ((t, s) # rs) = generate_stream_id n is_client t # request_ids (n + 1) is_client rs"

definition request_queue where
  "request_queue rview c w = cv_buffer (rview (ce_chan (reqs w (cc_recv_create_stream c))))"

definition stream_keys :: "con_ctx \<Rightarrow> u64 set" where
  "stream_keys c = fst ` set (cc_streams c)"

lemma length_request_ids [simp]: "length (request_ids n b rs) = length rs"
  by (induction n b rs rule: request_ids.induct) auto

context connection_channels
begin

lemma req_poll_Cons:
  assumes "cv_buffer (rview (ce_chan (reqs w h))) = rq # rs"
  obtains ce where "req_poll E h w = (Ok (Ready (Some rq)), w\<lparr>reqs := (reqs w)(h := ce)\<rparr>)"
    "rview (ce_chan ce) = rview (ce_chan (reqs w h))\<lparr>cv_buffer := rs\<rparr>" "ce_error ce = ce_error (reqs w h)"
proof (rule that [of "snd (receiver_poll (req_ops E) (reqs w h))"])
  show "req_poll E h w = (Ok (Ready (Some rq)), w\<lparr>reqs := (reqs w)(h := snd (receiver_poll (req_ops E) (reqs w h)))\<rparr>)"
    using assms rch.receiver_poll_fst [of "reqs w h"]
    by (cases "receiver_poll (req_ops E) (reqs w h)") (simp add: req_poll_def view_poll_def)
qed (use assms in \<open>simp_all add: rch.receiver_poll_snd view_poll_def\<close>)

lemma req_poll_Nil:
  assumes "cv_buffer (rview (ce_chan (reqs w h))) = []"
  obtains ce where "req_poll E h w =
      (Ok (if view_ended (rview (ce_chan (reqs w h))) then Ready None else NotReady), w\<lparr>reqs := (reqs w)(h := ce)\<rparr>)"
    "rview (ce_chan ce) = rview (ce_chan (reqs w h))" "ce_error ce = ce_error (reqs w h)"
proof (rule that [of "snd (receiver_poll (req_ops E) (reqs w h))"])
  show "req_poll E h w = (Ok (if view_ended (rview (ce_chan (reqs w h))) then Ready None else NotReady),
      w\<lparr>reqs := (reqs w)(h := snd (receiver_poll (req_ops E) (reqs w h)))\<rparr>)"
    using assms rch.receiver_poll_fst [of "reqs w h"]
    by (cases "receiver_poll (req_ops E) (reqs w h)") (simp add: req_poll_def view_poll_def)
qed (use assms in \<open>simp_all add: rch.receiver_poll_snd view_poll_def\<close>)

text \<open>The loop serves every waiting request once, in order.\<close>

lemma check_create_stream_requests_total:
  assumes "request_queue rview c w = rs" "cnx_peer_addr E (quic w) (cc_cnx c) = Some a"
    and "distinct (map fst (cc_streams c))" "distinct (request_ids (cc_next_stream_id c) (cc_is_client c) rs)"
    and "set (request_ids (cc_next_stream_id c) (cc_is_client c) rs) \<inter> stream_keys c = {}"
    and "distinct (map snd rs)"
  shows "\<exists>ss w'. check_create_stream_requests E c w = Some (c\<lparr>cc_streams := ss,
        cc_next_stream_id := cc_next_stream_id c + of_nat (length rs)\<rparr>, w') \<and>
      distinct (map fst ss) \<and> set (cc_streams c) \<subseteq> set ss \<and>
      fst ` set ss = stream_keys c \<union> set (request_ids (cc_next_stream_id c) (cc_is_client c) rs) \<and>
      request_queue rview c w' = [] \<and> quic w' = quic w \<and>
      (\<forall>(rq, sid) \<in> set (zip rs (request_ids (cc_next_stream_id c) (cc_is_client c) rs)).
         ov_rx (sview (sfuts w (snd rq))) \<longrightarrow>
         (\<exists>st. st_id st = sid \<and> ov_value (sview (sfuts w' (snd rq))) = Some (Ok st))) \<and>
      (\<forall>h. h \<notin> snd ` set rs \<longrightarrow> sfuts w' h = sfuts w h)"
  using assms
proof (induction rs arbitrary: c w)
  case Nil
  from Nil(1) obtain ce where "req_poll E (cc_recv_create_stream c) w =
      (Ok (if view_ended (rview (ce_chan (reqs w (cc_recv_create_stream c)))) then Ready None else NotReady),
       w\<lparr>reqs := (reqs w)(cc_recv_create_stream c := ce)\<rparr>)"
    "rview (ce_chan ce) = rview (ce_chan (reqs w (cc_recv_create_stream c)))"
    using req_poll_Nil by (metis request_queue_def)
  with Nil show ?case
    by (subst check_create_stream_requests.simps)
       (auto simp: stream_keys_def request_queue_def intro!: exI [of _ "cc_streams c"])
next
  case (Cons rq rs)
  obtain t f where rq: "rq = (t, f)" by (cases rq)
  let ?h = "cc_recv_create_stream c" and ?n = "cc_next_stream_id c"
  let ?sid = "generate_stream_id ?n (cc_is_client c) t"
  from Cons.prems(1) obtain ce where p: "req_poll E ?h w = (Ok (Ready (Some rq)), w\<lparr>reqs := (reqs w)(?h := ce)\<rparr>)"
    "rview (ce_chan ce) = rview (ce_chan (reqs w ?h))\<lparr>cv_buffer := rs\<rparr>"
    using req_poll_Cons by (metis request_queue_def)
  let ?w = "w\<lparr>reqs := (reqs w)(?h := ce)\<rparr>"
  have new: "?sid \<notin> fst ` set (cc_streams c)"
    using Cons.prems(5) rq by (simp add: stream_keys_def)
  have peer: "cnx_peer_addr E (quic ?w) (cc_cnx c) = Some a" using Cons.prems(2) by simp
  obtain w1 st s where cs: "create_stream E t f c ?w = Some
      (c\<lparr>cc_next_stream_id := ?n + 1, cc_streams := hash_insert E ?sid s (cc_streams c)\<rparr>, w1)"
    "reqs w1 = reqs ?w" "quic w1 = quic ?w" "st_id st = ?sid"
    "sfuts w1 = (sfuts ?w)(f := snd (os_send (sfut_ops E) (sfuts ?w f) (Ok st)))"
    using create_stream_total [OF peer new, of f] .
  let ?c = "c\<lparr>cc_next_stream_id := ?n + 1, cc_streams := hash_insert E ?sid s (cc_streams c)\<rparr>"
  note keys = hash_insert_keys [OF new, of s]
  have "request_queue rview ?c w1 = rs" using p(2) cs(2) by (simp add: request_queue_def)
  moreover have "cnx_peer_addr E (quic w1) (cc_cnx ?c) = Some a" using cs(3) Cons.prems(2) by simp
  moreover have "distinct (map fst (cc_streams ?c))" using keys(2) Cons.prems(3) by simp
  moreover have "distinct (request_ids (cc_next_stream_id ?c) (cc_is_client ?c) rs)"
    "set (request_ids (cc_next_stream_id ?c) (cc_is_client ?c) rs) \<inter> stream_keys ?c = {}"
    using Cons.prems(4,5) keys(1) rq by (auto simp: stream_keys_def)
  moreover have "distinct (map snd rs)" using Cons.prems(6) by simp
  ultimately obtain ss w' where IH: "check_create_stream_requests E ?c w1 = Some (?c\<lparr>cc_streams := ss,
        cc_next_stream_id := cc_next_stream_id ?c + of_nat (length rs)\<rparr>, w')"
      "distinct (map fst ss)" "set (cc_streams ?c) \<subseteq> set ss"
      "fst ` set ss = stream_keys ?c \<union> set (request_ids (cc_next_stream_id ?c) (cc_is_client ?c) rs)"
      "request_queue rview ?c w' = []" "quic w' = quic w1"
      "\<forall>(rq, sid) \<in> set (zip rs (request_ids (cc_next_stream_id ?c) (cc_is_client ?c) rs)).
         ov_rx (sview (sfuts w1 (snd rq))) \<longrightarrow>
         (\<exists>st. st_id st = sid \<and> ov_value (sview (sfuts w' (snd rq))) = Some (Ok st))"
      "\<forall>h. h \<notin> snd ` set rs \<longrightarrow> sfuts w' h = sfuts w1 h"
    using Cons.IH [of ?c w1] by blast
  have run: "check_create_stream_requests E c w = Some (c\<lparr>cc_streams := ss,
        cc_next_stream_id := ?n + of_nat (length (rq # rs))\<rparr>, w')"
    using p(1) cs(1) IH(1) rq by (subst check_create_stream_requests.simps) (simp add: ac_simps)
  have f: "f \<notin> snd ` set rs" using Cons.prems(6) rq by simp
  have first: "ov_rx (sview (sfuts w f)) \<Longrightarrow> ov_value (sview (sfuts w' f)) = Some (Ok st)"
    using IH(8) f cs(5) by (simp add: sch.send_snd ov_send_def)
  have rest: "sfuts w1 (snd x) = sfuts w (snd x)" if "x \<in> set rs" for x
    using that f cs(5) by (auto simp: image_iff)
  show ?case
  proof (intro exI conjI, rule run)
    show "distinct (map fst ss)" by (rule IH(2))
    show "set (cc_streams c) \<subseteq> set ss" using IH(3) keys(1) by auto
    show "fst ` set ss = stream_keys c \<union> set (request_ids ?n (cc_is_client c) (rq # rs))"
      using IH(4) keys(1) rq by (simp add: stream_keys_def)
    show "request_queue rview c w' = []" using IH(5) by (simp add: request_queue_def)
    show "quic w' = quic w" using IH(6) cs(3) by simp
    show "\<forall>h. h \<notin> snd ` set (rq # rs) \<longrightarrow> sfuts w' h = sfuts w h"
      using IH(8) cs(5) rq by auto
    show "\<forall>(x, sid) \<in> set (zip (rq # rs) (request_ids ?n (cc_is_client c) (rq # rs))).
         ov_rx (sview (sfuts w (snd x))) \<longrightarrow>
         (\<exists>st. st_id st = sid \<and> ov_value (sview (sfuts w' (snd x))) = Some (Ok st))"
      using IH(7) first cs(4) rq rest by (force dest: set_zip_leftD)
  qed
qed

end

section \<open>Unique identifiers\<close>

text \<open>Every key is in the map once, and the ids of this side's own streams lie below the
  counter.\<close>

definition con_inv :: "con_ctx \<Rightarrow> bool" where
  "con_inv c \<longleftrightarrow>
     distinct (map fst (cc_streams c)) \<and>
     (\<forall>k\<in>stream_keys c. is_client_initiated k = cc_is_client c \<longrightarrow>
        unat k < 4 * (unat (cc_next_stream_id c) + 1))"

text \<open>An id that picoquic may report: one of the peer's, or one of ours that exists.\<close>

definition reported_id :: "con_ctx \<Rightarrow> u64 \<Rightarrow> bool" where
  "reported_id c sid \<longleftrightarrow>
     (is_client_initiated sid = cc_is_client c \<longrightarrow> unat sid < 4 * (unat (cc_next_stream_id c) + 1))"

lemma unat_Suc_small: "unat (n :: u64) < 2 ^ 62 \<Longrightarrow> unat (n + 1) = unat n + 1"
  by (simp add: unat_word_ariths)

lemma request_ids_range:
  assumes "unat n + length rs < 2 ^ 62"
  shows "\<forall>k\<in>set (request_ids n b rs). 4 * (unat n + 1) \<le> unat k \<and>
      unat k < 4 * (unat n + length rs + 1) \<and> is_client_initiated k = b"
    and "distinct (request_ids n b rs)"
proof -
  have *: "(\<forall>k\<in>set (request_ids n b rs). 4 * (unat n + 1) \<le> unat k \<and>
      unat k < 4 * (unat n + length rs + 1) \<and> is_client_initiated k = b) \<and> distinct (request_ids n b rs)"
    using assms
  proof (induction n b rs rule: request_ids.induct)
    case (2 n b t f rs)
    then have u: "unat (n + 1) = unat n + 1" by (intro unat_Suc_small) simp
    with 2 have IH: "\<forall>k\<in>set (request_ids (n + 1) b rs). 4 * (unat n + 2) \<le> unat k \<and>
        unat k < 4 * (unat n + length rs + 2) \<and> is_client_initiated k = b"
      "distinct (request_ids (n + 1) b rs)" by simp_all
    have "unat (generate_stream_id n b t) =
        4 * (unat n + 1) + (if b then 0 else 1) + (if t = Unidirectional then 2 else 0)"
      using 2(2) by (intro unat_generate) simp
    then have g: "4 * (unat n + 1) \<le> unat (generate_stream_id n b t)"
      "unat (generate_stream_id n b t) < 4 * (unat n + 2)"
      by (simp_all split: if_splits)
    have "generate_stream_id n b t \<notin> set (request_ids (n + 1) b rs)"
      using IH(1) g(2) by (metis not_le)
    with IH g show ?case by (auto simp: generate_classified)
  qed simp
  from * show "\<forall>k\<in>set (request_ids n b rs). 4 * (unat n + 1) \<le> unat k \<and>
      unat k < 4 * (unat n + length rs + 1) \<and> is_client_initiated k = b"
    and "distinct (request_ids n b rs)" by blast+
qed

lemma unat_counter:
  assumes "unat (n :: u64) + k < 2 ^ 62"
  shows "unat (n + of_nat k) = unat n + k"
proof -
  have "unat (of_nat k :: u64) = k"
    using assms by (simp add: unat_of_nat)
  with assms show ?thesis by (simp add: unat_word_ariths)
qed

lemma request_ids_new:
  assumes "con_inv c" "unat (cc_next_stream_id c) + length rs < 2 ^ 62"
  shows "set (request_ids (cc_next_stream_id c) (cc_is_client c) rs) \<inter> stream_keys c = {}"
proof -
  { fix k assume "k \<in> set (request_ids (cc_next_stream_id c) (cc_is_client c) rs)" "k \<in> stream_keys c"
    with request_ids_range(1) [OF assms(2), of "cc_is_client c"] assms(1) have False
      by (fastforce simp: con_inv_def) }
  then show ?thesis by blast
qed

lemma con_inv_requests:
  assumes "con_inv c" "unat (cc_next_stream_id c) + length rs < 2 ^ 62"
    and "distinct (map fst ss)"
    and "fst ` set ss = stream_keys c \<union> set (request_ids (cc_next_stream_id c) (cc_is_client c) rs)"
  shows "con_inv (c\<lparr>cc_streams := ss, cc_next_stream_id := cc_next_stream_id c + of_nat (length rs)\<rparr>)"
  using assms request_ids_range(1) [OF assms(2), of "cc_is_client c"]
  by (fastforce simp: con_inv_def unat_counter [OF assms(2)] stream_keys_def)

lemma streams_update_keys [simp]: "map fst (streams_update k c ss) = map fst ss"
  by (induction k c ss rule: streams_update.induct) auto

lemma each_stream_keys [simp]: "map fst (fst (each_stream f ss w)) = map fst ss"
  by (induction ss arbitrary: w) (simp_all add: Let_def split_beta)

lemma retain_streams_keys:
  "retain_streams E ss w = Some (ss', w') \<Longrightarrow>
     fst ` set ss' \<subseteq> fst ` set ss \<and> (distinct (map fst ss) \<longrightarrow> distinct (map fst ss'))"
proof (induction ss arbitrary: w ss')
  case (Cons e ss)
  from Cons.prems obtain s w2 ss2 keep where "retain_streams E ss w2 = Some (ss2, w')"
    "ss' = (if keep then (fst e, s) # ss2 else ss2)"
    by (auto simp: Let_def split: bind_splits)
  with Cons.IH [of w2 ss2] show ?case by (auto split: if_splits)
qed simp

text \<open>The invariant only looks at the keys, the counter and the side.\<close>

lemma con_inv_mono:
  assumes "con_inv c" "distinct (map fst (cc_streams c'))" "stream_keys c' \<subseteq> stream_keys c"
    and "cc_next_stream_id c' = cc_next_stream_id c" "cc_is_client c' = cc_is_client c"
  shows "con_inv c'"
  using assms by (auto simp: con_inv_def)

context connection_channels
begin

lemma con_inv_insert:
  assumes "con_inv c" "reported_id c sid" "sid \<notin> stream_keys c"
  shows "con_inv (c\<lparr>cc_streams := hash_insert E sid s (cc_streams c)\<rparr>)"
proof -
  have n: "sid \<notin> fst ` set (cc_streams c)" using assms(3) by (simp add: stream_keys_def)
  show ?thesis
    using assms hash_insert_keys [OF n, of s]
    by (auto simp: con_inv_def stream_keys_def reported_id_def)
qed

lemma con_inv_callback:
  assumes "con_inv c" "reported_id c sid" "con_handle_callback E sid ptr len event c w = Some (c', w')"
  shows "con_inv c'"
proof (cases "event = callback_almost_ready \<or> sid = 0")
  case True
  with assms(3) have "c' = c \<or> c' = c\<lparr>cc_wait_for_ready_state := None\<rparr>"
    by (auto simp: con_handle_callback_def process_wait_for_ready_state_def split: if_splits option.splits)
  with assms(1) show ?thesis by (auto simp: con_inv_def stream_keys_def)
next
  case False
  with assms(3) have r: "handle_stream_callback E sid ptr len event c w = Some (c', w')"
    by (simp add: con_handle_callback_def)
  show ?thesis
  proof (cases "map_of (cc_streams c) sid")
    case None
    then have "sid \<notin> stream_keys c" by (simp add: map_of_eq_None_iff stream_keys_def)
    with assms(1,2) have "con_inv (c\<lparr>cc_streams := hash_insert E sid s (cc_streams c)\<rparr>)" for s
      by (rule con_inv_insert)
    with r None show ?thesis
      by (auto simp: handle_stream_callback_def split: bind_splits)
  next
    case (Some s)
    with r obtain s' where "c' = c\<lparr>cc_streams := streams_update sid s' (cc_streams c)\<rparr>"
      by (auto simp: handle_stream_callback_def split: bind_splits)
    moreover have "fst ` set (streams_update sid s' (cc_streams c)) = fst ` set (cc_streams c)"
      by (metis list.set_map streams_update_keys)
    ultimately show ?thesis using assms(1) by (simp add: con_inv_def stream_keys_def)
  qed
qed

lemma check_create_inv:
  assumes "con_inv c" "request_queue rview c w = rs" "distinct (map snd rs)"
    and "cnx_peer_addr E (quic w) (cc_cnx c) = Some a"
    and "unat (cc_next_stream_id c) + length rs < 2 ^ 62"
  obtains c' w' where "check_create_stream_requests E c w = Some (c', w')" "con_inv c'"
proof -
  have d: "distinct (map fst (cc_streams c))" using assms(1) by (simp add: con_inv_def)
  from check_create_stream_requests_total [OF assms(2,4) d request_ids_range(2) [OF assms(5)]
      request_ids_new [OF assms(1,5)] assms(3)]
  obtain ss w' where "check_create_stream_requests E c w = Some (c\<lparr>cc_streams := ss,
        cc_next_stream_id := cc_next_stream_id c + of_nat (length rs)\<rparr>, w')"
    "distinct (map fst ss)"
    "fst ` set ss = stream_keys c \<union> set (request_ids (cc_next_stream_id c) (cc_is_client c) rs)"
    by blast
  with con_inv_requests [OF assms(1,5)] show ?thesis by (intro that)
qed

end

end
