(* ===== verification/Connection_Events.thy ===== *)
theory Connection_Events
  imports Connection_Laws
begin

text \<open>
  What happens to a connection as a whole: polling its context, errors of the connection, its
  readiness and its end (\<^verbatim>\<open>src/connection.rs\<close>).
\<close>

section \<open>Polling\<close>

lemma context_reset_frame [frame_simps]: "world.more (snd (context_reset E c w)) = world.more w"
  by (simp add: context_reset_eq close_send_data_def Let_def frame_simps split: option.split)

lemma recv_message_dropped_frame [frame_simps]:
  "world.more (snd (recv_message_dropped E c w)) = world.more w"
  by (simp add: recv_message_dropped_def Let_def)

lemma msg_poll_frame [frame_simps]: "world.more (snd (msg_poll E h w)) = world.more w"
  by (simp add: msg_poll_def split_beta)

lemma poll_control_msg_frame:
  assumes "poll_control_msg E c w = Some y"
  shows "world.more (snd (snd y)) = world.more w"
proof (rule poll_control_msg.raw_induct [OF _ assms], goal_cases)
  case (1 f E c w y)
  obtain r w1 where p: "msg_poll E (sc_control_msg c) w = (r, w1)" by fastforce
  have w1: "world.more w1 = world.more w" using msg_poll_frame [of E "sc_control_msg c" w] p by simp
  have rd: "recv_message_dropped E c w1 = (c', w') \<Longrightarrow> world.more w' = world.more w" for c' w'
    using w1 recv_message_dropped_frame [of E c w1] by simp
  have rs: "context_reset E c w1 = (c', w') \<Longrightarrow> world.more w' = world.more w" for c' w'
    using w1 context_reset_frame [of E c w1] by simp
  from 1(2) p show ?case
    using w1
    by (auto simp: frame_simps rd rs split: result.splits async.splits option.splits message.splits prod.splits
        dest!: 1(1))
qed

lemma data_poll_frame [frame_simps]: "world.more (snd (snd (data_poll E s w))) = world.more w"
  by (simp add: data_poll_def split_beta)

lemma handle_send_data_dropped_frame [frame_simps]:
  "world.more (snd (handle_send_data_dropped E c w)) = world.more w"
  by (auto simp: handle_send_data_dropped_def Let_def frame_simps split: option.split)

lemma poll_send_data_frame [frame_simps]:
  "world.more (snd (snd (poll_send_data E c w))) = world.more w"
proof -
  have "world.more w' = world.more w" if "data_poll E s w = (a, b, w')" for s a b w'
    using data_poll_frame [of E s w] that by simp
  then show ?thesis
    by (auto simp: poll_send_data_def frame_simps split: option.split prod.split result.split async.split)
qed

lemma stream_context_poll_frame:
  assumes "stream_context_poll E c w = Some (r, c', w')"
  shows "world.more w' = world.more w"
proof -
  from assms obtain r1 c1 w1 where p: "poll_control_msg E c w = Some (r1, c1, w1)"
    by (auto simp: stream_context_poll_def split: bind_splits)
  have "world.more (snd (snd (poll_send_data E c1 w1))) = world.more w"
    using poll_control_msg_frame [OF p] by (simp add: frame_simps)
  with assms p poll_control_msg_frame [OF p] show ?thesis
    by (auto simp: stream_context_poll_def Let_def split: result.splits prod.splits)
qed

lemma stream_context_drop_frame [frame_simps]:
  "world.more (stream_context_drop E c w) = world.more w"
  by (auto simp: stream_context_drop_def close_send_data_def Let_def frame_simps split: option.split)

lemma retain_streams_frame:
  "retain_streams E ss w = Some (ss', w') \<Longrightarrow> world.more w' = world.more w"
proof (induction ss arbitrary: w ss')
  case (Cons e ss)
  from Cons.prems obtain r s w1 ss2 keep where "stream_context_poll E (snd e) w = Some (r, s, w1)"
    "retain_streams E ss (if keep then w1 else stream_context_drop E s w1) = Some (ss2, w')"
    by (auto simp: Let_def split: bind_splits)
  with Cons.IH stream_context_poll_frame show ?case
    by (fastforce simp: frame_simps split: if_splits)
qed simp

lemma con_close_eq:
  "map fst (cc_streams (fst (con_close E c w))) = map fst (cc_streams c)"
  "cc_next_stream_id (fst (con_close E c w)) = cc_next_stream_id c"
  "cc_is_client (fst (con_close E c w)) = cc_is_client c"
  by (simp_all add: con_close_def Let_def split_beta)

lemma con_inv_same_keys:
  assumes "con_inv c" "map fst (cc_streams c') = map fst (cc_streams c)"
    and "cc_next_stream_id c' = cc_next_stream_id c" "cc_is_client c' = cc_is_client c"
  shows "con_inv c'"
proof -
  have "stream_keys c' = stream_keys c"
    unfolding stream_keys_def by (metis assms(2) list.set_map)
  with assms show ?thesis by (auto intro: con_inv_mono simp: con_inv_def)
qed

text \<open>The peer's address can be read at any time.\<close>

definition peer_known :: "('m, 'd, 'q, 'e) senv \<Rightarrow> ptr \<Rightarrow> bool" where
  "peer_known E cnx \<longleftrightarrow> (\<forall>q. cnx_peer_addr E q cnx \<noteq> None)"

context connection_channels
begin

text \<open>If the streams are polled without a panic, the whole poll returns and keeps the
  invariant.\<close>

lemma con_ctx_poll_inv:
  assumes "con_inv c" "\<not> cc_closed c" "peer_known E (cc_cnx c)"
    and "retain_streams E (cc_streams c) w = Some (ss, w1)"
    and "request_queue rview c w = rs" "distinct (map snd rs)"
    and "unat (cc_next_stream_id c) + length rs < 2 ^ 62"
  obtains c' w' where "con_ctx_poll E c w = Some (Ok NotReady, c', w')" "con_inv c'"
proof -
  let ?c = "c\<lparr>cc_streams := ss\<rparr>"
  have "con_inv ?c"
    using assms(1) retain_streams_keys [OF assms(4)]
    by (intro con_inv_mono [OF assms(1)]) (auto simp: con_inv_def stream_keys_def)
  moreover have "request_queue rview ?c w1 = rs"
    using assms(5) more_eqD(2) [OF retain_streams_frame [OF assms(4)]] by (simp add: request_queue_def)
  moreover from assms(3) obtain a where "cnx_peer_addr E (quic w1) (cc_cnx ?c) = Some a"
    by (auto simp: peer_known_def)
  ultimately obtain c2 w2 where p: "check_create_stream_requests E ?c w1 = Some (c2, w2)" "con_inv c2"
    using check_create_inv [of ?c w1 rs a] assms(6,7) by auto
  obtain r u where o: "os_poll (unit_ops E) (units w2 (cc_close_recv c2)) = (r, u)" by fastforce
  let ?w2 = "w2\<lparr>units := (units w2)(cc_close_recv c2 := u)\<rparr>"
  let ?cl = "case r of Ok (Ready _) \<Rightarrow> con_close E c2 ?w2 | _ \<Rightarrow> (c2, ?w2)"
  have "con_inv (fst (con_close E c2 ?w2))"
    using p(2) by (rule con_inv_same_keys) (simp_all add: con_close_eq)
  then have "con_inv (fst ?cl)" using p(2) by (auto split: result.split async.split)
  moreover have "con_ctx_poll E c w = Some (Ok NotReady, fst ?cl, snd ?cl)"
    using assms(2,4) p(1) o
    by (auto simp: con_ctx_poll_def Let_def split: result.split async.split prod.split)
  ultimately show ?thesis by (rule that [rotated])
qed

section \<open>Errors\<close>

text \<open>Every waiting request is answered with the error.\<close>

lemma fail_requests_total:
  assumes "cv_buffer (rview (ce_chan (reqs w h))) = rs" "distinct (map snd rs)"
  shows "\<exists>w'. fail_requests E err h w = Some w' \<and>
      rview (ce_chan (reqs w' h)) = rview (ce_chan (reqs w h))\<lparr>cv_buffer := []\<rparr> \<and>
      ce_error (reqs w' h) = ce_error (reqs w h) \<and>
      con_msgs w' = con_msgs w \<and> cfuts w' = cfuts w \<and>
      (\<forall>rq\<in>set rs. ov_rx (sview (sfuts w (snd rq))) \<longrightarrow>
         ov_value (sview (sfuts w' (snd rq))) = Some (Err (err ()))) \<and>
      (\<forall>f. f \<notin> snd ` set rs \<longrightarrow> sfuts w' f = sfuts w f)"
  using assms
proof (induction rs arbitrary: w)
  case Nil
  then obtain ce where "req_poll E h w =
      (Ok (if view_ended (rview (ce_chan (reqs w h))) then Ready None else NotReady), w\<lparr>reqs := (reqs w)(h := ce)\<rparr>)"
    "rview (ce_chan ce) = rview (ce_chan (reqs w h))" "ce_error ce = ce_error (reqs w h)"
    using req_poll_Nil by metis
  with Nil show ?case by (subst fail_requests.simps) auto
next
  case (Cons rq rs)
  from Cons.prems(1) obtain ce where p: "req_poll E h w = (Ok (Ready (Some rq)), w\<lparr>reqs := (reqs w)(h := ce)\<rparr>)"
    "rview (ce_chan ce) = rview (ce_chan (reqs w h))\<lparr>cv_buffer := rs\<rparr>" "ce_error ce = ce_error (reqs w h)"
    using req_poll_Cons by metis
  let ?w = "w\<lparr>reqs := (reqs w)(h := ce)\<rparr>"
  let ?w1 = "sfut_send E (snd rq) (Err (err ())) ?w"
  have "cv_buffer (rview (ce_chan (reqs ?w1 h))) = rs" "distinct (map snd rs)"
    using p(2) Cons.prems(2) by (simp_all add: sfut_send_frame)
  from Cons.IH [OF this] obtain w' where IH: "fail_requests E err h ?w1 = Some w'"
      "rview (ce_chan (reqs w' h)) = rview (ce_chan (reqs ?w1 h))\<lparr>cv_buffer := []\<rparr>"
      "ce_error (reqs w' h) = ce_error (reqs ?w1 h)"
      "con_msgs w' = con_msgs ?w1" "cfuts w' = cfuts ?w1"
      "\<forall>rq\<in>set rs. ov_rx (sview (sfuts ?w1 (snd rq))) \<longrightarrow>
         ov_value (sview (sfuts w' (snd rq))) = Some (Err (err ()))"
      "\<forall>f. f \<notin> snd ` set rs \<longrightarrow> sfuts w' f = sfuts ?w1 f"
    by blast
  have run: "fail_requests E err h w = Some w'"
    using p(1) IH(1) by (subst fail_requests.simps) simp
  have f: "snd rq \<notin> snd ` set rs" using Cons.prems(2) by simp
  have first: "ov_rx (sview (sfuts w (snd rq))) \<Longrightarrow>
      ov_value (sview (sfuts w' (snd rq))) = Some (Err (err ()))"
    using IH(7) f sfut_send_value [of ?w "snd rq" "Err (err ())"] by simp
  have rest: "sfuts ?w1 (snd x) = sfuts w (snd x)" if "x \<in> set rs" for x
    using that f by (auto simp: sfut_send_frame image_iff)
  show ?case
  proof (intro exI conjI, rule run)
    show "\<forall>x\<in>set (rq # rs). ov_rx (sview (sfuts w (snd x))) \<longrightarrow>
         ov_value (sview (sfuts w' (snd x))) = Some (Err (err ()))"
      using IH(6) first rest by auto
    show "\<forall>f. f \<notin> snd ` set (rq # rs) \<longrightarrow> sfuts w' f = sfuts w f"
      using IH(7) by (simp add: sfut_send_frame)
  qed (use IH p in \<open>simp_all add: sfut_send_frame\<close>)
qed

end

end
