(* ===== verification/Connection_Ends.thy ===== *)
theory Connection_Ends
  imports Connection_Events
begin

text \<open>
  How a connection tells its user about its end and about its readiness: the messages that
  reach every stream, the answers that reach every waiting future, and what a request gets that
  comes later (\<^verbatim>\<open>src/connection.rs\<close>).
\<close>

section \<open>Telling every stream\<close>

lemma each_stream_inbox:
  assumes "distinct (map (\<lambda>e. sc_recv_msg (snd e)) ss)"
    and other: "\<And>s w h. h \<noteq> sc_recv_msg s \<Longrightarrow> msgs (snd (f s w)) h = msgs w h"
    and own: "\<And>s w. user_listens mview s w \<Longrightarrow>
        cv_buffer (mview (msgs (snd (f s w)) (sc_recv_msg s))) = inbox mview s w @ [m]"
  shows "\<forall>e\<in>set ss. user_listens mview (snd e) w \<longrightarrow>
      inbox mview (snd e) (snd (each_stream f ss w)) = inbox mview (snd e) w @ [m]"
    and "\<And>h. h \<notin> (\<lambda>e. sc_recv_msg (snd e)) ` set ss \<Longrightarrow> msgs (snd (each_stream f ss w)) h = msgs w h"
proof -
  have "(\<forall>e\<in>set ss. user_listens mview (snd e) w \<longrightarrow>
      inbox mview (snd e) (snd (each_stream f ss w)) = inbox mview (snd e) w @ [m]) \<and>
      (\<forall>h. h \<notin> (\<lambda>e. sc_recv_msg (snd e)) ` set ss \<longrightarrow> msgs (snd (each_stream f ss w)) h = msgs w h)"
    using assms(1)
  proof (induction ss arbitrary: w)
    case (Cons e ss)
    let ?w = "snd (f (snd e) w)"
    have IH: "\<forall>x\<in>set ss. user_listens mview (snd x) ?w \<longrightarrow>
        inbox mview (snd x) (snd (each_stream f ss ?w)) = inbox mview (snd x) ?w @ [m]"
      "\<forall>h. h \<notin> (\<lambda>e. sc_recv_msg (snd e)) ` set ss \<longrightarrow> msgs (snd (each_stream f ss ?w)) h = msgs ?w h"
      using Cons by simp_all
    have eq: "snd (each_stream f (e # ss) w) = snd (each_stream f ss ?w)"
      by (simp add: Let_def split_beta)
    have out: "sc_recv_msg (snd e) \<notin> (\<lambda>e. sc_recv_msg (snd e)) ` set ss" using Cons.prems by simp
    have same: "msgs ?w (sc_recv_msg (snd x)) = msgs w (sc_recv_msg (snd x))" if "x \<in> set ss" for x
      using that out by (intro other) (auto simp: image_iff)
    show ?case
    proof (intro conjI ballI impI allI)
      fix x assume x: "x \<in> set (e # ss)" "user_listens mview (snd x) w"
      show "inbox mview (snd x) (snd (each_stream f (e # ss) w)) = inbox mview (snd x) w @ [m]"
      proof (cases "x \<in> set ss")
        case True
        then have "user_listens mview (snd x) ?w" "inbox mview (snd x) ?w = inbox mview (snd x) w"
          using x(2) same by (simp_all add: user_listens_def inbox_def)
        with True IH(1) show ?thesis unfolding eq by simp
      next
        case False
        with x(1) have "x = e" by simp
        with IH(2) out own [OF x(2)] show ?thesis unfolding eq by (simp add: inbox_def)
      qed
    next
      fix h assume "h \<notin> (\<lambda>e. sc_recv_msg (snd e)) ` set (e # ss)"
      with IH(2) other show "msgs (snd (each_stream f (e # ss) w)) h = msgs w h"
        unfolding eq by simp
    qed
  qed simp
  then show "\<forall>e\<in>set ss. user_listens mview (snd e) w \<longrightarrow>
      inbox mview (snd e) (snd (each_stream f ss w)) = inbox mview (snd e) w @ [m]"
    and "\<And>h. h \<notin> (\<lambda>e. sc_recv_msg (snd e)) ` set ss \<Longrightarrow> msgs (snd (each_stream f ss w)) h = msgs w h"
    by blast+
qed

context stream_channels
begin

lemma recv_message_other:
  assumes "h \<noteq> sc_recv_msg c" "\<not> is_swap m"
  shows "msgs (snd (recv_message E c m w)) h = msgs w h"
proof (cases "user_listens mview c w")
  case True
  then obtain ch where "recv_message E c m w = (c, w\<lparr>msgs := (msgs w)(sc_recv_msg c := ch)\<rparr>)"
    using recv_message_listening by metis
  with assms show ?thesis by simp
next
  case False
  then obtain ch where "recv_message E c m w =
      recv_message_dropped E c (w\<lparr>msgs := (msgs w)(sc_recv_msg c := ch)\<rparr>)"
    using recv_message_gone [OF _ assms(2)] by metis
  with assms show ?thesis by simp
qed

lemma recv_message_own:
  assumes "user_listens mview c w"
  shows "cv_buffer (mview (msgs (snd (recv_message E c m w)) (sc_recv_msg c))) = inbox mview c w @ [m]"
proof -
  obtain ch where "recv_message E c m w = (c, w\<lparr>msgs := (msgs w)(sc_recv_msg c := ch)\<rparr>)"
    "mview ch = mview (msgs w (sc_recv_msg c))\<lparr>cv_buffer := inbox mview c w @ [m]\<rparr>"
    using recv_message_listening [OF assms] by metis
  then show ?thesis by simp
qed

lemma handle_connection_error_msgs:
  "msgs (snd (handle_connection_error E f c w)) = msgs (snd (recv_message E c (MError (f ())) w))"
  by (simp add: handle_connection_error_def Let_def split_beta split: option.split)

end

section \<open>Sending to the user\<close>

context connection_channels
begin

lemma drop_con_message_frame [frame_simps]: "world.more (drop_con_message E m w) = world.more w"
  by (cases m) (simp_all add: frame_simps)

lemma fold_drop_con_message_frame [frame_simps]:
  "world.more (fold (drop_con_message E) ms w) = world.more w"
  by (induction ms arbitrary: w) (simp_all add: frame_simps)

lemma con_send_frame:
  "reqs (con_send E h m w) = reqs w" "sfuts (con_send E h m w) = sfuts w"
  "cfuts (con_send E h m w) = cfuts w"
  "con_msgs (con_send E h m w) = (con_msgs w)(h := snd (mpsc_unbounded_send (con_ops E) (con_msgs w h) m))"
  by (auto simp: con_send_def Let_def split_beta more_eqD [OF drop_con_message_frame] split: result.split)

lemma con_send_open:
  assumes "cv_open (cview (con_msgs w h))"
  shows "cv_buffer (cview (con_msgs (con_send E h m w) h)) = cv_buffer (cview (con_msgs w h)) @ [m]"
  using assms by (simp add: con_send_frame cch.unbounded_send_snd view_send_def)

lemma con_drop_rx_frame:
  "reqs (con_drop_rx E h w) = reqs w" "sfuts (con_drop_rx E h w) = sfuts w" "cfuts (con_drop_rx E h w) = cfuts w"
  by (simp_all add: con_drop_rx_def split_beta more_eqD [OF fold_drop_con_message_frame])

lemma builder_drop_frame:
  "sfuts (builder_drop E b w) = sfuts w" "cfuts (builder_drop E b w) = cfuts w"
  "ce_error (reqs (builder_drop E b w) h) = ce_error (reqs w h)"
  "cv_open (rview (ce_chan (reqs (builder_drop E b w) h))) = cv_open (rview (ce_chan (reqs w h)))"
  "cv_buffer (rview (ce_chan (reqs (builder_drop E b w) h))) = cv_buffer (rview (ce_chan (reqs w h)))"
  by (simp_all add: builder_drop_def Let_def req_drop_tx_def unit_drop_tx_def con_drop_rx_frame
      rch.sender_drop_view)

lemma connection_drop_frame:
  "sfuts (connection_drop E con w) = sfuts w" "cfuts (connection_drop E con w) = cfuts w"
  by (simp_all add: connection_drop_def Let_def req_drop_tx_def unit_drop_tx_def con_drop_rx_frame
      split: option.split)

lemma cfut_send_Err_frame:
  "sfuts (cfut_send E h (Err e) w) = sfuts w" "reqs (cfut_send E h (Err e) w) = reqs w"
  by (cases "os_send (cfut_ops E) (cfuts w h) (Err e)";
      use nch.send_fst [of "cfuts w h" "Err e"] in \<open>auto simp: cfut_send_def Let_def ov_send_def split: if_splits\<close>)+

lemma cfut_send_value:
  assumes "ov_rx (nview (cfuts w h))"
  shows "ov_value (nview (cfuts (cfut_send E h v w) h)) = Some v"
  using assms nch.send_fst [of "cfuts w h" v] nch.send_snd [of "cfuts w h" v]
  by (cases "os_send (cfut_ops E) (cfuts w h) v") (simp add: cfut_send_def Let_def ov_send_def)

section \<open>An error of the connection\<close>

lemma check_and_handle_error_total:
  assumes "cnx_error E (quic w) (cc_cnx c) = Some err"
    and "distinct (map snd (request_queue rview c w))"
  obtains c' w' where "check_and_handle_error E c w = Some (c', w')"
    "\<forall>rq\<in>set (request_queue rview c w). ov_rx (sview (sfuts w (snd rq))) \<longrightarrow>
       ov_value (sview (sfuts w' (snd rq))) = Some (Err (err ()))"
    "\<not> cv_open (rview (ce_chan (reqs w' (cc_recv_create_stream c))))"
    "ce_error (reqs w' (cc_recv_create_stream c)) = Some err" "request_queue rview c w' = []"
    "cc_wait_for_ready_state c' = None" "cc_recv_create_stream c' = cc_recv_create_stream c"
    "\<forall>b f. cc_wait_for_ready_state c = Some (b, f) \<and> ov_rx (nview (cfuts w f)) \<longrightarrow>
       ov_value (nview (cfuts w' f)) = Some (Err (err ()))"
    "cc_wait_for_ready_state c = None \<and> cv_open (cview (con_msgs w (cc_send_msg c))) \<longrightarrow>
       cv_buffer (cview (con_msgs w' (cc_send_msg c))) =
         cv_buffer (cview (con_msgs w (cc_send_msg c))) @ [CError (err ())]"
proof -
  let ?h = "cc_recv_create_stream c"
  let ?e = "each_stream (handle_connection_error E err) (cc_streams c) w"
  have more: "world.more (snd ?e) = world.more w"
    by (rule each_stream_frame) (simp add: frame_simps)
  define w1 where "w1 = (snd ?e)\<lparr>reqs := (reqs w)(?h :=
      receiver_close (req_ops E) (propagate_error err (reqs w ?h)))\<rparr>"
  have w1: "rview (ce_chan (reqs w1 ?h)) = rview (ce_chan (reqs w ?h))\<lparr>cv_open := False\<rparr>"
    "ce_error (reqs w1 ?h) = Some err" "sfuts w1 = sfuts w" "con_msgs w1 = con_msgs w" "cfuts w1 = cfuts w"
    by (simp_all add: w1_def rch.receiver_close_view rch.propagate_error_view more_eqD [OF more])
  have "cv_buffer (rview (ce_chan (reqs w1 ?h))) = request_queue rview c w"
    by (simp add: w1(1) request_queue_def)
  from fail_requests_total [OF this assms(2), of err] obtain w2 where w2:
    "fail_requests E err ?h w1 = Some w2"
    "rview (ce_chan (reqs w2 ?h)) = rview (ce_chan (reqs w1 ?h))\<lparr>cv_buffer := []\<rparr>"
    "ce_error (reqs w2 ?h) = ce_error (reqs w1 ?h)" "con_msgs w2 = con_msgs w1" "cfuts w2 = cfuts w1"
    "\<forall>rq\<in>set (request_queue rview c w). ov_rx (sview (sfuts w1 (snd rq))) \<longrightarrow>
       ov_value (sview (sfuts w2 (snd rq))) = Some (Err (err ()))"
    by blast
  let ?c = "c\<lparr>cc_streams := fst ?e\<rparr>"
  have run: "check_and_handle_error E c w =
      (case cc_wait_for_ready_state c of
         Some (b, f) \<Rightarrow> Some (?c\<lparr>cc_wait_for_ready_state := None\<rparr>,
           builder_drop E b (cfut_send E f (Err (err ())) w2))
       | None \<Rightarrow> Some (?c, con_send E (cc_send_msg c) (CError (err ())) w2))"
    using assms(1) w2(1)
    by (simp add: check_and_handle_error_def Let_def split_beta w1_def more_eqD [OF more]
        split: option.split)
  show ?thesis
  proof (cases "cc_wait_for_ready_state c")
    case None
    with run show ?thesis
      by (intro that [of ?c "con_send E (cc_send_msg c) (CError (err ())) w2"])
         (use w1 w2 con_send_open [of w2 "cc_send_msg c"] in
           \<open>simp_all add: con_send_frame request_queue_def\<close>)
  next
    case (Some bf)
    obtain b f where bf: "bf = (b, f)" by (cases bf)
    with run Some show ?thesis
      by (intro that [of "?c\<lparr>cc_wait_for_ready_state := None\<rparr>"
            "builder_drop E b (cfut_send E f (Err (err ())) w2)"])
         (use w1 w2 cfut_send_value [of w2 f "Err (err ())"] in
           \<open>simp_all add: builder_drop_frame cfut_send_Err_frame request_queue_def\<close>)
  qed
qed

text \<open>A request that comes after the error is answered with it at once.\<close>

lemma new_stream_after_error:
  assumes "\<not> cv_open (rview (ce_chan (reqs w rq)))" "ce_error (reqs w rq) = Some err"
    and "new_stream_handle E rq t w = (f, w')"
  shows "fst (new_stream_future_poll E f w') = Err (err ())"
proof -
  let ?w = "w\<lparr>sfuts := (sfuts w)(fresh w := os_new (sfut_ops E)), fresh := Suc (fresh w)\<rparr>"
  obtain r ce where s: "sender_start_send (req_ops E) (reqs w rq) (t, fresh w) = (r, ce)" by fastforce
  with rch.sender_start_send_closed(1) [OF assms(1), of "(t, fresh w)"] assms(2)
  have "r = Err (Channel (err ()) (t, fresh w))" by simp
  with assms(3) s have f: "f = fresh w"
    and w': "w' = sfut_send E (fresh w) (Err (err ())) (?w\<lparr>reqs := (reqs w)(rq := ce)\<rparr>)"
    by (auto simp: new_stream_handle_def Let_def)
  have "fst (os_poll (sfut_ops E) (sfuts w' f)) = Ok (Ready (Err (err ())))"
    using sch.poll_after_send [of "os_new (sfut_ops E)" "Err (err ())"]
    by (simp add: w' f sfut_send_frame sch.oview_new ov_new_def)
  then show ?thesis
    by (cases "os_poll (sfut_ops E) (sfuts w' f)") (simp add: new_stream_future_poll_def)
qed

section \<open>Callbacks\<close>

lemma close_send_data_frame: "world.more (snd (close_send_data E c w)) = world.more w"
  by (simp add: close_send_data_def Let_def frame_simps split: option.split)

lemma stream_callback_frame:
  assumes "event \<noteq> callback_prepare_to_send"
  obtains s' w' where "stream_handle_callback E ptr len event s w = Some (s', w')"
    "world.more w' = world.more w"
proof -
  obtain s1 w1 where 1: "(if c_read E (quic w) ptr len \<noteq> [] \<and> \<not> sc_fin_received_or_recv_msg_dropped s
      then recv_message E s (MRecvData (c_read E (quic w) ptr len)) w else (s, w)) = (s1, w1)"
    by fastforce
  have more: "world.more w1 = world.more w"
    using 1 recv_message_frame [of E s "MRecvData (c_read E (quic w) ptr len)" w]
    by (auto split: if_splits)
  let ?r = "if event = callback_stream_reset then
      recv_message E (s1\<lparr>sc_fin_received_or_recv_msg_dropped := True\<rparr>) MReset w1
    else if event = callback_stop_sending then
      close_send_data E (s1\<lparr>sc_stop_sending_or_fin_sent := True\<rparr>) w1
    else if event = callback_stream_fin then
      recv_message E (s1\<lparr>sc_fin_received_or_recv_msg_dropped := True\<rparr>) MClose w1
    else (s1, w1)"
  have "stream_handle_callback E ptr len event s w = Some (fst ?r, snd ?r)"
    using assms 1 by (simp add: stream_handle_callback_def Let_def)
  moreover have "world.more (snd ?r) = world.more w"
    using more by (simp add: frame_simps close_send_data_frame)
  ultimately show ?thesis by (rule that)
qed

lemma callback_unknown_id:
  assumes "sid \<notin> stream_keys c" "sid \<noteq> 0" "event \<noteq> callback_almost_ready"
    and "event \<noteq> callback_prepare_to_send" "peer_known E (cc_cnx c)"
    and "cv_open (cview (con_msgs w (cc_send_msg c)))"
  obtains c' w' st where "con_handle_callback E sid ptr len event c w = Some (c', w')"
    "stream_keys c' = insert sid (stream_keys c)" "st_id st = sid"
    "cv_buffer (cview (con_msgs w' (cc_send_msg c))) =
      cv_buffer (cview (con_msgs w (cc_send_msg c))) @ [CNewStream st]"
proof -
  from assms(5) obtain a where "cnx_peer_addr E (quic w) (cc_cnx c) = Some a"
    by (auto simp: peer_known_def)
  then obtain st s w1 where n: "stream_new E sid (cc_cnx c) (cc_local_addr c) (cc_is_client c)
      (cc_stream_send_channel_default_size c) w = Some (st, s, w1)"
    "world.more w1 = world.more w" "st_id st = sid"
    using stream_new_total by metis
  obtain s2 w2 where cb: "stream_handle_callback E ptr len event s w1 = Some (s2, w2)"
    "world.more w2 = world.more w1"
    by (rule stream_callback_frame [OF assms(4)])
  have none: "map_of (cc_streams c) sid = None" and new: "sid \<notin> fst ` set (cc_streams c)"
    using assms(1) by (simp_all add: map_of_eq_None_iff stream_keys_def)
  have same: "con_msgs w2 = con_msgs w" using more_eqD(1) [OF cb(2)] more_eqD(1) [OF n(2)] by simp
  have "con_handle_callback E sid ptr len event c w =
      Some (c\<lparr>cc_streams := hash_insert E sid s2 (cc_streams c)\<rparr>,
            con_send E (cc_send_msg c) (CNewStream st) w2)"
    using assms(2,3) n(1) cb(1) none by (simp add: con_handle_callback_def handle_stream_callback_def)
  moreover have "stream_keys (c\<lparr>cc_streams := hash_insert E sid s2 (cc_streams c)\<rparr>) = insert sid (stream_keys c)"
    using hash_insert_keys(1) [OF new, of s2] by (simp add: stream_keys_def)
  ultimately show ?thesis
    using n(3) con_send_open [of w2 "cc_send_msg c" "CNewStream st"] assms(6) same
    by (intro that [of "c\<lparr>cc_streams := hash_insert E sid s2 (cc_streams c)\<rparr>"
          "con_send E (cc_send_msg c) (CNewStream st) w2" st]) simp_all
qed

text \<open>A connection that becomes ready resolves the future that waits for it.\<close>

lemma almost_ready_resolves:
  assumes "cc_wait_for_ready_state c = Some (b, f)" "ov_rx (nview (cfuts w f))"
  obtains w' where "con_handle_callback E sid ptr len callback_almost_ready c w =
      Some (c\<lparr>cc_wait_for_ready_state := None\<rparr>, w')"
    "fst (os_poll (cfut_ops E) (cfuts w' f)) =
      Ok (Ready (Ok (builder_build b (cnx_local_id E (quic w) (cc_cnx c)))))"
proof (rule that)
  let ?con = "builder_build b (cnx_local_id E (quic w) (cc_cnx c))"
  show "con_handle_callback E sid ptr len callback_almost_ready c w =
      Some (c\<lparr>cc_wait_for_ready_state := None\<rparr>, cfut_send E f (Ok ?con) w)"
    using assms(1) by (simp add: con_handle_callback_def process_wait_for_ready_state_def Let_def)
  show "fst (os_poll (cfut_ops E) (cfuts (cfut_send E f (Ok ?con) w) f)) = Ok (Ready (Ok ?con))"
    using cfut_send_value [OF assms(2), of "Ok ?con"] by (simp add: nch.poll_fst ov_poll_def)
qed

text \<open>Closing and errors reach every stream.\<close>

lemma con_close_inboxes:
  assumes "distinct (map (\<lambda>e. sc_recv_msg (snd e)) (cc_streams c))" "con_close E c w = (c', w')"
  shows "\<forall>e\<in>set (cc_streams c). user_listens mview (snd e) w \<longrightarrow>
      cv_buffer (mview (msgs w' (sc_recv_msg (snd e)))) = inbox mview (snd e) w @ [MClose]"
    and "cv_open (cview (con_msgs w (cc_send_msg c))) \<longrightarrow>
      cv_buffer (cview (con_msgs w' (cc_send_msg c))) = cv_buffer (cview (con_msgs w (cc_send_msg c))) @ [CClose]"
    and "cc_closed c'"
proof -
  let ?w = "w\<lparr>quic := cnx_close E (cc_cnx c) (quic w)\<rparr>"
  let ?e = "each_stream (handle_connection_close E) (cc_streams c) ?w"
  have more: "world.more (snd ?e) = world.more ?w"
    by (rule each_stream_frame) (simp add: frame_simps)
  have w': "w' = con_send E (cc_send_msg c) CClose (snd ?e)" and c': "cc_closed c'"
    using assms(2) by (auto simp: con_close_def Let_def split_beta)
  have m: "msgs w' = msgs (snd ?e)"
    by (auto simp: w' con_send_def Let_def split_beta split: result.split)
       (use cch.unbounded_send_fst [of "con_msgs (snd ?e) (cc_send_msg c)" CClose] in
         \<open>auto simp: view_send_def split: if_splits\<close>)
  have "\<forall>e\<in>set (cc_streams c). user_listens mview (snd e) ?w \<longrightarrow>
      inbox mview (snd e) (snd ?e) = inbox mview (snd e) ?w @ [MClose]"
    by (rule each_stream_inbox [OF assms(1)])
       (simp_all add: handle_connection_close_def recv_message_other recv_message_own)
  then show "\<forall>e\<in>set (cc_streams c). user_listens mview (snd e) w \<longrightarrow>
      cv_buffer (mview (msgs w' (sc_recv_msg (snd e)))) = inbox mview (snd e) w @ [MClose]"
    by (simp add: m inbox_def user_listens_def)
  show "cv_open (cview (con_msgs w (cc_send_msg c))) \<longrightarrow>
      cv_buffer (cview (con_msgs w' (cc_send_msg c))) = cv_buffer (cview (con_msgs w (cc_send_msg c))) @ [CClose]"
    using con_send_open [of "snd ?e" "cc_send_msg c" CClose] more_eqD(1) [OF more] by (simp add: w')
  show "cc_closed c'" by (rule c')
qed

end

end
