(* ===== verification/Connection_Props.thy ===== *)
theory Connection_Props
  imports Connection_Ends Stream_Props
begin

text \<open>
  The properties of the connection component, and the recording environment on which their
  hypotheses are discharged.
\<close>

section \<open>A recording environment\<close>

type_synonym rec_con_env =
  "(message chan_view, bytes chan_view, quic_call list, con_message chan_view,
    create_request chan_view, unit os_view, (stream, error) result os_view,
    (connection, error) result os_view) con_env"

type_synonym rec_con_world =
  "(message chan_view, bytes chan_view, quic_call list, con_message chan_view,
    create_request chan_view, unit os_view, (stream, error) result os_view,
    (connection, error) result os_view) con_world"

text \<open>The argument is the error code that the C library reports for a connection.\<close>

definition con_record_env :: "u64 \<Rightarrow> rec_con_env" where
  "con_record_env code = stream_env.extend record_env
     (con_env.fields fifo_mpsc fifo_mpsc view_oneshot view_oneshot view_oneshot
        (\<lambda>k c ss. (k, c) # ss)
        (\<lambda>q cnx h. q @ [CallSetCallback cnx h])
        (\<lambda>q cnx err. q @ [CallClose cnx])
        (\<lambda>q cnx n. q @ [CallKeepAlive cnx n])
        (\<lambda>q cnx. (1, 16))
        (\<lambda>q cnx. [1, 2])
        (\<lambda>bs. 258)
        (\<lambda>q cnx. 1)
        (\<lambda>q cnx. 0) 10 14
        (\<lambda>q cnx. code) (\<lambda>q cnx. 0) (\<lambda>e. if 0x100 \<le> e then 1 else 0)
        (\<lambda>q qctx addr t v name alpn. (7, q @ [CallCreate addr name])))"

lemmas con_record_defs = con_record_env_def stream_env.defs con_env.defs record_env_def

interpretation crec: connection_channels "con_record_env code"
  "\<lambda>v. v" "\<lambda>v. v" "\<lambda>v. v" "\<lambda>v. v" "\<lambda>v. v" "\<lambda>v. v" "\<lambda>v. v"
proof (intro connection_channels.intro connection_channels_axioms.intro stream_channels.intro)
qed (simp_all add: con_record_defs fifo.mpsc_channel_axioms vos.oneshot_channel_axioms)

definition sample_con_world :: "create_request list \<Rightarrow> rec_con_world" where
  "sample_con_world rs =
     world.extend (sample_world (\<lambda>_. []) (\<lambda>_. []) 1)
       (con_world.fields (\<lambda>_. view_new None)
          (\<lambda>_. \<lparr>ce_chan = sample_view rs 1 True, ce_error = None\<rparr>)
          (\<lambda>_. ov_new) (\<lambda>_. ov_new) (\<lambda>_. ov_new) (\<lambda>_. None))"

definition sample_con_ctx :: "(u64 \<times> stream_ctx) list \<Rightarrow> con_ctx" where
  "sample_con_ctx ss =
     \<lparr>cc_send_msg = 0, cc_close_recv = 1, cc_recv_create_stream = 2, cc_streams = ss, cc_cnx = 7,
      cc_closed = False, cc_is_client = True, cc_next_stream_id = 3, cc_wait_for_ready_state = None,
      cc_local_addr = SocketAddrV4 1 2, cc_stream_send_channel_default_size = 5\<rparr>"

lemmas con_sample_defs = sample_con_world_def world.defs con_world.defs sample_con_ctx_def sample_defs

section \<open>New streams\<close>

text \<open>C16.  Serving the stream requests ends without a panic.  Every waiting request gets a
  stream of its own, in order, under the id generated for it; the future of each request holds
  this stream; the streams that were there stay; the queue is empty afterwards.\<close>

theorem stream_requests_served:
  assumes "connection_channels E mview dview cview rview uview sview nview" "con_inv c"
    and "request_queue rview c w = rs" "distinct (map snd rs)"
    and "cnx_peer_addr E (quic w) (cc_cnx c) = Some a"
    and "unat (cc_next_stream_id c) + length rs < 2 ^ 62"
  shows "\<exists>ss w'. check_create_stream_requests E c w = Some (c\<lparr>cc_streams := ss,
        cc_next_stream_id := cc_next_stream_id c + of_nat (length rs)\<rparr>, w') \<and>
      distinct (map fst ss) \<and> set (cc_streams c) \<subseteq> set ss \<and>
      fst ` set ss = stream_keys c \<union> set (request_ids (cc_next_stream_id c) (cc_is_client c) rs) \<and>
      request_queue rview c w' = [] \<and>
      (\<forall>(rq, sid) \<in> set (zip rs (request_ids (cc_next_stream_id c) (cc_is_client c) rs)).
         ov_rx (sview (sfuts w (snd rq))) \<longrightarrow>
         (\<exists>st. st_id st = sid \<and> ov_value (sview (sfuts w' (snd rq))) = Some (Ok st)))"
proof -
  have "distinct (map fst (cc_streams c))" using assms(2) by (simp add: con_inv_def)
  from connection_channels.check_create_stream_requests_total [OF assms(1,3,5) this
      request_ids_range(2) [OF assms(6)] request_ids_new [OF assms(2,6)] assms(4)]
  show ?thesis by blast
qed

lemma sample_con_inv: "con_inv (sample_con_ctx [(5, sample_ctx None None), (8, sample_ctx None None)])"
  by (simp add: con_inv_def stream_keys_def sample_con_ctx_def is_client_initiated_def)

lemma sample_peer: "cnx_peer_addr (con_record_env code) q cnx = Some (SocketAddrV4 1 2)"
  by (simp add: cnx_peer_addr_def socket_addr_from_sockaddr_def con_record_defs)

theorem stream_requests_served_witness:
  "\<exists>ss w'. check_create_stream_requests (con_record_env 0)
        (sample_con_ctx [(5, sample_ctx None None), (8, sample_ctx None None)])
        (sample_con_world [(Bidirectional, 20), (Unidirectional, 21)]) =
      Some ((sample_con_ctx [(5, sample_ctx None None), (8, sample_ctx None None)])\<lparr>cc_streams := ss,
        cc_next_stream_id := 5\<rparr>, w') \<and>
      distinct (map fst ss) \<and> {(5, sample_ctx None None), (8, sample_ctx None None)} \<subseteq> set ss \<and>
      fst ` set ss = {5, 8, 16, 22} \<and>
      (\<exists>st. st_id st = 16 \<and> ov_value (sfuts w' 20) = Some (Ok st)) \<and>
      (\<exists>st. st_id st = 22 \<and> ov_value (sfuts w' 21) = Some (Ok st))"
proof -
  let ?c = "sample_con_ctx [(5, sample_ctx None None), (8, sample_ctx None None)]"
  let ?rs = "[(Bidirectional, 20), (Unidirectional, 21)] :: create_request list"
  have ids: "generate_stream_id 3 True Bidirectional = 16" "generate_stream_id 4 True Unidirectional = 22"
    by (simp_all add: generate_eq_add)
  have q: "request_queue (\<lambda>v. v) ?c (sample_con_world ?rs) = ?rs"
    by (simp add: request_queue_def con_sample_defs)
  have "unat (cc_next_stream_id ?c) + length ?rs < 2 ^ 62"
    by (simp add: sample_con_ctx_def)
  moreover have "distinct (map snd ?rs)" by simp
  ultimately have "unat (cc_next_stream_id ?c) + length ?rs < 2 ^ 62" "distinct (map snd ?rs)" .
  from stream_requests_served [OF crec.connection_channels_axioms sample_con_inv q this(2) sample_peer this(1)]
  obtain ss w' where r: "check_create_stream_requests (con_record_env 0) ?c (sample_con_world ?rs) =
      Some (?c\<lparr>cc_streams := ss, cc_next_stream_id := cc_next_stream_id ?c + of_nat (length ?rs)\<rparr>, w')"
    "distinct (map fst ss)" "set (cc_streams ?c) \<subseteq> set ss"
    "fst ` set ss = stream_keys ?c \<union> set (request_ids (cc_next_stream_id ?c) (cc_is_client ?c) ?rs)"
    "\<forall>(rq, sid) \<in> set (zip ?rs (request_ids (cc_next_stream_id ?c) (cc_is_client ?c) ?rs)).
       ov_rx (sfuts (sample_con_world ?rs) (snd rq)) \<longrightarrow>
       (\<exists>st. st_id st = sid \<and> ov_value (sfuts w' (snd rq)) = Some (Ok st))"
    by blast
  have c: "cc_next_stream_id ?c = 3" "cc_is_client ?c" "cc_streams ?c = [(5, sample_ctx None None), (8, sample_ctx None None)]"
    by (simp_all add: sample_con_ctx_def)
  have "fst ` set ss = {5, 8, 16, 22}"
    using r(4) by (auto simp: stream_keys_def c ids)
  moreover have "ov_rx (sfuts (sample_con_world ?rs) h)" for h
    by (simp add: con_sample_defs ov_new_def)
  ultimately show ?thesis
    using r(1,2,3,5) by (intro exI [of _ ss] exI [of _ w']) (simp add: c ids)
qed

text \<open>Polling the context of an open connection returns and keeps the stream map sound (no
  id twice, own ids below the counter), so that the assertion on a fresh id can never fail, if
  its streams can be polled and the counter is below \<open>2\<^sup>6\<^sup>2\<close>.\<close>

theorem con_ctx_poll_keeps_ids:
  assumes "connection_channels E mview dview cview rview uview sview nview" "con_inv c"
    and "\<not> cc_closed c" "peer_known E (cc_cnx c)"
    and "retain_streams E (cc_streams c) w = Some (ss, w1)"
    and "request_queue rview c w = rs" "distinct (map snd rs)"
    and "unat (cc_next_stream_id c) + length rs < 2 ^ 62"
  shows "\<exists>c' w'. con_ctx_poll E c w = Some (Ok NotReady, c', w') \<and> con_inv c'"
  by (rule connection_channels.con_ctx_poll_inv [OF assms]) blast

theorem con_ctx_poll_keeps_ids_witness:
  "\<exists>c' w'. con_ctx_poll (con_record_env 0) (sample_con_ctx []) (sample_con_world [(Bidirectional, 20)]) =
     Some (Ok NotReady, c', w') \<and> con_inv c'"
  by (rule con_ctx_poll_keeps_ids [OF crec.connection_channels_axioms,
        where ss = "[]" and ?w1.0 = "sample_con_world [(Bidirectional, 20)]" and rs = "[(Bidirectional, 20)]"])
     (simp_all add: con_inv_def stream_keys_def sample_con_ctx_def peer_known_def sample_peer
       request_queue_def sample_con_world_def world.defs con_world.defs sample_defs)

text \<open>A callback of picoquic keeps the stream map sound, if it names a stream of the peer or
  one of ours that was created before.\<close>

theorem callback_keeps_ids:
  assumes "connection_channels E mview dview cview rview uview sview nview" "con_inv c"
    and "reported_id c sid" "con_handle_callback E sid ptr len event c w = Some (c', w')"
  shows "con_inv c'"
  by (rule connection_channels.con_inv_callback [OF assms])

theorem callback_keeps_ids_witness:
  "\<exists>c' w'. con_handle_callback (con_record_env 0) 9 100 3 callback_stream_data (sample_con_ctx [])
       (sample_con_world []) = Some (c', w') \<and> con_inv c' \<and> stream_keys c' = {9}"
proof -
  let ?r = "con_handle_callback (con_record_env 0) 9 100 3 callback_stream_data (sample_con_ctx [])
       (sample_con_world [])"
  have keys: "map_option (\<lambda>r. map fst (cc_streams (fst r))) ?r = Some [9]" by code_simp
  then obtain c' w' where r: "?r = Some (c', w')" by (cases ?r) auto
  have "con_inv c'"
    by (rule callback_keeps_ids [OF crec.connection_channels_axioms _ _ r])
       (simp_all add: con_inv_def stream_keys_def sample_con_ctx_def reported_id_def is_client_initiated_def)
  moreover have "stream_keys c' = {9}"
    using keys r by (auto simp: stream_keys_def simp flip: list.set_map)
  ultimately show ?thesis using r by blast
qed

text \<open>C40.  A callback for an id that is not in the map makes a new stream and announces it to
  the user, whoever the id belongs to: also when it is the late event of a stream of ours that
  has been removed.\<close>

theorem callback_unknown_id_new_stream:
  assumes "connection_channels E mview dview cview rview uview sview nview"
    and "sid \<notin> stream_keys c" "sid \<noteq> 0" "event \<noteq> callback_almost_ready"
    and "event \<noteq> callback_prepare_to_send" "peer_known E (cc_cnx c)"
    and "cv_open (cview (con_msgs w (cc_send_msg c)))"
  shows "\<exists>c' w' st. con_handle_callback E sid ptr len event c w = Some (c', w') \<and>
    stream_keys c' = insert sid (stream_keys c) \<and> st_id st = sid \<and>
    cv_buffer (cview (con_msgs w' (cc_send_msg c))) =
      cv_buffer (cview (con_msgs w (cc_send_msg c))) @ [CNewStream st]"
  by (rule connection_channels.callback_unknown_id [OF assms]) blast

lemma sample_con_open: "cv_open (con_msgs (sample_con_world rs) h)"
  by (simp add: sample_con_world_def world.defs con_world.defs view_new_def)

theorem callback_unknown_id_new_stream_witness:
  "\<exists>c' w' st. con_handle_callback (con_record_env 0) 8 100 3 callback_stream_fin (sample_con_ctx [])
       (sample_con_world []) = Some (c', w') \<and>
    stream_keys c' = insert 8 (stream_keys (sample_con_ctx [])) \<and> st_id st = 8 \<and>
    cv_buffer (con_msgs w' (cc_send_msg (sample_con_ctx []))) =
      cv_buffer (con_msgs (sample_con_world []) (cc_send_msg (sample_con_ctx []))) @ [CNewStream st]"
  by (rule callback_unknown_id_new_stream [OF crec.connection_channels_axioms])
     (simp_all add: stream_keys_def sample_con_ctx_def peer_known_def sample_peer sample_con_open)

section \<open>Readiness, errors and the end\<close>

text \<open>C22.  When the handshake is done, the future of the connect call resolves to a connection
  with the addresses, the channels and the type it was built with and the local id of the moment;
  a second readiness event changes nothing.\<close>

theorem almost_ready_resolves_once:
  assumes "connection_channels E mview dview cview rview uview sview nview"
    and "cc_wait_for_ready_state c = Some (b, f)" "ov_rx (nview (cfuts w f))"
  shows "\<exists>c' w'. con_handle_callback E sid ptr len callback_almost_ready c w = Some (c', w') \<and>
    fst (os_poll (cfut_ops E) (cfuts w' f)) =
      Ok (Ready (Ok (builder_build b (cnx_local_id E (quic w) (cc_cnx c))))) \<and>
    con_handle_callback E sid ptr len callback_almost_ready c' w' = Some (c', w')"
proof -
  obtain w' where "con_handle_callback E sid ptr len callback_almost_ready c w =
      Some (c\<lparr>cc_wait_for_ready_state := None\<rparr>, w')"
    "fst (os_poll (cfut_ops E) (cfuts w' f)) =
      Ok (Ready (Ok (builder_build b (cnx_local_id E (quic w) (cc_cnx c)))))"
    by (rule connection_channels.almost_ready_resolves [OF assms])
  then show ?thesis
    by (intro exI conjI) (assumption | simp add: con_handle_callback_def)+
qed

definition sample_builder :: con_builder where
  "sample_builder =
     \<lparr>cb_msg_recv = 0, cb_close_send = 1, cb_peer_addr = SocketAddrV4 1 2,
      cb_local_addr = SocketAddrV4 3 4, cb_new_stream_handle = 2, cb_ctype = Outgoing\<rparr>"

theorem almost_ready_resolves_once_witness:
  "\<exists>c' w'. con_handle_callback (con_record_env 0) 0 100 3 callback_almost_ready
      ((sample_con_ctx [])\<lparr>cc_wait_for_ready_state := Some (sample_builder, 30)\<rparr>) (sample_con_world []) =
        Some (c', w') \<and>
    fst (os_poll (cfut_ops (con_record_env 0)) (cfuts w' 30)) =
      Ok (Ready (Ok (builder_build sample_builder (cnx_local_id (con_record_env 0)
        (quic (sample_con_world []))
        (cc_cnx ((sample_con_ctx [])\<lparr>cc_wait_for_ready_state := Some (sample_builder, 30)\<rparr>)))))) \<and>
    con_handle_callback (con_record_env 0) 0 100 3 callback_almost_ready c' w' = Some (c', w')"
  by (rule almost_ready_resolves_once [OF crec.connection_channels_axioms])
     (simp_all add: sample_con_world_def world.defs con_world.defs ov_new_def)

text \<open>C17.  An error of the connection reaches everyone who waits: every stream request in the
  queue is answered with it; a connect call in progress resolves to it, and otherwise it is
  the last message for the user; the request channel is closed with the error in its cell.\<close>

theorem connection_error_reaches_all:
  assumes "connection_channels E mview dview cview rview uview sview nview"
    and "cnx_error E (quic w) (cc_cnx c) = Some err"
    and "distinct (map snd (request_queue rview c w))"
  shows "\<exists>c' w'. check_and_handle_error E c w = Some (c', w') \<and>
    (\<forall>rq\<in>set (request_queue rview c w). ov_rx (sview (sfuts w (snd rq))) \<longrightarrow>
       ov_value (sview (sfuts w' (snd rq))) = Some (Err (err ()))) \<and>
    (\<forall>b f. cc_wait_for_ready_state c = Some (b, f) \<and> ov_rx (nview (cfuts w f)) \<longrightarrow>
       ov_value (nview (cfuts w' f)) = Some (Err (err ()))) \<and>
    (cc_wait_for_ready_state c = None \<and> cv_open (cview (con_msgs w (cc_send_msg c))) \<longrightarrow>
       cv_buffer (cview (con_msgs w' (cc_send_msg c))) =
         cv_buffer (cview (con_msgs w (cc_send_msg c))) @ [CError (err ())]) \<and>
    \<not> cv_open (rview (ce_chan (reqs w' (cc_recv_create_stream c)))) \<and>
    ce_error (reqs w' (cc_recv_create_stream c)) = Some err"
  by (rule connection_channels.check_and_handle_error_total [OF assms]) blast

theorem connection_error_reaches_all_witness:
  "\<exists>c' w'. check_and_handle_error (con_record_env 0x128) (sample_con_ctx [])
      (sample_con_world [(Bidirectional, 20)]) = Some (c', w') \<and>
    ov_value (sfuts w' 20) = Some (Err (MkError TLSHandshakeError)) \<and>
    cv_buffer (con_msgs w' 0) = [CError (MkError TLSHandshakeError)] \<and>
    \<not> cv_open (ce_chan (reqs w' 2))"
proof -
  let ?w = "sample_con_world [(Bidirectional, 20)]"
  let ?err = "\<lambda>_ :: unit. MkError TLSHandshakeError"
  have e: "cnx_error (con_record_env 0x128) (quic ?w) (cc_cnx (sample_con_ctx [])) = Some ?err"
    by (simp add: cnx_error_def con_record_defs Let_def error_from_kind_def)
  have q: "request_queue (\<lambda>v. v) (sample_con_ctx []) ?w = [(Bidirectional, 20)]"
    by (simp add: request_queue_def con_sample_defs)
  have rx: "ov_rx (sfuts ?w h)" "cv_buffer (con_msgs ?w h) = []" for h
    by (simp_all add: sample_con_world_def world.defs con_world.defs ov_new_def view_new_def)
  have c: "cc_wait_for_ready_state (sample_con_ctx []) = None" "cc_send_msg (sample_con_ctx []) = 0"
    "cc_recv_create_stream (sample_con_ctx []) = 2" by (simp_all add: sample_con_ctx_def)
  have "distinct (map snd (request_queue (\<lambda>v. v) (sample_con_ctx []) ?w))" by (simp add: q)
  from connection_error_reaches_all [OF crec.connection_channels_axioms e this]
  show ?thesis by (simp add: q rx c sample_con_open) blast
qed

text \<open>C33.  A stream that is requested after the error resolves to this error at once.\<close>

theorem later_request_gets_error:
  assumes "connection_channels E mview dview cview rview uview sview nview"
    and "\<not> cv_open (rview (ce_chan (reqs w rq)))" "ce_error (reqs w rq) = Some err"
  shows "case new_stream_handle E rq stype w of (f, w') \<Rightarrow>
    fst (new_stream_future_poll E f w') = Err (err ())"
  using connection_channels.new_stream_after_error [OF assms]
  by (cases "new_stream_handle E rq stype w") simp

definition sample_failed_world :: rec_con_world where
  "sample_failed_world = (sample_con_world [])\<lparr>reqs := (\<lambda>_.
     \<lparr>ce_chan = sample_view [] 1 False, ce_error = Some (\<lambda>_. MkError Unknown)\<rparr>)\<rparr>"

theorem later_request_gets_error_witness:
  "case new_stream_handle (con_record_env 0) 2 Bidirectional sample_failed_world of (f, w') \<Rightarrow>
     fst (new_stream_future_poll (con_record_env 0) f w') = Err (MkError Unknown)"
  by (rule later_request_gets_error [OF crec.connection_channels_axioms])
     (simp_all add: sample_failed_world_def sample_view_def)

text \<open>The error that is reported: a code of this side before one of the peer, no error for
  code zero, and a handshake error exactly when picoquic classifies the code as one.\<close>

theorem cnx_error_classified:
  "cnx_error E q cnx =
     (if picoquic_get_local_error E q cnx = 0 \<and> picoquic_get_remote_error E q cnx = 0 then None
      else Some (\<lambda>_. MkError
        (if picoquic_is_handshake_error E (ucast
              (if picoquic_get_local_error E q cnx \<noteq> 0 then picoquic_get_local_error E q cnx
               else picoquic_get_remote_error E q cnx)) = 1
         then TLSHandshakeError else Unknown)))"
  by (auto simp: cnx_error_def Let_def error_from_kind_def)

text \<open>C21.  Closing tells everyone once: every stream whose user listens finds the end of the
  stream behind its data, the user of the connection finds its end, and the context is polled no
  more.\<close>

theorem con_close_tells_all:
  assumes "connection_channels E mview dview cview rview uview sview nview"
    and "distinct (map (\<lambda>e. sc_recv_msg (snd e)) (cc_streams c))"
  shows "\<exists>c' w'. con_close E c w = (c', w') \<and>
    (\<forall>e\<in>set (cc_streams c). user_listens mview (snd e) w \<longrightarrow>
      cv_buffer (mview (msgs w' (sc_recv_msg (snd e)))) = inbox mview (snd e) w @ [MClose]) \<and>
    (cv_open (cview (con_msgs w (cc_send_msg c))) \<longrightarrow>
      cv_buffer (cview (con_msgs w' (cc_send_msg c))) =
        cv_buffer (cview (con_msgs w (cc_send_msg c))) @ [CClose]) \<and>
    con_ctx_poll E c' w' = Some (Ok (Ready ()), c', w')"
proof -
  obtain c' w' where r: "con_close E c w = (c', w')" by fastforce
  from connection_channels.con_close_inboxes [OF assms r] r show ?thesis
    by (intro exI [of _ c'] exI [of _ w']) (simp add: con_ctx_poll_def)
qed

theorem con_close_tells_all_witness:
  "\<exists>c' w'. con_close (con_record_env 0) (sample_con_ctx [(5, sample_ctx None None)]) (sample_con_world []) = (c', w') \<and>
    (\<forall>e\<in>set (cc_streams (sample_con_ctx [(5, sample_ctx None None)])).
      user_listens (\<lambda>v. v) (snd e) (sample_con_world []) \<longrightarrow>
      cv_buffer (msgs w' (sc_recv_msg (snd e))) = inbox (\<lambda>v. v) (snd e) (sample_con_world []) @ [MClose]) \<and>
    (cv_open (con_msgs (sample_con_world []) (cc_send_msg (sample_con_ctx [(5, sample_ctx None None)]))) \<longrightarrow>
      cv_buffer (con_msgs w' (cc_send_msg (sample_con_ctx [(5, sample_ctx None None)]))) =
        cv_buffer (con_msgs (sample_con_world []) (cc_send_msg (sample_con_ctx [(5, sample_ctx None None)]))) @ [CClose]) \<and>
    con_ctx_poll (con_record_env 0) c' w' = Some (Ok (Ready ()), c', w')"
  by (rule con_close_tells_all [OF crec.connection_channels_axioms]) (simp add: sample_con_ctx_def)

end
