(* ===== verification/Context_Inner.thy ===== *)
theory Context_Inner
  imports Connections Quic_Ctx
begin

text \<open>
  \<^verbatim>\<open>src/context_inner.rs\<close>, \<^verbatim>\<open>src/context.rs\<close> and
  \<^verbatim>\<open>src/ffi/stateless_packet.rs\<close>: the event loop that moves packets between the UDP
  socket and picoquic, polls every connection context, opens connections and sleeps until
  picoquic wants to run again; and the user's \<^verbatim>\<open>Context\<close>.

  Four functions of the C library call back into Rust while they run.  Such a run is a value
  of \<open>c_run\<close>: it either returns, or it stops at a callback with the C state of that
  moment and continues with the state that the callback leaves.

  The socket and the timer of tokio, and the parts of \<^verbatim>\<open>libc\<close>, are parameters.
\<close>

section \<open>Runs of C code with callbacks\<close>

datatype callback_target = ToConnection nat | ToNewConnection ptr

record c_callback =
  cbk_target :: callback_target
  cbk_stream_id :: u64
  cbk_bytes :: ptr
  cbk_length :: nat
  cbk_event :: callback_event

datatype ('q, 'a) c_run =
    CReturn 'a 'q
  | CCallback c_callback 'q "'q \<Rightarrow> ('q, 'a) c_run"

section \<open>The environment and the world\<close>

type_synonym connect_request = "socket_addr \<times> bytes \<times> nat"

record ('m, 'd, 'q, 'c, 'r, 'u, 's, 'n, 'h, 'x, 'y, 'i, 'k, 't, 'b, 'p) inner_env =
  "('m, 'd, 'q, 'c, 'r, 'u, 's, 'n) con_env" +
  quic_fns :: "('q, 'h, 'x, 'y, 'i) quic_env"
  newcon_ops :: "('b, connection) mpsc"
  connect_ops :: "('p, connect_request) mpsc"
  picoquic_incoming_packet ::
    "'q \<Rightarrow> ptr \<Rightarrow> bytes \<Rightarrow> socket_addr \<Rightarrow> socket_addr \<Rightarrow> u64 \<Rightarrow> ('q, int \<times> bytes) c_run"
  picoquic_prepare_packet ::
    "'q \<Rightarrow> ptr \<Rightarrow> u64 \<Rightarrow> bytes \<Rightarrow> ('q, int \<times> bytes \<times> nat \<times> ptr \<times> int) c_run"
  picoquic_delete_cnx :: "'q \<Rightarrow> ptr \<Rightarrow> ('q, unit) c_run"
  picoquic_free_run :: "'q \<Rightarrow> ptr \<Rightarrow> ('q, unit) c_run"  \<comment> \<open>\<^verbatim>\<open>picoquic_free\<close> of a context that may have connections\<close>
  picoquic_get_earliest_cnx_to_wake :: "'q \<Rightarrow> ptr \<Rightarrow> u64 \<Rightarrow> ptr"
  picoquic_dequeue_stateless_packet :: "'q \<Rightarrow> ptr \<Rightarrow> ptr \<times> 'q"
  picoquic_delete_stateless_packet :: "'q \<Rightarrow> ptr \<Rightarrow> 'q"
  stateless_family :: "'q \<Rightarrow> ptr \<Rightarrow> int"
  stateless_addr_to :: "'q \<Rightarrow> ptr \<Rightarrow> ptr"
  stateless_bytes :: "'q \<Rightarrow> ptr \<Rightarrow> ptr"
  stateless_length :: "'q \<Rightarrow> ptr \<Rightarrow> nat"
  libc_AF_INET :: int
  sizeof_sockaddr_in :: int
  sizeof_sockaddr_in6 :: int
  PICOQUIC_ERROR_DISCONNECTED :: int
  PICOQUIC_MAX_PACKET_SIZE :: nat
  udp_bind :: "socket_addr \<Rightarrow> ('k, string) result"
  udp_local_addr :: "'k \<Rightarrow> socket_addr option"
  udp_poll_send_to :: "'k \<Rightarrow> bytes \<Rightarrow> socket_addr \<Rightarrow> (nat, string) poll \<times> 'k"
  udp_poll_recv_from :: "'k \<Rightarrow> nat \<Rightarrow> (bytes \<times> socket_addr, string) poll \<times> 'k"
  delay_new :: "'i \<Rightarrow> 't"
  delay_reset :: "'t \<Rightarrow> 'i \<Rightarrow> 't"
  delay_poll :: "'t \<Rightarrow> (unit, string) poll \<times> 't"

text \<open>The callback context is shared with picoquic, so it lives in the world; so does the
  mark that the task asked to be woken again.\<close>

record c_context =
  connections :: "nat list"
  send_con :: nat
  server_keep_alive_interval :: "duration option"
  cctx_stream_send_channel_default_size :: nat

record ('m, 'd, 'q, 'c, 'r, 'u, 's, 'n, 'b, 'p) inner_world =
  "('m, 'd, 'q, 'c, 'r, 'u, 's, 'n) con_world" +
  cctx :: c_context
  newcons :: "nat \<Rightarrow> 'b"
  connects :: "nat \<Rightarrow> 'p"
  notified :: nat

record ('k, 't) context_inner =
  socket :: 'k
  ci_quic :: quic_ctx
  buffer :: bytes
  not_send_length :: "(nat \<times> socket_addr) option"
  timer :: 't
  recv_connect :: nat
  client_keep_alive_interval :: "duration option"
  close_handle :: "nat option"
  ci_stream_send_channel_default_size :: nat

type_synonym ('m, 'd, 'q, 'c, 'r, 'u, 's, 'n, 'h, 'x, 'y, 'i, 'k, 't, 'b, 'p, 'e) ienv =
  "('m, 'd, 'q, 'c, 'r, 'u, 's, 'n, 'h, 'x, 'y, 'i, 'k, 't, 'b, 'p, 'e) inner_env_scheme"
type_synonym ('m, 'd, 'q, 'c, 'r, 'u, 's, 'n, 'b, 'p, 'w) iworld =
  "('m, 'd, 'q, 'c, 'r, 'u, 's, 'n, 'b, 'p, 'w) inner_world_scheme"

section \<open>Callbacks\<close>

definition new_connection ::
  "('m, 'd, 'q, 'c, 'r, 'u, 's, 'n, 'h, 'x, 'y, 'i, 'k, 't, 'b, 'p, 'e) ienv \<Rightarrow> connection \<Rightarrow> nat \<Rightarrow> ('m, 'd, 'q, 'c, 'r, 'u, 's, 'n, 'b, 'p, 'w) iworld \<Rightarrow> ('m, 'd, 'q, 'c, 'r, 'u, 's, 'n, 'b, 'p, 'w) iworld" where
  "new_connection E con ctx w =
     (let w = w\<lparr>cctx := (cctx w)\<lparr>connections := connections (cctx w) @ [ctx]\<rparr>\<rparr>;
          h = send_con (cctx w)
      in case mpsc_unbounded_send (newcon_ops E) (newcons w h) con of (r, ch) \<Rightarrow>
           let w = w\<lparr>newcons := (newcons w)(h := ch)\<rparr> in
           case r of Ok _ \<Rightarrow> w | Err con \<Rightarrow> connection_drop E con w)"

definition new_connection_callback ::
  "('m, 'd, 'q, 'c, 'r, 'u, 's, 'n, 'h, 'x, 'y, 'i, 'k, 't, 'b, 'p, 'e) ienv \<Rightarrow> ptr \<Rightarrow> u64 \<Rightarrow> ptr \<Rightarrow> nat \<Rightarrow> callback_event \<Rightarrow> ('m, 'd, 'q, 'c, 'r, 'u, 's, 'n, 'b, 'p, 'w) iworld \<Rightarrow> ('m, 'd, 'q, 'c, 'r, 'u, 's, 'n, 'b, 'p, 'w) iworld option" where
  "new_connection_callback E cnx sid bytes len event w =
     (if cnx_is_going_to_close E (quic w) cnx then Some w
      else do {
        (con, con_ctx, w) \<leftarrow> from_incoming E cnx sid bytes len event
          (server_keep_alive_interval (cctx w)) (cctx_stream_send_channel_default_size (cctx w)) w;
        Some (new_connection E con con_ctx w)
      })"

definition dispatch :: "('m, 'd, 'q, 'c, 'r, 'u, 's, 'n, 'h, 'x, 'y, 'i, 'k, 't, 'b, 'p, 'e) ienv \<Rightarrow> c_callback \<Rightarrow> ('m, 'd, 'q, 'c, 'r, 'u, 's, 'n, 'b, 'p, 'w) iworld \<Rightarrow> ('m, 'd, 'q, 'c, 'r, 'u, 's, 'n, 'b, 'p, 'w) iworld option" where
  "dispatch E cb w =
     (case cbk_target cb of
        ToConnection h \<Rightarrow>
          connection_callback E (cbk_stream_id cb) (cbk_bytes cb) (cbk_length cb) (cbk_event cb) h w
      | ToNewConnection cnx \<Rightarrow>
          new_connection_callback E cnx (cbk_stream_id cb) (cbk_bytes cb) (cbk_length cb) (cbk_event cb) w)"

primrec run_c :: "('m, 'd, 'q, 'c, 'r, 'u, 's, 'n, 'h, 'x, 'y, 'i, 'k, 't, 'b, 'p, 'e) ienv \<Rightarrow> ('q, 'a) c_run \<Rightarrow> ('m, 'd, 'q, 'c, 'r, 'u, 's, 'n, 'b, 'p, 'w) iworld \<Rightarrow> ('a \<times> ('m, 'd, 'q, 'c, 'r, 'u, 's, 'n, 'b, 'p, 'w) iworld) option" where
  "run_c E (CReturn a q) w = Some (a, w\<lparr>quic := q\<rparr>)"
| "run_c E (CCallback cb q cont) w =
     (case dispatch E cb (w\<lparr>quic := q\<rparr>) of
        None \<Rightarrow> None
      | Some w \<Rightarrow> run_c E (cont (quic w)) w)"

section \<open>The callback context\<close>

primrec retain_connections :: "('m, 'd, 'q, 'c, 'r, 'u, 's, 'n, 'h, 'x, 'y, 'i, 'k, 't, 'b, 'p, 'e) ienv \<Rightarrow> nat list \<Rightarrow> ('m, 'd, 'q, 'c, 'r, 'u, 's, 'n, 'b, 'p, 'w) iworld \<Rightarrow> (nat list \<times> ('m, 'd, 'q, 'c, 'r, 'u, 's, 'n, 'b, 'p, 'w) iworld) option" where
  "retain_connections E [] w = Some ([], w)"
| "retain_connections E (h # hs) w =
     do {
       (c, _) \<leftarrow> ctxs w h;
       (r, c, w) \<leftarrow> con_ctx_poll E c w;
       let w = arc_update h c w;
       let keep = (case r of Ok a \<Rightarrow> is_not_ready a | Err _ \<Rightarrow> False);
       (hs, w) \<leftarrow> retain_connections E hs (if keep then w else arc_drop E h w);
       Some (if keep then h # hs else hs, w)
     }"

definition c_context_poll :: "('m, 'd, 'q, 'c, 'r, 'u, 's, 'n, 'h, 'x, 'y, 'i, 'k, 't, 'b, 'p, 'e) ienv \<Rightarrow> ('m, 'd, 'q, 'c, 'r, 'u, 's, 'n, 'b, 'p, 'w) iworld \<Rightarrow> ((unit, unit) poll \<times> ('m, 'd, 'q, 'c, 'r, 'u, 's, 'n, 'b, 'p, 'w) iworld) option" where
  "c_context_poll E w =
     do {
       (hs, w) \<leftarrow> retain_connections E (connections (cctx w)) w;
       Some (Ok NotReady, w\<lparr>cctx := (cctx w)\<lparr>connections := hs\<rparr>\<rparr>)
     }"

section \<open>Packets\<close>

definition prepare_packet ::
  "('m, 'd, 'q, 'c, 'r, 'u, 's, 'n, 'h, 'x, 'y, 'i, 'k, 't, 'b, 'p, 'e) ienv \<Rightarrow> ptr \<Rightarrow> bytes \<Rightarrow> u64 \<Rightarrow> ('m, 'd, 'q, 'c, 'r, 'u, 's, 'n, 'b, 'p, 'w) iworld \<Rightarrow>
   (((nat \<times> socket_addr) option, error) result \<times> bytes \<times> ('m, 'd, 'q, 'c, 'r, 'u, 's, 'n, 'b, 'p, 'w) iworld) option" where
  "prepare_packet E cnx buf current_time w =
     do {
       ((ret, buf, send_len, addr), w) \<leftarrow>
         run_c E (picoquic_prepare_packet E (quic w) cnx current_time buf) w;
       (if ret = PICOQUIC_ERROR_DISCONNECTED E then
          Some (Err (error_from_kind Disconnected), buf, w)
        else if ret = 0 then
          (if send_len > 0 then do {
             a \<leftarrow> socket_addr_from_sockaddr E (quic w) addr;
             Some (Ok (Some (send_len, a)), buf, w)
           } else Some (Ok None, buf, w))
        else Some (Err (error_from_kind Unknown), buf, w))
     }"

text \<open>\<^verbatim>\<open>Connection::delete\<close>, the iterator over the connections that want to run,
  and handing a datagram to picoquic, which works on the bytes in place; a failure is only
  logged.\<close>

definition cnx_delete ::
  "('m, 'd, 'q, 'c, 'r, 'u, 's, 'n, 'h, 'x, 'y, 'i, 'k, 't, 'b, 'p, 'e) ienv \<Rightarrow> ptr \<Rightarrow> ('m, 'd, 'q, 'c, 'r, 'u, 's, 'n, 'b, 'p, 'w) iworld \<Rightarrow> (unit \<times> ('m, 'd, 'q, 'c, 'r, 'u, 's, 'n, 'b, 'p, 'w) iworld) option" where
  "cnx_delete E cnx w = run_c E (picoquic_delete_cnx E (quic w) cnx) w"

definition connection_iter_next ::
  "('m, 'd, 'q, 'c, 'r, 'u, 's, 'n, 'h, 'x, 'y, 'i, 'k, 't, 'b, 'p, 'e) ienv \<Rightarrow> ptr \<Rightarrow> u64 \<Rightarrow> 'q \<Rightarrow> ptr option" where
  "connection_iter_next E qctx current_time q =
     (let cnx = picoquic_get_earliest_cnx_to_wake E q qctx current_time
      in if cnx = 0 then None else Some cnx)"

definition incoming_data ::
  "('m, 'd, 'q, 'c, 'r, 'u, 's, 'n, 'h, 'x, 'y, 'i, 'k, 't, 'b, 'p, 'e) ienv \<Rightarrow> quic_ctx \<Rightarrow> bytes \<Rightarrow> socket_addr \<Rightarrow> socket_addr \<Rightarrow> u64 \<Rightarrow> ('m, 'd, 'q, 'c, 'r, 'u, 's, 'n, 'b, 'p, 'w) iworld \<Rightarrow>
   (bytes \<times> ('m, 'd, 'q, 'c, 'r, 'u, 's, 'n, 'b, 'p, 'w) iworld) option" where
  "incoming_data E self buf addr_to addr_from current_time w =
     do {
       ((ret, buf), w) \<leftarrow> run_c E
         (picoquic_incoming_packet E (quic w) (qc_quic self) buf addr_from addr_to current_time) w;
       Some (buf, w)
     }"

definition send_data_in_buffer ::
  "('m, 'd, 'q, 'c, 'r, 'u, 's, 'n, 'h, 'x, 'y, 'i, 'k, 't, 'b, 'p, 'e) ienv \<Rightarrow> nat \<Rightarrow> socket_addr \<Rightarrow> ('k, 't) context_inner \<Rightarrow> (bool \<times> ('k, 't) context_inner) option" where
  "send_data_in_buffer E len addr self =
     (if length (buffer self) < len then None
      else
        case udp_poll_send_to E (socket self) (take len (buffer self)) addr of (r, sock) \<Rightarrow>
          let self = self\<lparr>socket := sock\<rparr> in
          if r = Ok NotReady then Some (False, self\<lparr>not_send_length := Some (len, addr)\<rparr>)
          else Some (True, self))"

partial_function (option) send_packets_loop ::
  "('m, 'd, 'q, 'c, 'r, 'u, 's, 'n, 'h, 'x, 'y, 'i, 'k, 't, 'b, 'p, 'e) ienv \<Rightarrow> u64 \<Rightarrow> ('k, 't) context_inner \<Rightarrow> ('m, 'd, 'q, 'c, 'r, 'u, 's, 'n, 'b, 'p, 'w) iworld \<Rightarrow> (('k, 't) context_inner \<times> ('m, 'd, 'q, 'c, 'r, 'u, 's, 'n, 'b, 'p, 'w) iworld) option" where
  "send_packets_loop E current_time self w =
     (case connection_iter_next E (qc_quic (ci_quic self)) current_time (quic w) of
        None \<Rightarrow> Some (self, w)
      | Some con \<Rightarrow>
      if cnx_is_disconnected E (quic w) con then
        (case cnx_delete E con w of
           None \<Rightarrow> None
         | Some uw \<Rightarrow> Some (self, snd uw))
      else
        (case prepare_packet E con (buffer self) current_time w of
           None \<Rightarrow> None
         | Some rbw \<Rightarrow>
             (case rbw of (r, buf, w) \<Rightarrow>
                (let self = self\<lparr>buffer := buf\<rparr> in
                 case r of
                   Err e \<Rightarrow> send_packets_loop E current_time self w
                 | Ok packet \<Rightarrow>
                     (case packet of
                        None \<Rightarrow> send_packets_loop E current_time self w
                      | Some la \<Rightarrow>
                          (case send_data_in_buffer E (fst la) (snd la) self of
                             None \<Rightarrow> None
                           | Some bs \<Rightarrow>
                               if \<not> fst bs then Some (snd bs, w)
                               else send_packets_loop E current_time (snd bs) w))))))"

definition send_connection_packets ::
  "('m, 'd, 'q, 'c, 'r, 'u, 's, 'n, 'h, 'x, 'y, 'i, 'k, 't, 'b, 'p, 'e) ienv \<Rightarrow> u64 \<Rightarrow> ('k, 't) context_inner \<Rightarrow> ('m, 'd, 'q, 'c, 'r, 'u, 's, 'n, 'b, 'p, 'w) iworld \<Rightarrow> (('k, 't) context_inner \<times> ('m, 'd, 'q, 'c, 'r, 'u, 's, 'n, 'b, 'p, 'w) iworld) option" where
  "send_connection_packets E current_time self w =
     (case not_send_length self of
        Some (len, addr) \<Rightarrow>
          (case send_data_in_buffer E len addr (self\<lparr>not_send_length := None\<rparr>) of
             None \<Rightarrow> None
           | Some (sent, self) \<Rightarrow>
               if \<not> sent then Some (self, w) else send_packets_loop E current_time self w)
      | None \<Rightarrow> send_packets_loop E current_time self w)"

text \<open>\<^verbatim>\<open>check_for_incoming_data\<close>: the socket fills the front of the buffer, and
  picoquic works on the received bytes in place.\<close>

partial_function (option) check_for_incoming_data ::
  "('m, 'd, 'q, 'c, 'r, 'u, 's, 'n, 'h, 'x, 'y, 'i, 'k, 't, 'b, 'p, 'e) ienv \<Rightarrow> u64 \<Rightarrow> ('k, 't) context_inner \<Rightarrow> ('m, 'd, 'q, 'c, 'r, 'u, 's, 'n, 'b, 'p, 'w) iworld \<Rightarrow> (('k, 't) context_inner \<times> ('m, 'd, 'q, 'c, 'r, 'u, 's, 'n, 'b, 'p, 'w) iworld) option" where
  "check_for_incoming_data E current_time self w =
     (case udp_poll_recv_from E (socket self) (length (buffer self)) of (r, sock) \<Rightarrow>
        (let self = self\<lparr>socket := sock\<rparr> in
         case r of
           Err e \<Rightarrow> Some (self, w)
         | Ok a \<Rightarrow>
             (case a of
                NotReady \<Rightarrow> Some (self, w)
              | Ready da \<Rightarrow>
                  (let rest = drop (length (fst da)) (buffer self) in
                   if length (buffer self) < length (fst da) then None
                   else
                     (case udp_local_addr E (socket self) of
                        None \<Rightarrow> None
                      | Some local \<Rightarrow>
                          (case incoming_data E (ci_quic self) (fst da) local (snd da) current_time w of
                             None \<Rightarrow> None
                           | Some bw \<Rightarrow>
                               check_for_incoming_data E current_time
                                 (self\<lparr>buffer := fst bw @ rest\<rparr>) (snd bw)))))))"

section \<open>Stateless packets\<close>

definition stateless_get_peer_addr :: "('m, 'd, 'q, 'c, 'r, 'u, 's, 'n, 'h, 'x, 'y, 'i, 'k, 't, 'b, 'p, 'e) ienv \<Rightarrow> 'q \<Rightarrow> ptr \<Rightarrow> socket_addr option" where
  "stateless_get_peer_addr E q packet =
     (let socket_len = (if stateless_family E q packet = libc_AF_INET E
                        then sizeof_sockaddr_in E else sizeof_sockaddr_in6 E)
      in socket_addr_from_sockaddr E q (stateless_addr_to E q packet, socket_len))"

definition stateless_get_data :: "('m, 'd, 'q, 'c, 'r, 'u, 's, 'n, 'h, 'x, 'y, 'i, 'k, 't, 'b, 'p, 'e) ienv \<Rightarrow> 'q \<Rightarrow> ptr \<Rightarrow> bytes" where
  "stateless_get_data E q packet =
     c_read E q (stateless_bytes E q packet) (stateless_length E q packet)"

definition stateless_iter_next :: "('m, 'd, 'q, 'c, 'r, 'u, 's, 'n, 'h, 'x, 'y, 'i, 'k, 't, 'b, 'p, 'e) ienv \<Rightarrow> ptr \<Rightarrow> 'q \<Rightarrow> ptr option \<times> 'q" where
  "stateless_iter_next E qctx q =
     (case picoquic_dequeue_stateless_packet E q qctx of (packet, q) \<Rightarrow>
        (if packet = 0 then None else Some packet, q))"

definition stateless_drop :: "('m, 'd, 'q, 'c, 'r, 'u, 's, 'n, 'h, 'x, 'y, 'i, 'k, 't, 'b, 'p, 'e) ienv \<Rightarrow> ptr \<Rightarrow> 'q \<Rightarrow> 'q" where
  "stateless_drop E packet q = picoquic_delete_stateless_packet E q packet"

text \<open>A packet is dropped at the end of its turn, also when the turn returns early.\<close>

partial_function (option) send_stateless_packets ::
  "('m, 'd, 'q, 'c, 'r, 'u, 's, 'n, 'h, 'x, 'y, 'i, 'k, 't, 'b, 'p, 'e) ienv \<Rightarrow> ('k, 't) context_inner \<Rightarrow> ('m, 'd, 'q, 'c, 'r, 'u, 's, 'n, 'b, 'p, 'w) iworld \<Rightarrow>
   ((unit, error) poll \<times> ('k, 't) context_inner \<times> ('m, 'd, 'q, 'c, 'r, 'u, 's, 'n, 'b, 'p, 'w) iworld) option" where
  "send_stateless_packets E self w =
     (case stateless_iter_next E (qc_quic (ci_quic self)) (quic w) of (next, q) \<Rightarrow>
        case next of
          None \<Rightarrow> Some (Ok (Ready ()), self, w\<lparr>quic := q\<rparr>)
        | Some packet \<Rightarrow>
          (case stateless_get_peer_addr E q packet of
             None \<Rightarrow> None
           | Some addr \<Rightarrow>
               (case udp_poll_send_to E (socket self) (stateless_get_data E q packet) addr of
                  (r, sock) \<Rightarrow>
                    (let self = self\<lparr>socket := sock\<rparr>;
                         w = w\<lparr>quic := stateless_drop E packet q\<rparr>
                     in case r of
                          Err e \<Rightarrow> Some (Err (error_from_io e), self, w)
                        | Ok a \<Rightarrow>
                            (case a of
                               NotReady \<Rightarrow> Some (Ok NotReady, self, w)
                             | Ready n \<Rightarrow> send_stateless_packets E self w)))))"

section \<open>Connection requests, timer and shutdown\<close>

partial_function (option) check_for_new_connection_request ::
  "('m, 'd, 'q, 'c, 'r, 'u, 's, 'n, 'h, 'x, 'y, 'i, 'k, 't, 'b, 'p, 'e) ienv \<Rightarrow> u64 \<Rightarrow> ('k, 't) context_inner \<Rightarrow> ('m, 'd, 'q, 'c, 'r, 'u, 's, 'n, 'b, 'p, 'w) iworld \<Rightarrow> ('m, 'd, 'q, 'c, 'r, 'u, 's, 'n, 'b, 'p, 'w) iworld option" where
  "check_for_new_connection_request E current_time self w =
     (case mpsc_poll (connect_ops E) (connects w (recv_connect self)) of (r, ch) \<Rightarrow>
        (let w = w\<lparr>connects := (connects w)(recv_connect self := ch)\<rparr> in
         case r of
           Err e \<Rightarrow> Some w
         | Ok a \<Rightarrow>
             (case a of
                NotReady \<Rightarrow> Some w
              | Ready msg \<Rightarrow>
                  (case msg of
                     None \<Rightarrow> Some w
                   | Some rq \<Rightarrow>
                       (case udp_local_addr E (socket self) of
                          None \<Rightarrow> None
                        | Some local \<Rightarrow>
                            (case connection_create E (qc_quic (ci_quic self)) (fst rq) local
                                    (fst (snd rq)) current_time (client_keep_alive_interval self)
                                    (snd (snd rq)) (ci_stream_send_channel_default_size self) w of
                               None \<Rightarrow> None
                             | Some rw \<Rightarrow>
                                 (case fst rw of
                                    Ok h \<Rightarrow>
                                      check_for_new_connection_request E current_time self
                                        (let w = snd rw in
                                         w\<lparr>cctx := (cctx w)\<lparr>connections := connections (cctx w) @ [h]\<rparr>\<rparr>)
                                  | Err e \<Rightarrow>
                                      check_for_new_connection_request E current_time self (snd rw))))))))"

definition reset_timer :: "('m, 'd, 'q, 'c, 'r, 'u, 's, 'n, 'h, 'x, 'y, 'i, 'k, 't, 'b, 'p, 'e) ienv \<Rightarrow> 'i \<Rightarrow> ('k, 't) context_inner \<Rightarrow> bool \<times> ('k, 't) context_inner" where
  "reset_timer E at self =
     (case delay_poll E (delay_reset E (timer self) at) of (r, t) \<Rightarrow>
        ((case r of Ok v \<Rightarrow> is_not_ready v | Err _ \<Rightarrow> False), self\<lparr>timer := t\<rparr>))"

definition context_dropped :: "('m, 'd, 'q, 'c, 'r, 'u, 's, 'n, 'h, 'x, 'y, 'i, 'k, 't, 'b, 'p, 'e) ienv \<Rightarrow> ('k, 't) context_inner \<Rightarrow> ('m, 'd, 'q, 'c, 'r, 'u, 's, 'n, 'b, 'p, 'w) iworld \<Rightarrow> bool \<times> ('m, 'd, 'q, 'c, 'r, 'u, 's, 'n, 'b, 'p, 'w) iworld" where
  "context_dropped E self w =
     (case close_handle self of
        None \<Rightarrow> (True, w)
      | Some h \<Rightarrow>
          (case os_poll_cancel (unit_ops E) (units w h) of (r, u) \<Rightarrow>
             (r \<noteq> Ok NotReady, w\<lparr>units := (units w)(h := u)\<rparr>)))"

section \<open>The event loop\<close>

text \<open>The work of one round: \<open>Inl\<close> when the user's context is gone, otherwise the time
  of the next wake-up, if picoquic does not want to run again at once.\<close>

definition inner_round ::
  "('m, 'd, 'q, 'c, 'r, 'u, 's, 'n, 'h, 'x, 'y, 'i, 'k, 't, 'b, 'p, 'e) ienv \<Rightarrow> ('k, 't) context_inner \<Rightarrow> ('m, 'd, 'q, 'c, 'r, 'u, 's, 'n, 'b, 'p, 'w) iworld \<Rightarrow>
   ((unit + 'i option) \<times> ('k, 't) context_inner \<times> ('m, 'd, 'q, 'c, 'r, 'u, 's, 'n, 'b, 'p, 'w) iworld) option" where
  "inner_round E self w =
     do {
       (r, w) \<leftarrow> c_context_poll E w;
       (if is_err r then None
        else
          let current_time = get_current_time (quic_fns E) (quic w);
              (dropped, w) = context_dropped E self w
          in if dropped then Some (Inl (), self, w)
             else do {
               w \<leftarrow> check_for_new_connection_request E current_time self w;
               (self, w) \<leftarrow> check_for_incoming_data E current_time self w;
               (_, self, w) \<leftarrow> send_stateless_packets E self w;
               (self, w) \<leftarrow> send_connection_packets E current_time self w;
               next_wake \<leftarrow> get_next_wake_up_time (quic_fns E) (ci_quic self) current_time (quic w);
               Some (Inr next_wake, self, w)
             })
     }"

definition max_loops_without_sleep :: nat where
  "max_loops_without_sleep = 50"

function inner_loop ::
  "('m, 'd, 'q, 'c, 'r, 'u, 's, 'n, 'h, 'x, 'y, 'i, 'k, 't, 'b, 'p, 'e) ienv \<Rightarrow> nat \<Rightarrow> ('k, 't) context_inner \<Rightarrow> ('m, 'd, 'q, 'c, 'r, 'u, 's, 'n, 'b, 'p, 'w) iworld \<Rightarrow>
   ((unit, unit) poll \<times> ('k, 't) context_inner \<times> ('m, 'd, 'q, 'c, 'r, 'u, 's, 'n, 'b, 'p, 'w) iworld) option" where
  "inner_loop E loops_without_sleep self w =
     (case inner_round E self w of
        None \<Rightarrow> None
      | Some (Inl _, self, w) \<Rightarrow> Some (Ok (Ready ()), self, w)
      | Some (Inr next_wake, self, w) \<Rightarrow>
          if loops_without_sleep \<ge> max_loops_without_sleep then
            Some (Ok NotReady, self, w\<lparr>notified := Suc (notified w)\<rparr>)
          else
            (case next_wake of
               Some at \<Rightarrow>
                 (case reset_timer E at self of (sleeping, self) \<Rightarrow>
                    if \<not> sleeping then inner_loop E (loops_without_sleep + 1) self w
                    else Some (Ok NotReady, self, w))
             | None \<Rightarrow> inner_loop E (loops_without_sleep + 1) self w))"
  by pat_completeness auto
termination
  by (relation "measure (\<lambda>(E, n, self, w). max_loops_without_sleep - n)") auto

declare inner_loop.simps [simp del]

definition inner_poll ::
  "('m, 'd, 'q, 'c, 'r, 'u, 's, 'n, 'h, 'x, 'y, 'i, 'k, 't, 'b, 'p, 'e) ienv \<Rightarrow> ('k, 't) context_inner \<Rightarrow> ('m, 'd, 'q, 'c, 'r, 'u, 's, 'n, 'b, 'p, 'w) iworld \<Rightarrow>
   ((unit, unit) poll \<times> ('k, 't) context_inner \<times> ('m, 'd, 'q, 'c, 'r, 'u, 's, 'n, 'b, 'p, 'w) iworld) option" where
  "inner_poll E self w = inner_loop E 0 self w"

declare send_packets_loop.simps [code] check_for_incoming_data.simps [code]
  send_stateless_packets.simps [code] check_for_new_connection_request.simps [code]

end
