(* ===== verification/Contexts.thy ===== *)
theory Contexts
  imports Context_Inner
begin

text \<open>
  The construction and the end of the event loop (\<^verbatim>\<open>src/context_inner.rs\<close>), the
  user's \<^verbatim>\<open>Context\<close> (\<^verbatim>\<open>src/context.rs\<close>), and the handle and future
  for new connections.

  Channels whose ends are all dropped on an early return cannot be observed any more and are
  left as they are.
\<close>

section \<open>Making the event loop\<close>

text \<open>\<^verbatim>\<open>CContext::new\<close>; picoquic gets the one callback context of this world.\<close>

definition c_context_new ::
  "nat \<Rightarrow> duration option \<Rightarrow> nat \<Rightarrow> ('m, 'd, 'q, 'c, 'r, 'u, 's, 'n, 'b, 'p, 'w) iworld \<Rightarrow> ('m, 'd, 'q, 'c, 'r, 'u, 's, 'n, 'b, 'p, 'w) iworld" where
  "c_context_new send keep_alive sz w =
     w\<lparr>cctx := \<lparr>connections = [], send_con = send, server_keep_alive_interval = keep_alive,
                cctx_stream_send_channel_default_size = sz\<rparr>\<rparr>"

definition keep_alive_intervals :: "'h config \<Rightarrow> duration option \<times> duration option" where
  "keep_alive_intervals cfg =
     (case keep_alive_sender cfg of
        Client \<Rightarrow> (keep_alive_interval cfg, None)
      | Server \<Rightarrow> (None, keep_alive_interval cfg))"

text \<open>The result carries the loop, the receiver of new connections, the sender of connection
  requests and the receiver of the close handle.  A failed bind frees the picoquic context.\<close>

definition inner_new ::
  "('m, 'd, 'q, 'c, 'r, 'u, 's, 'n, 'h, 'x, 'y, 'i, 'k, 't, 'b, 'p, 'e) ienv \<Rightarrow> socket_addr \<Rightarrow> 'h config \<Rightarrow> ('m, 'd, 'q, 'c, 'r, 'u, 's, 'n, 'b, 'p, 'w) iworld \<Rightarrow>
   ((('k, 't) context_inner \<times> nat \<times> nat \<times> nat, error) result \<times> ('m, 'd, 'q, 'c, 'r, 'u, 's, 'n, 'b, 'p, 'w) iworld) option" where
  "inner_new E listen_address cfg w =
     (let sz = stream_send_channel_default_size cfg;
          (client_ka, server_ka) = keep_alive_intervals cfg;
          recv = fresh w;
          w = w\<lparr>newcons := (newcons w)(recv := mpsc_new (newcon_ops E) None), fresh := Suc recv\<rparr>;
          w = c_context_new recv server_ka sz w
      in do {
        (r, q) \<leftarrow> quic_ctx_new (quic_fns E) cfg recv (quic w);
        let w = w\<lparr>quic := q\<rparr>;
        (case r of
           Err e \<Rightarrow> Some (Err e, w)
         | Ok qc \<Rightarrow>
             let connect = fresh w;
                 w = w\<lparr>connects := (connects w)(connect := mpsc_new (connect_ops E) None),
                       fresh := Suc connect\<rparr>;
                 close = fresh w;
                 w = w\<lparr>units := (units w)(close := os_new (unit_ops E)), fresh := Suc close\<rparr>
             in case udp_bind E listen_address of
                  Err e \<Rightarrow>
                    Some (Err (error_from_kind NetworkError),
                          w\<lparr>quic := quic_ctx_drop (quic_fns E) qc (quic w)\<rparr>)
                | Ok sock \<Rightarrow> do {
                    at \<leftarrow> instant_add (quic_fns E) (instant_now (quic_fns E) (quic w))
                            \<lparr>dur_secs = 10, dur_nanos = 0\<rparr>;
                    Some (Ok (\<lparr>socket = sock, ci_quic = qc,
                               buffer = replicate (PICOQUIC_MAX_PACKET_SIZE E) 0,
                               not_send_length = None, timer = delay_new E at,
                               recv_connect = connect, client_keep_alive_interval = client_ka,
                               close_handle = Some close,
                               ci_stream_send_channel_default_size = sz\<rparr>,
                             recv, connect, close), w)
                  })
      })"

definition inner_local_addr :: "('m, 'd, 'q, 'c, 'r, 'u, 's, 'n, 'h, 'x, 'y, 'i, 'k, 't, 'b, 'p, 'e) ienv \<Rightarrow> ('k, 't) context_inner \<Rightarrow> socket_addr option" where
  "inner_local_addr E self = udp_local_addr E (socket self)"

text \<open>\<^verbatim>\<open>Drop for ContextInner\<close> and of its fields: the close handle fires, picoquic
  is freed, which may still call back for its connections, and the requests that are still
  waiting are canceled.  Picoquic keeps its reference to the callback context, so that one is not
  dropped.\<close>

definition inner_drop :: "('m, 'd, 'q, 'c, 'r, 'u, 's, 'n, 'h, 'x, 'y, 'i, 'k, 't, 'b, 'p, 'e) ienv \<Rightarrow> ('k, 't) context_inner \<Rightarrow> ('m, 'd, 'q, 'c, 'r, 'u, 's, 'n, 'b, 'p, 'w) iworld \<Rightarrow> ('m, 'd, 'q, 'c, 'r, 'u, 's, 'n, 'b, 'p, 'w) iworld option" where
  "inner_drop E self w =
     (let w = (case close_handle self of
                 Some h \<Rightarrow> w\<lparr>units := (units w)(h := snd (os_send (unit_ops E) (units w h) ()))\<rparr>
               | None \<Rightarrow> w)
      in do {
        (_, w) \<leftarrow> run_c E (picoquic_free_run E (quic w) (qc_quic (ci_quic self))) w;
        let (rs, ch) = mpsc_drop_rx (connect_ops E) (connects w (recv_connect self));
        let w = w\<lparr>connects := (connects w)(recv_connect self := ch)\<rparr>;
        Some (fold (\<lambda>rq. cfut_drop_tx E (snd (snd rq))) rs w)
      })"

section \<open>The user's context\<close>

record user_context =
  ctx_recv_con :: nat
  ctx_local_addr :: socket_addr
  ctx_new_connection_handle :: nat
  ctx_close_handle :: nat

text \<open>The executor is an argument: it takes the event loop or refuses it.\<close>

definition context_create ::
  "('m, 'd, 'q, 'c, 'r, 'u, 's, 'n, 'h, 'x, 'y, 'i, 'k, 't, 'b, 'p, 'e) ienv \<Rightarrow> file_system \<Rightarrow> (('k, 't) context_inner \<Rightarrow> (unit, string) result) \<Rightarrow> socket_addr \<Rightarrow>
   'h config \<Rightarrow> ('m, 'd, 'q, 'c, 'r, 'u, 's, 'n, 'b, 'p, 'w) iworld \<Rightarrow> ((user_context \<times> ('k, 't) context_inner, error) result \<times> ('m, 'd, 'q, 'c, 'r, 'u, 's, 'n, 'b, 'p, 'w) iworld) option" where
  "context_create E fs spawn listen_address cfg w =
     (case config_verify fs cfg of
        Err e \<Rightarrow> Some (Err e, w)
      | Ok _ \<Rightarrow> do {
          (r, w) \<leftarrow> inner_new E listen_address cfg w;
          (case r of
             Err e \<Rightarrow> Some (Err e, w)
           | Ok (inner, recv_con, connect, close) \<Rightarrow> do {
               local_addr \<leftarrow> inner_local_addr E inner;
               (case spawn inner of
                  Err e \<Rightarrow> do {
                    w \<leftarrow> inner_drop E inner w;
                    Some (Err (error_from_spawn e), w)
                  }
                | Ok _ \<Rightarrow>
                    Some (Ok (\<lparr>ctx_recv_con = recv_con, ctx_local_addr = local_addr,
                               ctx_new_connection_handle = connect, ctx_close_handle = close\<rparr>, inner), w))
             })
        })"

definition context_local_addr :: "user_context \<Rightarrow> socket_addr" where
  "context_local_addr ctx = ctx_local_addr ctx"

definition context_poll ::
  "('m, 'd, 'q, 'c, 'r, 'u, 's, 'n, 'h, 'x, 'y, 'i, 'k, 't, 'b, 'p, 'e) ienv \<Rightarrow> user_context \<Rightarrow> ('m, 'd, 'q, 'c, 'r, 'u, 's, 'n, 'b, 'p, 'w) iworld \<Rightarrow> (connection option, error) poll \<times> ('m, 'd, 'q, 'c, 'r, 'u, 's, 'n, 'b, 'p, 'w) iworld" where
  "context_poll E ctx w =
     (case os_poll (unit_ops E) (units w (ctx_close_handle ctx)) of (r, u) \<Rightarrow>
        let w = w\<lparr>units := (units w)(ctx_close_handle ctx := u)\<rparr> in
        if r \<noteq> Ok NotReady then (Ok (Ready None), w)
        else
          case mpsc_poll (newcon_ops E) (newcons w (ctx_recv_con ctx)) of (r, ch) \<Rightarrow>
            (map_err (\<lambda>_. error_from_kind Unknown) r,
             w\<lparr>newcons := (newcons w)(ctx_recv_con ctx := ch)\<rparr>))"

section \<open>New connections\<close>

text \<open>\<^verbatim>\<open>NewConnectionHandle::new_connection\<close>: a request that comes back is
  dropped, and its sender with it.\<close>

definition handle_new_connection ::
  "('m, 'd, 'q, 'c, 'r, 'u, 's, 'n, 'h, 'x, 'y, 'i, 'k, 't, 'b, 'p, 'e) ienv \<Rightarrow> nat \<Rightarrow> socket_addr \<Rightarrow> bytes \<Rightarrow> ('m, 'd, 'q, 'c, 'r, 'u, 's, 'n, 'b, 'p, 'w) iworld \<Rightarrow> nat \<times> ('m, 'd, 'q, 'c, 'r, 'u, 's, 'n, 'b, 'p, 'w) iworld" where
  "handle_new_connection E h addr server_name w =
     (let f = fresh w;
          w = w\<lparr>cfuts := (cfuts w)(f := os_new (cfut_ops E)), fresh := Suc f\<rparr>;
          (r, ch) = mpsc_unbounded_send (connect_ops E) (connects w h) (addr, server_name, f);
          w = w\<lparr>connects := (connects w)(h := ch)\<rparr>
      in (f, case r of Ok _ \<Rightarrow> w | Err rq \<Rightarrow> cfut_drop_tx E (snd (snd rq)) w))"

definition context_new_connection ::
  "('m, 'd, 'q, 'c, 'r, 'u, 's, 'n, 'h, 'x, 'y, 'i, 'k, 't, 'b, 'p, 'e) ienv \<Rightarrow> user_context \<Rightarrow> socket_addr \<Rightarrow> bytes \<Rightarrow> ('m, 'd, 'q, 'c, 'r, 'u, 's, 'n, 'b, 'p, 'w) iworld \<Rightarrow> nat \<times> ('m, 'd, 'q, 'c, 'r, 'u, 's, 'n, 'b, 'p, 'w) iworld" where
  "context_new_connection E ctx addr server_name w =
     handle_new_connection E (ctx_new_connection_handle ctx) addr server_name w"

definition get_new_connection_handle ::
  "('m, 'd, 'q, 'c, 'r, 'u, 's, 'n, 'h, 'x, 'y, 'i, 'k, 't, 'b, 'p, 'e) ienv \<Rightarrow> user_context \<Rightarrow> ('m, 'd, 'q, 'c, 'r, 'u, 's, 'n, 'b, 'p, 'w) iworld \<Rightarrow> nat \<times> ('m, 'd, 'q, 'c, 'r, 'u, 's, 'n, 'b, 'p, 'w) iworld" where
  "get_new_connection_handle E ctx w =
     (let h = ctx_new_connection_handle ctx
      in (h, w\<lparr>connects := (connects w)(h := mpsc_clone_tx (connect_ops E) (connects w h))\<rparr>))"

definition new_connection_future_poll :: "('m, 'd, 'q, 'c, 'r, 'u, 's, 'n, 'h, 'x, 'y, 'i, 'k, 't, 'b, 'p, 'e) ienv \<Rightarrow> nat \<Rightarrow> ('m, 'd, 'q, 'c, 'r, 'u, 's, 'n, 'b, 'p, 'w) iworld \<Rightarrow> (connection, error) poll \<times> ('m, 'd, 'q, 'c, 'r, 'u, 's, 'n, 'b, 'p, 'w) iworld" where
  "new_connection_future_poll E f w =
     (case os_poll (cfut_ops E) (cfuts w f) of (r, ch) \<Rightarrow>
        (case r of
           Err _ \<Rightarrow> Err error_from_canceled
         | Ok NotReady \<Rightarrow> Ok NotReady
         | Ok (Ready (Ok con)) \<Rightarrow> Ok (Ready con)
         | Ok (Ready (Err e)) \<Rightarrow> Err e,
         w\<lparr>cfuts := (cfuts w)(f := ch)\<rparr>))"

section \<open>Dropping the user's ends\<close>

text \<open>A handle is one sender of connection requests; a future that was not polled may hold a
  connection.  Dropping the context drops its fields in the order of their declaration: the
  connections that were not accepted, the handle, and the receiver by which the event loop sees
  that the context is gone.\<close>

definition connection_handle_drop ::
  "('m, 'd, 'q, 'c, 'r, 'u, 's, 'n, 'h, 'x, 'y, 'i, 'k, 't, 'b, 'p, 'e) ienv \<Rightarrow> nat \<Rightarrow> ('m, 'd, 'q, 'c, 'r, 'u, 's, 'n, 'b, 'p, 'w) iworld \<Rightarrow> ('m, 'd, 'q, 'c, 'r, 'u, 's, 'n, 'b, 'p, 'w) iworld" where
  "connection_handle_drop E h w = w\<lparr>connects := (connects w)(h := mpsc_drop_tx (connect_ops E) (connects w h))\<rparr>"

definition new_connection_future_drop ::
  "('m, 'd, 'q, 'c, 'r, 'u, 's, 'n, 'h, 'x, 'y, 'i, 'k, 't, 'b, 'p, 'e) ienv \<Rightarrow> nat \<Rightarrow> ('m, 'd, 'q, 'c, 'r, 'u, 's, 'n, 'b, 'p, 'w) iworld \<Rightarrow> ('m, 'd, 'q, 'c, 'r, 'u, 's, 'n, 'b, 'p, 'w) iworld" where
  "new_connection_future_drop E f w =
     (case os_drop_rx (cfut_ops E) (cfuts w f) of (v, ch) \<Rightarrow>
        let w = w\<lparr>cfuts := (cfuts w)(f := ch)\<rparr> in
        case v of Some r \<Rightarrow> drop_connection_result E r w | None \<Rightarrow> w)"

definition user_context_drop ::
  "('m, 'd, 'q, 'c, 'r, 'u, 's, 'n, 'h, 'x, 'y, 'i, 'k, 't, 'b, 'p, 'e) ienv \<Rightarrow> user_context \<Rightarrow> ('m, 'd, 'q, 'c, 'r, 'u, 's, 'n, 'b, 'p, 'w) iworld \<Rightarrow> ('m, 'd, 'q, 'c, 'r, 'u, 's, 'n, 'b, 'p, 'w) iworld" where
  "user_context_drop E ctx w =
     (let (cons, ch) = mpsc_drop_rx (newcon_ops E) (newcons w (ctx_recv_con ctx));
          w = fold (connection_drop E) cons (w\<lparr>newcons := (newcons w)(ctx_recv_con ctx := ch)\<rparr>);
          w = connection_handle_drop E (ctx_new_connection_handle ctx) w;
          h = ctx_close_handle ctx
      in w\<lparr>units := (units w)(h := snd (os_drop_rx (unit_ops E) (units w h)))\<rparr>)"

end
