(* ===== verification/Inner_Props.thy ===== *)
theory Inner_Props
  imports Contexts Connection_Props Quic_Lifetime
begin

text \<open>
  The event loop (\<^verbatim>\<open>src/context_inner.rs\<close>): why it returns
  to the executor, with a wake-up arranged; what happens to a packet that the socket does not
  take; and what a connect call sees when its connection cannot be made.
\<close>

section \<open>The loop\<close>

text \<open>A poll from \<open>w\<close> to \<open>w'\<close> that is not ready has either asked to be polled
  again or left a running timer.\<close>

definition wake_arranged ::
  "('m, 'd, 'q, 'c, 'r, 'u, 's, 'n, 'h, 'x, 'y, 'i, 'k, 't, 'b, 'p, 'e) ienv \<Rightarrow>
   ('k, 't) context_inner \<Rightarrow> ('m, 'd, 'q, 'c, 'r, 'u, 's, 'n, 'b, 'p, 'w) iworld \<Rightarrow>
   ('m, 'd, 'q, 'c, 'r, 'u, 's, 'n, 'b, 'p, 'w) iworld \<Rightarrow> bool" where
  "wake_arranged E self w w' \<longleftrightarrow>
     notified w < notified w' \<or> (\<exists>t at. delay_poll E (delay_reset E t at) = (Ok NotReady, timer self))"

lemma reset_timer_eq:
  "reset_timer E at self = (sleeping, self') \<Longrightarrow>
     \<exists>t. self' = self\<lparr>timer := t\<rparr> \<and>
       (sleeping \<longrightarrow> delay_poll E (delay_reset E (timer self) at) = (Ok NotReady, timer self'))"
  by (auto simp: reset_timer_def split: prod.splits result.splits elim!: is_not_ready.elims)

text \<open>If every round returns, the loop does, after at most 51 of them: it never reports an error,
  when it is not finished a wake-up is arranged, and it finishes only after a round that says so.
  (\<open>P n\<close> describes the states before round \<open>n\<close>, and \<open>Q\<close> those after a last one.)\<close>

lemma inner_loop_returns:
  assumes step: "\<And>n self w. n \<le> max_loops_without_sleep \<Longrightarrow> P n self w \<Longrightarrow>
      \<exists>r self' w'. inner_round E self w = Some (r, self', w') \<and> P (Suc n) self' w' \<and>
        notified w' = notified w \<and> (r = Inl () \<longrightarrow> Q self' w')"
    and tm: "\<And>n self w t. P n self w \<Longrightarrow> P n (self\<lparr>timer := t\<rparr>) w"
    and nt: "\<And>n self w k. P n self w \<Longrightarrow> P n self (w\<lparr>notified := k\<rparr>)"
    and "n \<le> max_loops_without_sleep" "P n self w"
  shows "\<exists>m a self' w'. inner_loop E n self w = Some (Ok a, self', w') \<and>
    m \<le> Suc max_loops_without_sleep \<and> P m self' w' \<and> (a = NotReady \<longrightarrow> wake_arranged E self' w w') \<and>
    (a = Ready () \<longrightarrow> Q self' w')"
  using assms(4,5)
proof (induction "max_loops_without_sleep - n" arbitrary: n self w rule: less_induct)
  case less
  let ?goal = "\<lambda>w r. \<exists>m a self' w'. r = Some (Ok a, self', w') \<and>
    m \<le> Suc max_loops_without_sleep \<and> P m self' w' \<and> (a = NotReady \<longrightarrow> wake_arranged E self' w w') \<and>
    (a = Ready () \<longrightarrow> Q self' w')"
  obtain r self1 w1 where rd: "inner_round E self w = Some (r, self1, w1)" "P (Suc n) self1 w1"
    "notified w1 = notified w" "r = Inl () \<longrightarrow> Q self1 w1"
    using step [OF less.prems] by blast
  have same: "wake_arranged E s w1 w' \<longleftrightarrow> wake_arranged E s w w'" for s w'
    using rd(3) by (simp add: wake_arranged_def)
  have next_round: "?goal w (inner_loop E (n + 1) s w1)" if "n < max_loops_without_sleep" "P (Suc n) s w1" for s
    using less.hyps [of "Suc n" s w1] that by (simp add: same)
  note unf = inner_loop.simps [of E n self w] rd(1)
  show ?case
  proof (cases r)
    case (Inl u)
    with rd less.prems(1) show ?thesis by (auto simp: unf intro!: exI [of _ "Suc n"])
  next
    case (Inr next_wake)
    consider (full) "max_loops_without_sleep \<le> n" | (again) "n < max_loops_without_sleep" "next_wake = None"
      | (wake) at where "n < max_loops_without_sleep" "next_wake = Some at"
      by (cases next_wake) fastforce+
    then show ?thesis
    proof cases
      case full
      let ?w = "w1\<lparr>notified := Suc (notified w1)\<rparr>"
      from full Inr have "inner_loop E n self w = Some (Ok NotReady, self1, ?w)" by (simp add: unf)
      moreover have "P (Suc n) self1 ?w" by (rule nt [OF rd(2)])
      moreover have "wake_arranged E self1 w ?w" by (simp add: wake_arranged_def rd(3))
      ultimately show ?thesis using less.prems(1) by (intro exI [of _ "Suc n"] exI) auto
    next
      case again
      with Inr next_round [OF again(1) rd(2)] show ?thesis by (simp add: unf)
    next
      case (wake at)
      obtain sleeping self2 where rt: "reset_timer E at self1 = (sleeping, self2)" by fastforce
      from reset_timer_eq [OF rt] obtain t where t: "self2 = self1\<lparr>timer := t\<rparr>"
        "sleeping \<longrightarrow> delay_poll E (delay_reset E (timer self1) at) = (Ok NotReady, timer self2)"
        by blast
      have P2: "P (Suc n) self2 w1" unfolding t(1) by (rule tm [OF rd(2)])
      have sl: "sleeping \<Longrightarrow> wake_arranged E self2 w w1"
        unfolding wake_arranged_def using t(2) by blast
      show ?thesis
      proof (cases sleeping)
        case True
        with wake Inr rt P2 sl less.prems(1) show ?thesis by (auto simp: unf intro!: exI [of _ "Suc n"])
      next
        case False
        with wake Inr rt next_round [OF wake(1) P2] show ?thesis by (simp add: unf)
      qed
    qed
  qed
qed

section \<open>A recording environment\<close>

text \<open>A socket is the packets that are going to arrive, the packets that were sent, and whether
  it is full; a full socket takes no packet once.  The argument is the delay that picoquic asks
  for.\<close>

type_synonym rec_socket = "(bytes \<times> socket_addr) list \<times> (bytes \<times> socket_addr) list \<times> bool"

definition rec_quic_fns :: "u64 \<Rightarrow> (quic_call list, unit, bytes, bytes, nat) quic_env" where
  "rec_quic_fns delay =
     \<lparr>picoquic_current_time = (\<lambda>_. 0), picoquic_create = (\<lambda>q _ _ _ _ _ _ _. (3, q)),
      picoquic_set_client_authentication = (\<lambda>q _ _. q),
      picoquic_set_tls_certificate_chain = (\<lambda>q _ _. q),
      picoquic_set_tls_root_certificates = (\<lambda>q _ _. (0, q)),
      picoquic_set_tls_key = (\<lambda>q _ _. (0, q)),
      picoquic_set_verify_certificate_callback = (\<lambda>q _ _. (0, q)),
      picoquic_free = (\<lambda>q _. q), picoquic_get_next_wake_delay = (\<lambda>_ _ _ _. delay),
      x509_from_pem = Ok, x509_to_der = Ok, private_key_from_pem = Ok, private_key_to_der = Ok,
      instant_now = (\<lambda>_. 0), instant_add = (\<lambda>i d. Some (i + unat (dur_secs d)))\<rparr>"

definition rec_recv :: "rec_socket \<Rightarrow> nat \<Rightarrow> (bytes \<times> socket_addr, string) poll \<times> rec_socket" where
  "rec_recv k n =
     (case k of (p # ps, rest) \<Rightarrow> (Ok (Ready p), ps, rest) | ([], rest) \<Rightarrow> (Ok NotReady, [], rest))"

definition rec_send :: "rec_socket \<Rightarrow> bytes \<Rightarrow> socket_addr \<Rightarrow> (nat, string) poll \<times> rec_socket" where
  "rec_send k bs a =
     (case k of (ps, sent, full) \<Rightarrow>
        if full then (Ok NotReady, ps, sent, False)
        else (Ok (Ready (length bs)), ps, sent @ [(bs, a)], False))"

type_synonym rec_inner_env =
  "(message chan_view, bytes chan_view, quic_call list, con_message chan_view,
    create_request chan_view, unit os_view, (stream, error) result os_view,
    (connection, error) result os_view, unit, bytes, bytes, nat, rec_socket, unit,
    connection chan_view, connect_request chan_view) inner_env"

definition inner_record_env :: "u64 \<Rightarrow> rec_inner_env" where
  "inner_record_env delay = con_env.extend (con_record_env 0)
     (inner_env.fields (rec_quic_fns delay) fifo_mpsc fifo_mpsc
        (\<lambda>q p bs from to t. CReturn (0, bs) q)
        (\<lambda>q cnx t buf. CReturn (0, buf, 0, 1, 16) q)
        (\<lambda>q cnx. CReturn () q) (\<lambda>q p. CReturn () q)
        (\<lambda>q p t. 0) (\<lambda>q p. (0, q)) (\<lambda>q p. q)
        (\<lambda>q p. 2) (\<lambda>q p. 0) (\<lambda>q p. 0) (\<lambda>q p. 0) 2 16 28 0x434 8
        (\<lambda>a. Ok ([], [], False)) (\<lambda>k. Some (SocketAddrV4 1 2)) rec_send rec_recv
        (\<lambda>i. ()) (\<lambda>t i. t) (\<lambda>t. (Ok NotReady, t)))"

lemmas inner_record_defs = inner_record_env_def con_env.defs inner_env.defs con_record_defs

type_synonym rec_inner_world =
  "(message chan_view, bytes chan_view, quic_call list, con_message chan_view,
    create_request chan_view, unit os_view, (stream, error) result os_view,
    (connection, error) result os_view, connection chan_view, connect_request chan_view) inner_world"

definition sample_inner_world :: "connect_request list \<Rightarrow> rec_inner_world" where
  "sample_inner_world rs =
     con_world.extend (sample_con_world [])
       (inner_world.fields
          \<lparr>connections = [], send_con = 40, server_keep_alive_interval = None,
           cctx_stream_send_channel_default_size = 5\<rparr>
          (\<lambda>_. view_new None) (\<lambda>_. sample_view rs 1 True) 0)"

definition sample_inner :: "rec_socket \<Rightarrow> (nat \<times> socket_addr) option \<Rightarrow> bytes \<Rightarrow> (rec_socket, unit) context_inner" where
  "sample_inner sock unsent buf =
     \<lparr>socket = sock, ci_quic = \<lparr>qc_quic = 3, qc_max_delay = \<lparr>dur_secs = 10, dur_nanos = 0\<rparr>\<rparr>,
      buffer = buf, not_send_length = unsent, timer = (), recv_connect = 41,
      client_keep_alive_interval = None, close_handle = Some 42,
      ci_stream_send_channel_default_size = 5\<rparr>"

section \<open>Packets\<close>

text \<open>What a socket was given is a log: a datagram that it took is appended, one that it did not
  take, because it is full, leaves the log alone, and so does receiving.\<close>

definition socket_log ::
  "('m, 'd, 'q, 'c, 'r, 'u, 's, 'n, 'h, 'x, 'y, 'i, 'k, 't, 'b, 'p, 'e) ienv \<Rightarrow>
   ('k \<Rightarrow> (bytes \<times> socket_addr) list) \<Rightarrow> bool" where
  "socket_log E sent \<longleftrightarrow>
     (\<forall>k bs a r k'. udp_poll_send_to E k bs a = (r, k') \<longrightarrow>
        sent k' = (if r = Ok NotReady then sent k else sent k @ [(bs, a)])) \<and>
     (\<forall>k n. sent (snd (udp_poll_recv_from E k n)) = sent k)"

definition unsent_packet :: "('k, 't) context_inner \<Rightarrow> (bytes \<times> socket_addr) list" where
  "unsent_packet self =
     (case not_send_length self of None \<Rightarrow> [] | Some (len, addr) \<Rightarrow> [(take len (buffer self), addr)])"

text \<open>The specification of a turn of the connections: picoquic prepares packets for them one by
  one, until none wants to run, a disconnected one is deleted, or the turn stops behind a packet.
  A connection may have nothing to send or fail.\<close>

inductive prepares ::
  "('m, 'd, 'q, 'c, 'r, 'u, 's, 'n, 'h, 'x, 'y, 'i, 'k, 't, 'b, 'p, 'e) ienv \<Rightarrow> u64 \<Rightarrow> quic_ctx \<Rightarrow> bytes \<Rightarrow>
   ('m, 'd, 'q, 'c, 'r, 'u, 's, 'n, 'b, 'p, 'w) iworld \<Rightarrow> (bytes \<times> socket_addr) list \<Rightarrow> bytes \<Rightarrow>
   ('m, 'd, 'q, 'c, 'r, 'u, 's, 'n, 'b, 'p, 'w) iworld \<Rightarrow> bool"
  for E t qc where
  stop: "prepares E t qc buf w [] buf w"
| delete: "connection_iter_next E (qc_quic qc) t (quic w) = Some con \<Longrightarrow> cnx_is_disconnected E (quic w) con \<Longrightarrow>
    cnx_delete E con w = Some (u, w') \<Longrightarrow> prepares E t qc buf w [] buf w'"
| packet: "connection_iter_next E (qc_quic qc) t (quic w) = Some con \<Longrightarrow> \<not> cnx_is_disconnected E (quic w) con \<Longrightarrow>
    prepare_packet E con buf t w = Some (Ok (Some (len, addr)), buf1, w1) \<Longrightarrow>
    prepares E t qc buf1 w1 ps buf' w' \<Longrightarrow> prepares E t qc buf w ((take len buf1, addr) # ps) buf' w'"
| skip: "connection_iter_next E (qc_quic qc) t (quic w) = Some con \<Longrightarrow> \<not> cnx_is_disconnected E (quic w) con \<Longrightarrow>
    prepare_packet E con buf t w = Some (r, buf1, w1) \<Longrightarrow> r = Ok None \<or> (\<exists>e. r = Err e) \<Longrightarrow>
    prepares E t qc buf1 w1 ps buf' w' \<Longrightarrow> prepares E t qc buf w ps buf' w'"

lemma send_data_in_buffer_log:
  assumes "socket_log E sent" "not_send_length self = None" "send_data_in_buffer E len addr self = Some (ok, self')"
  shows "sent (socket self') @ unsent_packet self' = sent (socket self) @ [(take len (buffer self), addr)]"
    "buffer self' = buffer self" "ci_quic self' = ci_quic self" "ok \<Longrightarrow> not_send_length self' = None"
proof -
  obtain r k where r: "udp_poll_send_to E (socket self) (take len (buffer self)) addr = (r, k)" by fastforce
  have "sent k = (if r = Ok NotReady then sent (socket self) else sent (socket self) @ [(take len (buffer self), addr)])"
    using assms(1) r unfolding socket_log_def by blast
  with assms(2,3) r
  show "sent (socket self') @ unsent_packet self' = sent (socket self) @ [(take len (buffer self), addr)]"
    "buffer self' = buffer self" "ci_quic self' = ci_quic self" "ok \<Longrightarrow> not_send_length self' = None"
    by (auto simp: send_data_in_buffer_def unsent_packet_def Let_def split: if_splits)
qed

definition turn_ok where
  "turn_ok E sent t self w y \<longleftrightarrow> (not_send_length self = None \<longrightarrow>
     (\<exists>ps. prepares E t (ci_quic self) (buffer self) w ps (buffer (fst y)) (snd y) \<and>
       sent (socket (fst y)) @ unsent_packet (fst y) = sent (socket self) @ ps))"

lemma turn_ok_packet:
  assumes "socket_log E sent" "connection_iter_next E (qc_quic (ci_quic self)) t (quic w) = Some con"
    and "\<not> cnx_is_disconnected E (quic w) con"
    and "prepare_packet E con (buffer self) t w = Some (Ok (Some (len, addr)), buf, w1)"
    and s: "send_data_in_buffer E len addr (self\<lparr>buffer := buf\<rparr>) = Some (ok, self1)"
    and y: "if ok then turn_ok E sent t self1 w1 y else y = (self1, w1)"
  shows "turn_ok E sent t self w y"
  unfolding turn_ok_def
proof
  assume free: "not_send_length self = None"
  note log = send_data_in_buffer_log [OF assms(1) _ s] and step = prepares.packet [OF assms(2-4)]
  show "\<exists>ps. prepares E t (ci_quic self) (buffer self) w ps (buffer (fst y)) (snd y) \<and>
      sent (socket (fst y)) @ unsent_packet (fst y) = sent (socket self) @ ps"
  proof (cases ok)
    case True
    with y log free obtain ps where "prepares E t (ci_quic self) buf w1 ps (buffer (fst y)) (snd y)"
      "sent (socket (fst y)) @ unsent_packet (fst y) = sent (socket self1) @ ps"
      "sent (socket self1) = sent (socket self) @ [(take len buf, addr)]"
      by (auto simp: turn_ok_def unsent_packet_def)
    with step show ?thesis by (intro exI [of _ "(take len buf, addr) # ps"]) auto
  next
    case False
    with y log(1,2) free step [OF prepares.stop] show ?thesis by auto
  qed
qed

lemma turn_ok_skip:
  assumes "connection_iter_next E (qc_quic (ci_quic self)) t (quic w) = Some con" "\<not> cnx_is_disconnected E (quic w) con"
    and "prepare_packet E con (buffer self) t w = Some (r, buf, w1)" "r = Ok None \<or> (\<exists>e. r = Err e)"
    and "turn_ok E sent t (self\<lparr>buffer := buf\<rparr>) w1 y"
  shows "turn_ok E sent t self w y"
  using assms(5) prepares.skip [OF assms(1-4)] by (auto simp: turn_ok_def)

lemma turn_ok_end:
  "turn_ok E sent t self w (self, w)"
  "connection_iter_next E (qc_quic (ci_quic self)) t (quic w) = Some con \<Longrightarrow> cnx_is_disconnected E (quic w) con \<Longrightarrow>
   cnx_delete E con w = Some (u, w') \<Longrightarrow> turn_ok E sent t self w (self, w')"
  by (auto simp: turn_ok_def unsent_packet_def intro: prepares.stop prepares.delete)

lemma send_packets_loop_log:
  assumes "socket_log E sent" "send_packets_loop E t self w = Some y"
  shows "turn_ok E sent t self w y"
proof (rule send_packets_loop.raw_induct [OF _ assms(2), where P = "\<lambda>F t self w y. F = E \<longrightarrow> turn_ok F sent t self w y",
      THEN mp, OF _ refl], goal_cases)
  case (1 loop F t self w y)
  have IH: "turn_ok E sent t self w y" if "loop E t self w = Some y" for self w y using 1(1) that by blast
  have "turn_ok E sent t self w y" if F: "F = E"
  proof -
    note body = 1(2) [unfolded F]
    show ?thesis
    proof (cases "connection_iter_next E (qc_quic (ci_quic self)) t (quic w)")
      case None
      with body show ?thesis by (auto intro: turn_ok_end)
    next
      case next_con: (Some con)
      show ?thesis
      proof (cases "cnx_is_disconnected E (quic w) con")
        case True
        with next_con body show ?thesis by (auto split: option.splits intro: turn_ok_end)
      next
        case connected: False
        with next_con body obtain r buf w1 where p: "prepare_packet E con (buffer self) t w = Some (r, buf, w1)"
          by (auto split: option.splits)
        note now = next_con connected p
        consider (packet) len addr where "r = Ok (Some (len, addr))" | (skip) "r = Ok None \<or> (\<exists>e. r = Err e)"
          by (metis result.exhaust option.exhaust surj_pair)
        then show ?thesis
        proof cases
          case packet
          with body now obtain ok self1 where "send_data_in_buffer E len addr (self\<lparr>buffer := buf\<rparr>) = Some (ok, self1)"
            "if ok then loop E t self1 w1 = Some y else y = (self1, w1)"
            by (auto simp: Let_def split: option.splits if_splits)
          with now packet IH show ?thesis by (metis turn_ok_packet [OF assms(1)])
        next
          case skip
          with body now have "loop E t (self\<lparr>buffer := buf\<rparr>) w1 = Some y" by (auto simp: Let_def)
          then show ?thesis by (rule turn_ok_skip [OF now skip IH])
        qed
      qed
    qed
  qed
  then show ?case by blast
qed

text \<open>So does the whole of \<^verbatim>\<open>send_connection_packets\<close>, which starts with the packet that
  waits: no packet overtakes another, is sent twice, or is forgotten.\<close>

lemma send_connection_packets_log:
  assumes "socket_log E sent" "send_connection_packets E t self w = Some (self', w')"
  shows "\<exists>ps. prepares E t (ci_quic self) (buffer self) w ps (buffer self') w' \<and>
    sent (socket self') @ unsent_packet self' = sent (socket self) @ unsent_packet self @ ps"
proof (cases "not_send_length self")
  case None
  with assms(2) have "send_packets_loop E t self w = Some (self', w')" by (simp add: send_connection_packets_def)
  from send_packets_loop_log [OF assms(1) this] None show ?thesis by (simp add: turn_ok_def unsent_packet_def)
next
  case (Some la)
  then obtain len addr where la: "not_send_length self = Some (len, addr)" by (cases la) simp
  with assms(2) obtain ok self1 where s: "send_data_in_buffer E len addr (self\<lparr>not_send_length := None\<rparr>) = Some (ok, self1)"
    "if ok then send_packets_loop E t self1 w = Some (self', w') else (self', w') = (self1, w)"
    by (auto simp: send_connection_packets_def split: option.splits if_splits)
  note log = send_data_in_buffer_log [OF assms(1) _ s(1), simplified]
  show ?thesis
  proof (cases ok)
    case True
    with s(2) send_packets_loop_log [OF assms(1), of t self1 w "(self', w')"] log la
    show ?thesis by (auto simp: turn_ok_def unsent_packet_def)
  next
    case False
    with s(2) log(1,2) la show ?thesis by (auto simp: unsent_packet_def intro!: exI [of _ "[]"] prepares.stop)
  qed
qed

text \<open>C37.  The packet waits in the buffer that receiving uses as well: when a datagram arrives
  before it is sent, the bytes that picoquic leaves of the datagram replace the front of the packet,
  and this mixture is the next thing that the socket is given, or what waits then.\<close>

theorem unsent_packet_overwritten:
  fixes E :: "('m, 'd, 'q, 'c, 'r, 'u, 's, 'n, 'h, 'x, 'y, 'i, 'k, 't, 'b, 'p, 'e) ienv"
    and w :: "('m, 'd, 'q, 'c, 'r, 'u, 's, 'n, 'b, 'p, 'w) iworld"
  assumes "socket_log E sent" "not_send_length self = Some (len, addr)" "length bs \<le> length (buffer self)"
    and "udp_poll_recv_from E (socket self) (length (buffer self)) = (Ok (Ready (bs, from_addr)), k1)"
    and "udp_local_addr E k1 = Some local"
    and "run_c E (picoquic_incoming_packet E (quic w) (qc_quic (ci_quic self)) bs from_addr local t) w = Some ((ret, bs'), w1)"
    and "udp_poll_recv_from E k1 (length (bs' @ drop (length bs) (buffer self))) = (Ok NotReady, k2)"
  shows "\<exists>self1. check_for_incoming_data E t self w = Some (self1, w1) \<and>
    (\<forall>(w2 :: ('m, 'd, 'q, 'c, 'r, 'u, 's, 'n, 'b, 'p, 'w) iworld) self2 w3.
       send_connection_packets E t self1 w2 = Some (self2, w3) \<longrightarrow>
       (\<exists>rest. sent (socket self2) @ unsent_packet self2 =
          sent (socket self) @ (take len (bs' @ drop (length bs) (buffer self)), addr) # rest))"
proof -
  let ?self = "self\<lparr>socket := k2, buffer := bs' @ drop (length bs) (buffer self)\<rparr>"
  have "check_for_incoming_data E t self w = Some (?self, w1)"
    using assms(3-7)
    by (subst check_for_incoming_data.simps, subst check_for_incoming_data.simps) (simp add: incoming_data_def Let_def)
  moreover have "sent k1 = sent (socket self)" "sent k2 = sent k1"
    using assms(1,4,7) unfolding socket_log_def by (metis snd_conv)+
  ultimately show ?thesis
    using send_connection_packets_log [OF assms(1), of t ?self] assms(2)
    by (intro exI [of _ ?self]) (fastforce simp: unsent_packet_def)
qed

theorem unsent_packet_overwritten_witness:
  "\<exists>self1. check_for_incoming_data (inner_record_env 0) 0
      (sample_inner ([([9, 9], SocketAddrV4 5 6)], [], False) (Some (3, SocketAddrV4 7 8)) [1, 2, 3, 0, 0, 0, 0, 0])
      (sample_inner_world []) = Some (self1, sample_inner_world []) \<and>
    (\<forall>(w2 :: rec_inner_world) self2 w3. send_connection_packets (inner_record_env 0) 0 self1 w2 = Some (self2, w3) \<longrightarrow>
       (\<exists>rest. fst (snd (socket self2)) @ unsent_packet self2 = ([9, 9, 3], SocketAddrV4 7 8) # rest))"
proof -
  let ?E = "inner_record_env 0" and ?w = "sample_inner_world []"
  let ?self = "sample_inner ([([9, 9], SocketAddrV4 5 6)], [], False) (Some (3, SocketAddrV4 7 8)) [1, 2, 3, 0, 0, 0, 0, 0]"
  note u = unsent_packet_overwritten [of ?E "\<lambda>k. fst (snd k)" ?self 3 "SocketAddrV4 7 8" "[9, 9]" "SocketAddrV4 5 6"
      "([], [], False)" "SocketAddrV4 1 2" ?w 0 0 "[9, 9]" ?w "([], [], False)"]
  have "socket_log ?E (\<lambda>k. fst (snd k))"
    by (auto simp: socket_log_def inner_record_defs rec_send_def rec_recv_def split: prod.splits list.splits if_splits)
  moreover have "not_send_length ?self = Some (3, SocketAddrV4 7 8)" "length [9 :: 8 word, 9] \<le> length (buffer ?self)"
    "take 3 ([9, 9] @ drop (length [9 :: 8 word, 9]) (buffer ?self)) = [9, 9, 3]" "fst (snd (socket ?self)) = []"
    by (simp_all add: sample_inner_def)
  moreover have "udp_poll_recv_from ?E (socket ?self) (length (buffer ?self)) =
      (Ok (Ready ([9, 9], SocketAddrV4 5 6)), [], [], False)"
    "udp_local_addr ?E ([], [], False) = Some (SocketAddrV4 1 2)"
    "udp_poll_recv_from ?E ([], [], False) (length ([9, 9] @ drop (length [9 :: 8 word, 9]) (buffer ?self))) =
      (Ok NotReady, [], [], False)"
    "run_c ?E (picoquic_incoming_packet ?E (quic ?w) (qc_quic (ci_quic ?self)) [9, 9] (SocketAddrV4 5 6) (SocketAddrV4 1 2) 0) ?w =
      Some ((0, [9, 9]), ?w)"
    by (simp_all add: sample_inner_def inner_record_defs rec_recv_def)
  ultimately show ?thesis using u by simp
qed

section \<open>Failed connect calls\<close>

text \<open>C39.  Whatever the reason why a connection cannot be made, the future of the connect call
  only resolves to an internal error: the reason is lost with its sender.\<close>

theorem failed_connect_internal_error:
  assumes "oneshot_channel (cfut_ops E) nview" "ov_value (nview (cfuts w f)) = None"
    and "cnx_new E qctx addr current_time server_name (quic w) = Some (Err e, q)"
  shows "\<exists>w'. connection_create E qctx addr local server_name current_time ka f sz w = Some (Err e, w') \<and>
    fst (new_connection_future_poll E f w') = Err (MkError InternalError)"
proof -
  let ?w = "cfut_drop_tx E f (w\<lparr>quic := q\<rparr>)"
  have "connection_create E qctx addr local server_name current_time ka f sz w = Some (Err e, ?w)"
    using assms(3) by (simp add: connection_create_def Let_def)
  moreover have "fst (os_poll (cfut_ops E) (cfuts ?w f)) = Err ()"
    using oneshot_channel.poll_after_drop [OF assms(1,2)] by (simp add: cfut_drop_tx_def)
  then have "fst (new_connection_future_poll E f ?w) = Err (MkError InternalError)"
    by (cases "os_poll (cfut_ops E) (cfuts ?w f)")
       (simp add: new_connection_future_poll_def error_from_canceled_def error_from_kind_def)
  ultimately show ?thesis by blast
qed

theorem failed_connect_internal_error_witness:
  "\<exists>w'. connection_create (inner_record_env 0) 3 (SocketAddrV4 1 2) (SocketAddrV4 3 4) [104, 0] 0 None 50 5
       (sample_inner_world []) = Some (Err (MkError FFIError), w') \<and>
    fst (new_connection_future_poll (inner_record_env 0) 50 w') = Err (MkError InternalError)"
proof (rule failed_connect_internal_error [where nview = "\<lambda>v. v"])
  show "oneshot_channel (cfut_ops (inner_record_env 0)) (\<lambda>v. v)"
    by (simp add: inner_record_defs vos.oneshot_channel_axioms)
  show "ov_value (cfuts (sample_inner_world []) 50) = None"
    by (simp add: sample_inner_world_def con_world.defs sample_con_world_def world.defs ov_new_def)
  show "cnx_new (inner_record_env 0) 3 (SocketAddrV4 1 2) 0 [104, 0] (quic (sample_inner_world [])) =
      Some (Err (MkError FFIError), quic (sample_inner_world []))"
    by (simp add: cnx_new_def error_from_nul_error_def error_from_kind_def)
qed

end
