(* ===== verification/Stream_Typing.thy ===== *)
theory Stream_Typing
  imports Connection_Ends Stream_World
begin

text \<open>
  A type system for the channels between streams and their contexts (\<^verbatim>\<open>src/stream.rs\<close>).
  The two directions of a stream carry different kinds of message, and both ends panic on a
  message of the wrong kind.  The set \<open>In\<close> is the typing: it holds the handles of the
  channels that lead to users, and every other message channel leads to a context.  Each
  operation returns in a well-typed world and leaves a well-typed world behind, whatever other
  streams do in between (\<open>evolves\<close>).
\<close>

section \<open>Typing\<close>

definition typed_message :: "nat set \<Rightarrow> nat \<Rightarrow> message \<Rightarrow> bool" where
  "typed_message In h m \<longleftrightarrow> (if h \<in> In then \<not> is_swap m else control_message m)"

definition typed where
  "typed mview In w \<longleftrightarrow>
     (\<forall>h\<in>In. h < fresh w) \<and> (\<forall>h. \<forall>m\<in>set (queue mview h w). typed_message In h m)"

text \<open>A queue evolves when messages leave at its front and arrive at its end; a new exchange
  brings a new data channel.  The set \<open>tg q\<close> stands for the contexts that picoquic may call
  back in its state \<open>q\<close>; it does not grow.\<close>

definition queue_evolves :: "nat \<Rightarrow> nat \<Rightarrow> message list \<Rightarrow> message list \<Rightarrow> bool" where
  "queue_evolves lo hi q q' \<longleftrightarrow>
     (\<exists>k new. q' = drop k q @ new \<and> distinct (swap_receivers new) \<and>
        set (swap_receivers new) \<subseteq> {lo..<hi})"

definition evolves where
  "evolves mview tg In w In' w' \<longleftrightarrow>
     typed mview In' w' \<and> tg (quic w') \<subseteq> tg (quic w) \<and>
     fresh w \<le> fresh w' \<and> In \<subseteq> In' \<and> (\<forall>h\<in>In'. h < fresh w \<longrightarrow> h \<in> In) \<and>
     (\<forall>h. queue_evolves (fresh w) (fresh w') (queue mview h w) (queue mview h w'))"

text \<open>The context of a stream, and the user's end of one.\<close>

definition stream_ctx_ok where
  "stream_ctx_ok mview In s w \<longleftrightarrow>
     sc_recv_msg s \<in> In \<and> sc_control_msg s \<notin> In \<and> sc_control_msg s < fresh w \<and>
     distinct (recv_chain s (queue mview (sc_control_msg s) w)) \<and>
     (\<forall>h\<in>set (recv_chain s (queue mview (sc_control_msg s) w)). h < fresh w)"

definition stream_ok where
  "stream_ok In st w \<longleftrightarrow>
     st_recv_msg st \<in> In \<and> st_control_msg st \<notin> In \<and> st_control_msg st < fresh w"

section \<open>Evolution\<close>

lemma swap_receivers_drop: "\<exists>j. swap_receivers (drop k ms) = drop j (swap_receivers ms)"
proof (induction ms arbitrary: k rule: swap_receivers.induct)
  case (2 rx tx ms)
  show ?case
  proof (cases k)
    case 0
    then show ?thesis by (intro exI [of _ 0]) simp
  next
    case (Suc n)
    obtain j where "swap_receivers (drop n ms) = drop j (swap_receivers ms)" using 2 by blast
    with Suc show ?thesis by (intro exI [of _ "Suc j"]) simp
  qed
qed (auto simp: drop_Cons' intro: exI [of _ 0])

lemma queue_evolves_refl [simp]: "queue_evolves lo hi q q"
  unfolding queue_evolves_def by (rule exI [of _ 0], rule exI [of _ "[]"]) simp

lemma queue_evolves_trans:
  assumes "queue_evolves lo mid q q1" "queue_evolves mid hi q1 q2" "lo \<le> mid" "mid \<le> hi"
  shows "queue_evolves lo hi q q2"
proof -
  from assms(1,2) obtain k new k' new' where
    n: "q1 = drop k q @ new" "distinct (swap_receivers new)" "set (swap_receivers new) \<subseteq> {lo..<mid}"
    "q2 = drop k' q1 @ new'" "distinct (swap_receivers new')" "set (swap_receivers new') \<subseteq> {mid..<hi}"
    unfolding queue_evolves_def by blast
  let ?mid = "drop (k' - length (drop k q)) new"
  obtain j where j: "swap_receivers ?mid = drop j (swap_receivers new)" using swap_receivers_drop by blast
  then have m: "distinct (swap_receivers ?mid)" "set (swap_receivers ?mid) \<subseteq> {lo..<mid}"
    using n(2,3) set_drop_subset by (simp, metis order_trans)
  have "q2 = drop (k' + k) q @ ?mid @ new'" by (simp add: n(1,4))
  moreover have "distinct (swap_receivers (?mid @ new'))" using m n(5,6) by (fastforce simp: subset_iff)
  moreover have "set (swap_receivers (?mid @ new')) \<subseteq> {lo..<hi}" using m n(6) assms(3,4) by auto
  ultimately show ?thesis unfolding queue_evolves_def by blast
qed

lemma evolves_refl: "typed mview In w \<Longrightarrow> evolves mview tg In w In w"
  by (simp add: evolves_def)

lemma evolves_trans [trans]:
  assumes "evolves mview tg In w In1 w1" "evolves mview tg In1 w1 In2 w2"
  shows "evolves mview tg In w In2 w2"
  using assms unfolding evolves_def
  by (meson queue_evolves_trans order_trans less_le_trans subset_trans)

lemma evolves_typed: "evolves mview tg In w In' w' \<Longrightarrow> typed mview In' w'"
  by (simp add: evolves_def)

lemma evolves_mono: "evolves mview tg In w In' w' \<Longrightarrow> fresh w \<le> fresh w' \<and> In \<subseteq> In'"
  by (simp add: evolves_def)

lemma typed_cong:
  assumes "typed mview In w" "fresh w' = fresh w" "\<And>h. mview (msgs w' h) = mview (msgs w h)"
  shows "typed mview In w'"
  using assms by (simp add: typed_def queue_def)

text \<open>An operation that changes one channel, where it adds well-typed messages that are no
  exchanges.\<close>

lemma evolves_one:
  assumes "typed mview In w" "fresh w' = fresh w" "tg (quic w') \<subseteq> tg (quic w)" "\<And>h'. h' \<noteq> h \<Longrightarrow> queue mview h' w' = queue mview h' w"
    and "queue mview h w' = drop k (queue mview h w) @ new" "swap_receivers new = []"
    and "\<forall>m\<in>set new. typed_message In h m"
  shows "evolves mview tg In w In w'"
proof -
  have "typed_message In h' m" if "m \<in> set (queue mview h' w')" for h' m
    using that assms(1,4,5,7) by (cases "h' = h") (auto simp: typed_def dest: in_set_dropD)
  then have "typed mview In w'" using assms(1,2) by (simp add: typed_def)
  moreover have "queue_evolves (fresh w) (fresh w') (queue mview h' w) (queue mview h' w')" for h'
  proof (cases "h' = h")
    case True
    with assms(5,6) show ?thesis
      unfolding queue_evolves_def by (intro exI [of _ k] exI [of _ new]) simp
  qed (simp add: assms(4))
  ultimately show ?thesis by (simp add: evolves_def assms(2,3))
qed

lemma evolves_quiet:
  assumes "typed mview In w" "fresh w \<le> fresh w'" "tg (quic w') \<subseteq> tg (quic w)"
    and "\<And>h. queue mview h w' = queue mview h w"
  shows "evolves mview tg In w In w'"
proof -
  have "typed mview In w'" using assms(1,2,4) by (auto simp: typed_def)
  with assms show ?thesis by (simp add: evolves_def)
qed

text \<open>Contexts and users stay well-typed whatever others do.\<close>

lemma stream_ctx_ok_evolves:
  assumes "stream_ctx_ok mview In s w" "evolves mview tg In w In' w'"
  shows "stream_ctx_ok mview In' s w'"
proof -
  let ?q = "queue mview (sc_control_msg s)"
  from assms(2) obtain k new where q: "?q w' = drop k (?q w) @ new" "distinct (swap_receivers new)"
    "set (swap_receivers new) \<subseteq> {fresh w..<fresh w'}"
    unfolding evolves_def queue_evolves_def by blast
  obtain j where j: "swap_receivers (drop k (?q w)) = drop j (swap_receivers (?q w))"
    using swap_receivers_drop by blast
  then have sub: "set (recv_chain s (drop k (?q w))) \<subseteq> set (recv_chain s (?q w))"
    "distinct (recv_chain s (?q w)) \<Longrightarrow> distinct (recv_chain s (drop k (?q w)))"
    by (auto simp: recv_chain_def dest: in_set_dropD)
  have chain: "recv_chain s (?q w') = recv_chain s (drop k (?q w)) @ swap_receivers new"
    by (simp add: q(1) recv_chain_def)
  have "fresh w \<le> fresh w'" "In \<subseteq> In'" "\<forall>h\<in>In'. h < fresh w \<longrightarrow> h \<in> In"
    using assms(2) by (simp_all add: evolves_def)
  with assms(1) q(2,3) sub show ?thesis
    unfolding stream_ctx_ok_def chain by (fastforce simp: subset_iff)
qed

lemma stream_ok_evolves: "stream_ok In st w \<Longrightarrow> evolves mview tg In w In' w' \<Longrightarrow> stream_ok In' st w'"
  by (auto simp: stream_ok_def evolves_def)

text \<open>A context that changes keeps its ends and at most loses receivers.\<close>

lemma stream_ctx_ok_change:
  assumes "stream_ctx_ok mview In s w" "sc_recv_msg s' = sc_recv_msg s" "sc_control_msg s' = sc_control_msg s"
    and "fresh w \<le> fresh w'"
    and "distinct (recv_chain s (queue mview (sc_control_msg s) w)) \<Longrightarrow>
       distinct (recv_chain s' (queue mview (sc_control_msg s) w'))"
    and "set (recv_chain s' (queue mview (sc_control_msg s) w')) \<subseteq> set (recv_chain s (queue mview (sc_control_msg s) w))"
  shows "stream_ctx_ok mview In s' w'"
  using assms by (fastforce simp: stream_ctx_ok_def)

lemma typed_control:
  "typed mview In w \<Longrightarrow> h \<notin> In \<Longrightarrow> \<forall>m\<in>set (queue mview h w). control_message m"
  by (fastforce simp: typed_def typed_message_def)

lemma typed_inbox:
  "typed mview In w \<Longrightarrow> h \<in> In \<Longrightarrow> \<forall>m\<in>set (queue mview h w). \<not> is_swap m"
  by (fastforce simp: typed_def typed_message_def)

section \<open>The context of a stream\<close>

lemma fresh_frames [simp]:
  "fresh (drop_message E m w) = fresh w" "fresh (fold (drop_message E) ms w) = fresh w"
  "fresh (data_drop_swappable E s w) = fresh w" "fresh (msg_drop_tx E h w) = fresh w"
  "fresh (msg_drop_rx E h w) = fresh w"
  by (simp_all add: frame_simps msg_drop_tx_def msg_drop_rx_def data_drop_swappable_def split_beta)

lemma close_send_data_chain [simp]: "recv_chain (fst (close_send_data E s w)) ms = swap_receivers ms"
  by (simp add: recv_chain_def)

lemma chain_suffix:
  "suffix xs ys \<Longrightarrow> (distinct ys \<longrightarrow> distinct xs) \<and> set xs \<subseteq> set ys"
  by (auto simp: suffix_def)

text \<open>What the sources rely on in the C library: its memory, and that work on streams does not
  make it call back a context that it did not know.\<close>

locale stream_library = stream_channels E mview dview
  for E :: "('m, 'd, 'q, 'e) senv" and mview dview +
  fixes tg :: "'q \<Rightarrow> nat set"
  assumes memory: "c_memory E"
    and tg_reset: "tg (picoquic_reset_stream E q cnx sid code) \<subseteq> tg q"
    and tg_stop: "tg (picoquic_stop_sending E q cnx sid code) \<subseteq> tg q"
    and tg_mark: "tg (picoquic_mark_active_stream E q cnx sid act) \<subseteq> tg q"
    and tg_provide: "tg (snd (picoquic_provide_stream_data_buffer E q ptr n fin act)) \<subseteq> tg q"
    and tg_write: "tg (c_write E q ptr bs) \<subseteq> tg q"
begin

text \<open>Sending a message, and receiving or dropping what a channel holds.\<close>

lemma msg_send_evolves:
  assumes "typed mview In w" "typed_message In h m" "\<not> is_swap m"
  shows "evolves mview tg In w In (snd (msg_send E h m w))"
proof -
  obtain ch b D where m: "msg_send E h m w = (b, w\<lparr>msgs := (msgs w)(h := ch), datas := D\<rparr>)"
    "cv_buffer (mview ch) = cv_buffer (mview (msgs w h)) @ (if b then [m] else [])"
    using msg_send_world [of h m w] by metis
  show ?thesis
    by (rule evolves_one [where h = h and k = 0 and new = "if b then [m] else []"])
       (use assms m in \<open>cases m; auto simp: queue_def\<close>)+
qed

lemma msg_poll_evolves:
  assumes "typed mview In w"
  shows "evolves mview tg In w In (snd (msg_poll E h w))"
proof -
  obtain ch where p: "msg_poll E h w = (fst (view_poll (mview (msgs w h))), w\<lparr>msgs := (msgs w)(h := ch)\<rparr>)"
    "mview ch = snd (view_poll (mview (msgs w h)))"
    by (rule msg_poll_cases)
  show ?thesis
    by (rule evolves_one [where h = h and k = 1 and new = "[]"])
       (use assms p in \<open>auto simp: queue_def view_poll_def split: list.split\<close>)
qed

lemma msg_drop_evolves:
  assumes "typed mview In w"
  shows "evolves mview tg In w In (msg_drop_rx E h w)" "evolves mview tg In w In (msg_drop_tx E h w)"
proof -
  show "evolves mview tg In w In (msg_drop_rx E h w)"
    by (rule evolves_one [where h = h and k = "length (queue mview h w)" and new = "[]"])
       (use assms in \<open>simp_all add: queue_def msg_drop_rx_def split_beta mch.drop_rx_snd\<close>)
  show "evolves mview tg In w In (msg_drop_tx E h w)"
    by (rule evolves_quiet)
       (use assms in \<open>simp_all add: queue_def msg_drop_tx_def mch.view_of_drop_tx\<close>)
qed

lemma dropped_tg: "tg (quic (snd (recv_message_dropped E s w))) \<subseteq> tg (quic w)"
  by (simp add: recv_message_dropped_eq tg_stop)

lemma recv_message_ok:
  assumes "typed mview In w" "stream_ctx_ok mview In s w" "\<not> is_swap m" "recv_message E s m w = (s', w')"
  shows "evolves mview tg In w In w' \<and> stream_ctx_ok mview In s' w'"
proof -
  obtain b w1 where m: "msg_send E (sc_recv_msg s) m w = (b, w1)" by fastforce
  have ev: "evolves mview tg In w In w1"
    using msg_send_evolves [OF assms(1) _ assms(3), of "sc_recv_msg s"] assms(2,3) m
    by (simp add: stream_ctx_ok_def typed_message_def)
  note ok = stream_ctx_ok_evolves [OF assms(2) ev]
  show ?thesis
  proof (cases b)
    case True
    with assms(4) m ev ok show ?thesis by (simp add: recv_message_def)
  next
    case False
    with assms(4) m have "recv_message_dropped E s w1 = (s', w')" by (simp add: recv_message_def)
    then have e: "s' = s\<lparr>sc_fin_received_or_recv_msg_dropped := True\<rparr>" "msgs w' = msgs w1" "fresh w' = fresh w1"
      "tg (quic w') \<subseteq> tg (quic w1)"
      using dropped_tg [of s w1] by (auto simp: recv_message_dropped_eq)
    have "evolves mview tg In w1 In w'"
      by (rule evolves_quiet) (use e evolves_typed [OF ev] in \<open>simp_all add: queue_def\<close>)
    moreover have "stream_ctx_ok mview In s' w'"
      by (rule stream_ctx_ok_change [OF ok]) (simp_all add: e queue_def recv_chain_def)
    ultimately show ?thesis using ev by (blast intro: evolves_trans)
  qed
qed

lemma handle_send_data_ends:
  assumes "ctx_valid s"
  obtains s' w' where "handle_send_data E ptr len s w = Some (s', w')" "msgs w' = msgs w" "fresh w' = fresh w"
    "sc_recv_msg s' = sc_recv_msg s" "sc_control_msg s' = sc_control_msg s"
    "rel_option swap_follows (sc_send_data s) (sc_send_data s')" "tg (quic w') \<subseteq> tg (quic w)"
proof (rule handle_send_data_total [OF assms memory, of ptr len w])
  fix s' w' fin sent D
  assume run: "handle_send_data E ptr len s w = Some (s', w')"
    and w': "w' = w\<lparr>datas := D, quic := (case picoquic_provide_stream_data_buffer E (quic w) ptr (length sent) fin
      (sc_active_buffer s' \<noteq> None) of (dest, q) \<Rightarrow> c_write E q dest sent)\<rparr>"
    and s': "\<exists>sd. s' = s\<lparr>sc_send_data := sd, sc_active_buffer := sc_active_buffer s', sc_stop_sending_or_fin_sent := fin,
      sc_data_send := (sc_data_send s \<or> sent \<noteq> [] \<or> sc_active_buffer s' \<noteq> None)\<rparr>"
    and rel: "rel_option (\<lambda>a b. polled dview a w b (w\<lparr>datas := D\<rparr>)) (sc_send_data s) (sc_send_data s')"
  from s' obtain sd where e: "s' = s\<lparr>sc_send_data := sd, sc_active_buffer := sc_active_buffer s',
    sc_stop_sending_or_fin_sent := fin, sc_data_send := (sc_data_send s \<or> sent \<noteq> [] \<or> sc_active_buffer s' \<noteq> None)\<rparr>" ..
  have "sc_recv_msg s' = sc_recv_msg s" "sc_control_msg s' = sc_control_msg s" by (subst e, simp)+
  moreover from rel have "rel_option swap_follows (sc_send_data s) (sc_send_data s')"
    by (rule option.rel_mono_strong) (simp add: polled_def)
  moreover have "tg (quic w') \<subseteq> tg (quic w)"
    using tg_write tg_provide unfolding w' by (simp add: split_beta) (meson subset_trans)
  ultimately show ?thesis using run by (intro that [of s' w']) (simp_all add: w')
qed

lemma stream_callback_ok:
  assumes "typed mview In w" "stream_ctx_ok mview In s w"
  obtains s' w' where "stream_handle_callback E ptr len event s w = Some (s', w')"
    "evolves mview tg In w In w'" "stream_ctx_ok mview In s' w'"
proof (cases "event = callback_prepare_to_send")
  case True
  have "ctx_valid s" using assms(2) by (auto simp: stream_ctx_ok_def intro: ctx_valid_chain)
  from handle_send_data_ends [OF this, of ptr len w] obtain s' w' where
    r: "handle_send_data E ptr len s w = Some (s', w')"
    "msgs w' = msgs w" "fresh w' = fresh w" "sc_recv_msg s' = sc_recv_msg s" "sc_control_msg s' = sc_control_msg s"
    "rel_option swap_follows (sc_send_data s) (sc_send_data s')" "tg (quic w') \<subseteq> tg (quic w)" .
  from chain_suffix [OF swap_follows_recv_chain [OF r(6), of "queue mview (sc_control_msg s) w"]] r(2-5)
  have "stream_ctx_ok mview In s' w'"
    by (intro stream_ctx_ok_change [OF assms(2)]) (simp_all add: queue_def)
  moreover have "evolves mview tg In w In w'"
    by (rule evolves_quiet) (use assms(1) r(2,3,7) in \<open>simp_all add: queue_def\<close>)
  moreover have "stream_handle_callback E ptr len event s w = Some (s', w')"
    using True r(1) by (simp add: stream_handle_callback_def)
  ultimately show ?thesis using that by blast
next
  case False
  define data where "data = c_read E (quic w) ptr len"
  define r1 where "r1 = (if data \<noteq> [] \<and> \<not> sc_fin_received_or_recv_msg_dropped s
    then recv_message E s (MRecvData data) w else (s, w))"
  obtain s1 w1 where 1: "r1 = (s1, w1)" by fastforce
  have ok1: "evolves mview tg In w In w1 \<and> stream_ctx_ok mview In s1 w1"
    using recv_message_ok [OF assms(1,2), of "MRecvData data" s1 w1] evolves_refl [OF assms(1)] assms(2) 1
    by (auto simp: r1_def split: if_splits)
  define r2 where "r2 = (if event = callback_stream_reset then
      recv_message E (s1\<lparr>sc_fin_received_or_recv_msg_dropped := True\<rparr>) MReset w1
    else if event = callback_stop_sending then
      close_send_data E (s1\<lparr>sc_stop_sending_or_fin_sent := True\<rparr>) w1
    else if event = callback_stream_fin then
      recv_message E (s1\<lparr>sc_fin_received_or_recv_msg_dropped := True\<rparr>) MClose w1
    else (s1, w1))"
  obtain s' w' where 2: "r2 = (s', w')" by fastforce
  let ?s = "s1\<lparr>sc_fin_received_or_recv_msg_dropped := True\<rparr>"
  have t: "typed mview In w1" using ok1 evolves_typed by blast
  have s: "stream_ctx_ok mview In ?s w1"
    using ok1 by (simp add: stream_ctx_ok_def recv_chain_def)
  have cl: "evolves mview tg In w1 In w' \<and> stream_ctx_ok mview In s' w'"
    if "close_send_data E (s1\<lparr>sc_stop_sending_or_fin_sent := True\<rparr>) w1 = (s', w')"
  proof -
    let ?r = "close_send_data E (s1\<lparr>sc_stop_sending_or_fin_sent := True\<rparr>) w1"
    have "s' = fst ?r" "w' = snd ?r" using that by simp_all
    then have e: "s' = s1\<lparr>sc_stop_sending_or_fin_sent := True, sc_send_data := None\<rparr>"
      "msgs w' = msgs w1" "fresh w' = fresh w1" "quic w' = quic w1"
      by simp_all
    have "evolves mview tg In w1 In w'"
      by (rule evolves_quiet) (use e t in \<open>simp_all add: queue_def\<close>)
    moreover have "stream_ctx_ok mview In s1 w1" using ok1 ..
    then have "stream_ctx_ok mview In s' w'"
      by (rule stream_ctx_ok_change) (auto simp: e queue_def recv_chain_def)
    ultimately show ?thesis ..
  qed
  have "evolves mview tg In w1 In w' \<and> stream_ctx_ok mview In s' w'"
    using 2 recv_message_ok [OF t s, of MReset s' w'] recv_message_ok [OF t s, of MClose s' w'] cl
      evolves_refl [OF t] ok1
    by (auto simp: r2_def split: if_splits)
  moreover have "stream_handle_callback E ptr len event s w = Some r2"
    using False 1 by (simp add: stream_handle_callback_def Let_def r1_def r2_def data_def [symmetric])
  ultimately show ?thesis using ok1 2 that by (metis evolves_trans)
qed

text \<open>Polling the context.\<close>

lemma poll_send_data_ends:
  assumes "ctx_valid s" "poll_send_data E s w = (r, s', w')"
  shows "msgs w' = msgs w" "fresh w' = fresh w" "sc_recv_msg s' = sc_recv_msg s"
    "sc_control_msg s' = sc_control_msg s" "suffix (recv_chain s' ms) (recv_chain s ms)"
    "tg (quic w') \<subseteq> tg (quic w)"
proof -
  have "tg (quic w') \<subseteq> tg (quic w) \<and> msgs w' = msgs w \<and> fresh w' = fresh w \<and> sc_recv_msg s' = sc_recv_msg s \<and>
    sc_control_msg s' = sc_control_msg s \<and> suffix (recv_chain s' ms) (recv_chain s ms)"
  proof (cases "\<exists>a. sc_active_buffer s = None \<and> sc_send_data s = Some a")
    case False
    with assms(2) show ?thesis by (auto simp: poll_send_data_def split: option.splits)
  next
    case True
    then obtain a where a: "sc_active_buffer s = None" "sc_send_data s = Some a" by blast
    obtain x b w1 where p: "data_poll E a w = (x, b, w1)" by (cases "data_poll E a w")
    have "data_valid a" using assms(1) a by (simp add: ctx_valid_def)
    from data_poll_polled [OF p this] obtain D where w1: "w1 = w\<lparr>datas := D\<rparr>" and f: "swap_follows a b"
      by (auto simp: polled_def)
    have suf: "suffix (recv_chain (s\<lparr>sc_send_data := Some b\<rparr>) ms) (recv_chain s ms)"
      by (rule swap_follows_recv_chain) (simp add: a f)
    have none: "suffix (swap_receivers ms) (recv_chain s ms)" by (simp add: recv_chain_def suffix_def)
    have act: "recv_chain (s\<lparr>sc_send_data := Some b, sc_active_buffer := y\<rparr>) ms =
        recv_chain (s\<lparr>sc_send_data := Some b\<rparr>) ms" for y
      by (simp add: recv_chain_def)
    have drp: "msgs (snd (handle_send_data_dropped E c v)) = msgs v" "fresh (snd (handle_send_data_dropped E c v)) = fresh v"
      "sc_recv_msg (fst (handle_send_data_dropped E c v)) = sc_recv_msg c"
      "sc_control_msg (fst (handle_send_data_dropped E c v)) = sc_control_msg c"
      "recv_chain (fst (handle_send_data_dropped E c v)) ms = swap_receivers ms"
      "tg (quic (snd (handle_send_data_dropped E c v))) \<subseteq> tg (quic v)" for c and v :: "('m, 'd, 'q, 'x) sworld"
      using tg_reset tg_mark
      by (auto simp: handle_send_data_dropped_def context_reset_eq recv_chain_def Let_def split: option.split)
    show ?thesis
    proof (cases "x = Ok (Ready None)")
      case True
      let ?r = "handle_send_data_dropped E (s\<lparr>sc_send_data := Some b\<rparr>) w1"
      from assms(2) a p True have "s' = fst ?r" "w' = snd ?r"
        by (simp_all add: poll_send_data_def)
      with w1 none drp(6) [of "s\<lparr>sc_send_data := Some b\<rparr>" w1] show ?thesis by (simp add: drp(1-5))
    next
      case False
      with assms(2) a p w1 suf act show ?thesis
        by (auto simp: poll_send_data_def split: result.splits async.splits option.splits
            dest: tg_mark [THEN subsetD])
    qed
  qed
  then show "msgs w' = msgs w" "fresh w' = fresh w" "sc_recv_msg s' = sc_recv_msg s"
    "sc_control_msg s' = sc_control_msg s" "suffix (recv_chain s' ms) (recv_chain s ms)"
    "tg (quic w') \<subseteq> tg (quic w)"
    by blast+
qed

lemma fold_control_handles:
  assumes "fold (control_step E) ms (s, w) = (s', w')"
  shows "sc_recv_msg s' = sc_recv_msg s \<and> sc_control_msg s' = sc_control_msg s \<and> fresh w' = fresh w \<and>
    msgs w' = msgs w \<and> tg (quic w') \<subseteq> tg (quic w)"
  using assms
proof (induction ms arbitrary: s w)
  case (Cons m ms)
  obtain s1 w1 where st: "control_step E m (s, w) = (s1, w1)" by fastforce
  then have "tg (quic w1) \<subseteq> tg (quic w)"
    by (cases m) (auto simp: context_reset_eq set_swap_to_def split: option.splits dest: tg_reset [THEN subsetD])
  with Cons control_step_handles [OF st] st show ?case by auto
qed simp

lemma stream_context_poll_ok:
  assumes "typed mview In w" "stream_ctx_ok mview In s w"
  obtains r s' w' where "stream_context_poll E s w = Some (Ok r, s', w')"
    "evolves mview tg In w In w'" "stream_ctx_ok mview In s' w'"
proof -
  let ?h = "sc_control_msg s"
  let ?q = "cv_buffer (mview (msgs w ?h))"
  have ctl: "\<forall>m\<in>set ?q. control_message m"
    using typed_control [OF assms(1), of ?h] assms(2) by (simp add: stream_ctx_ok_def queue_def)
  obtain ch s1 w1 w2 where f: "fold (control_step E) ?q (s, w) = (s1, w1)"
    and w2: "w2 = w1\<lparr>msgs := (msgs w)(?h := ch)\<rparr>" "mview ch = mview (msgs w ?h)\<lparr>cv_buffer := []\<rparr>"
    and run: "poll_control_msg E s w = Some (if view_ended (mview (msgs w ?h))
      then (Ok (Ready ()), recv_message_dropped E s1 w2) else (Ok NotReady, s1, w2))"
    by (rule poll_control_msg_fold [OF ctl]) blast
  have chain: "distinct (recv_chain s1 [])" "set (recv_chain s1 []) \<subseteq> set (recv_chain s ?q)"
    using fold_control_step_chain [OF _ f] assms(2) by (simp_all add: stream_ctx_ok_def queue_def)
  note h = fold_control_handles [OF f]
  have ev2: "evolves mview tg In w In w2"
    by (rule evolves_one [where h = ?h and k = "length ?q" and new = "[]"])
       (use assms(1) w2 h in \<open>simp_all add: queue_def\<close>)
  have ok2: "stream_ctx_ok mview In s1 w2"
    by (rule stream_ctx_ok_change [OF assms(2)]) (use chain h w2 in \<open>simp_all add: queue_def\<close>)
  obtain r s3 w3 where p: "poll_control_msg E s w = Some (Ok r, s3, w3)"
    and s3: "s3 = s1\<lparr>sc_fin_received_or_recv_msg_dropped := sc_fin_received_or_recv_msg_dropped s3\<rparr>"
      "msgs w3 = msgs w2" "fresh w3 = fresh w2" "tg (quic w3) \<subseteq> tg (quic w2)"
  proof (cases "view_ended (mview (msgs w ?h))")
    case True
    let ?r = "recv_message_dropped E s1 w2"
    from True run have "poll_control_msg E s w = Some (Ok (Ready ()), fst ?r, snd ?r)" by simp
    then show ?thesis by (rule that) (simp_all add: recv_message_dropped_eq tg_stop)
  next
    case False
    then have "poll_control_msg E s w = Some (Ok NotReady, s1, w2)" using run by simp
    then show ?thesis by (rule that) simp_all
  qed
  have e3: "sc_recv_msg s3 = sc_recv_msg s1" "sc_control_msg s3 = sc_control_msg s1"
    "recv_chain s3 ms = recv_chain s1 ms" for ms
    by (subst s3(1), simp add: recv_chain_def)+
  have ev3: "evolves mview tg In w2 In w3"
    by (rule evolves_quiet) (use evolves_typed [OF ev2] s3(2-4) in \<open>simp_all add: queue_def\<close>)
  have ok3: "stream_ctx_ok mview In s3 w3"
    by (rule stream_ctx_ok_change [OF ok2]) (simp_all add: e3 s3(2,3) queue_def)
  have v: "ctx_valid s3" using ok3 by (auto simp: stream_ctx_ok_def intro: ctx_valid_chain)
  obtain s4 w4 where p4: "poll_send_data E s3 w3 = (Ok (), s4, w4)"
    using poll_send_data_total [OF v, of w3] by metis
  note e4 = poll_send_data_ends [OF v p4]
  have "evolves mview tg In w3 In w4"
    by (rule evolves_quiet) (use evolves_typed [OF ev3] e4 in \<open>simp_all add: queue_def\<close>)
  then have "evolves mview tg In w In w4" using ev2 ev3 by (blast intro: evolves_trans)
  moreover have "stream_ctx_ok mview In s4 w4"
    by (rule stream_ctx_ok_change [OF ok3]) (use e4 chain_suffix [OF e4(5)] in \<open>simp_all add: queue_def\<close>)
  moreover have "stream_context_poll E s w = Some (Ok (if sc_stop_sending_or_fin_sent s4 \<and>
      sc_fin_received_or_recv_msg_dropped s4 then Ready () else NotReady), s4, w4)"
    using p p4 by (simp add: stream_context_poll_def)
  ultimately show ?thesis using that by blast
qed

lemma handle_connection_ok:
  assumes "typed mview In w" "stream_ctx_ok mview In s w"
  shows "handle_connection_close E s w = (s', w') \<Longrightarrow> evolves mview tg In w In w' \<and> stream_ctx_ok mview In s' w'"
    and "handle_connection_error E err s w = (s', w') \<Longrightarrow> evolves mview tg In w In w' \<and> stream_ctx_ok mview In s' w'"
proof -
  show "handle_connection_close E s w = (s', w') \<Longrightarrow> evolves mview tg In w In w' \<and> stream_ctx_ok mview In s' w'"
    using recv_message_ok [OF assms, of MClose] by (simp add: handle_connection_close_def)
  assume run: "handle_connection_error E err s w = (s', w')"
  obtain s1 w1 where r: "recv_message E s (MError (err ())) w = (s1, w1)" by fastforce
  with recv_message_ok [OF assms, of "MError (err ())"]
  have 1: "evolves mview tg In w In w1" "stream_ctx_ok mview In s1 w1" by auto
  from run r have e: "s' = s1" "msgs w' = msgs w1" "fresh w' = fresh w1" "quic w' = quic w1"
    by (auto simp: handle_connection_error_def Let_def split: option.splits)
  have "evolves mview tg In w1 In w'"
    by (rule evolves_quiet) (use evolves_typed [OF 1(1)] e in \<open>simp_all add: queue_def\<close>)
  then show "evolves mview tg In w In w' \<and> stream_ctx_ok mview In s' w'"
    using 1 e stream_ctx_ok_evolves by (blast intro: evolves_trans)
qed

lemma stream_context_drop_evolves:
  assumes "typed mview In w" "stream_ctx_ok mview In s w"
  shows "evolves mview tg In w In (stream_context_drop E s w)"
proof -
  define w1 where "w1 = snd (msg_send E (sc_recv_msg s) MClose w)"
  define w2 where "w2 = snd (close_send_data E s w1)"
  define w3 where "w3 = msg_drop_tx E (sc_recv_msg s) w2"
  have 1: "evolves mview tg In w In w1"
    unfolding w1_def using assms
    by (intro msg_send_evolves) (simp_all add: typed_message_def stream_ctx_ok_def)
  have 2: "evolves mview tg In w1 In w2"
    by (rule evolves_quiet) (use evolves_typed [OF 1] in \<open>simp_all add: w2_def queue_def\<close>)
  have 3: "evolves mview tg In w2 In w3" unfolding w3_def by (rule msg_drop_evolves [OF evolves_typed [OF 2]])
  have "evolves mview tg In w3 In (msg_drop_rx E (sc_control_msg s) w3)"
    by (rule msg_drop_evolves [OF evolves_typed [OF 3]])
  moreover have "stream_context_drop E s w = msg_drop_rx E (sc_control_msg s) w3"
    by (simp add: stream_context_drop_def w1_def w2_def w3_def Let_def split_beta)
  ultimately show ?thesis using 1 2 3 by (metis evolves_trans)
qed

section \<open>The user's stream\<close>

lemma stream_new_ok:
  assumes "typed mview In w" "stream_new E sid cnx la ic sz w = Some (st, s, w')"
  defines "In' \<equiv> insert (fresh w) In"
  shows "evolves mview tg In w In' w'" "stream_ctx_ok mview In' s w'" "stream_ok In' st w'"
proof -
  note n = stream_new_world [OF assms(2)]
  have q: "queue mview h w' = (if h = fresh w \<or> h = Suc (fresh w) then [] else queue mview h w)" for h
    using n(5,6,11) by (simp add: queue_def view_new_def)
  have out: "Suc (fresh w) \<notin> In'" "fresh w \<notin> In" using assms(1) by (auto simp: In'_def typed_def)
  have "typed mview In' w'"
    using assms(1) n(12) out
    by (auto simp: typed_def q In'_def typed_message_def split: if_splits)
  moreover have "queue_evolves (fresh w) (fresh w') (queue mview h w) (queue mview h w')" for h
    unfolding q queue_evolves_def
    by (cases "h = fresh w \<or> h = Suc (fresh w)")
       (auto intro: exI [of _ "length (queue mview h w)"] exI [of _ 0] exI [of _ "[]"])
  ultimately show "evolves mview tg In w In' w'" using n(7,12) by (auto simp: evolves_def In'_def)
  show "stream_ctx_ok mview In' s w'"
    using n(3,4,9,10,12) out
    by (auto simp: stream_ctx_ok_def q recv_chain_def swappable_chain_def swappable_new_def In'_def split: option.splits)
  show "stream_ok In' st w'" using n(1,2,12) out by (simp add: stream_ok_def In'_def)
qed

lemma stream_drop_evolves:
  assumes "typed mview In w"
  shows "evolves mview tg In w In (stream_drop E st w)"
proof -
  define w1 where "w1 = msg_drop_rx E (st_recv_msg st) w"
  define w2 where "w2 = msg_drop_tx E (st_control_msg st) w1"
  have 1: "evolves mview tg In w In w1" unfolding w1_def by (rule msg_drop_evolves [OF assms])
  have 2: "evolves mview tg In w1 In w2" unfolding w2_def by (rule msg_drop_evolves [OF evolves_typed [OF 1]])
  have "stream_drop E st w = (case st_send_data st of Some h \<Rightarrow> data_drop_tx E h w2 | None \<Rightarrow> w2)"
    by (simp add: stream_drop_def w2_def w1_def Let_def split: option.split)
  then have "evolves mview tg In w2 In (stream_drop E st w)"
    using evolves_typed [OF 2] by (intro evolves_quiet) (simp_all add: queue_def split: option.split)
  with 1 2 show ?thesis by (blast intro: evolves_trans)
qed

lemma stream_poll_ok:
  assumes "typed mview In w" "stream_ok In st w"
  obtains r st' w' where "stream_poll E st w = Some (r, st', w')" "evolves mview tg In w In w'" "stream_ok In st' w'"
proof -
  have i: "\<forall>m\<in>set (cv_buffer (mview (msgs w (st_recv_msg st)))). \<not> is_swap m"
    using typed_inbox [OF assms(1), of "st_recv_msg st"] assms(2) by (simp add: stream_ok_def queue_def)
  obtain r st' ch where p: "stream_poll E st w = Some (r, st', w\<lparr>msgs := (msgs w)(st_recv_msg st := ch)\<rparr>)"
    "st_recv_msg st' = st_recv_msg st" "st_control_msg st' = st_control_msg st"
    by (rule user_poll_world [OF i]) blast
  have w': "snd (msg_poll E (st_recv_msg st) w) = w\<lparr>msgs := (msgs w)(st_recv_msg st := ch)\<rparr>"
    using p(1) by (cases "msg_poll E (st_recv_msg st) w")
      (auto simp: stream_poll_def split: result.splits async.splits option.splits message.splits)
  have "evolves mview tg In w In (w\<lparr>msgs := (msgs w)(st_recv_msg st := ch)\<rparr>)"
    using msg_poll_evolves [OF assms(1), of "st_recv_msg st"] by (simp add: w')
  moreover have "stream_ok In st' (w\<lparr>msgs := (msgs w)(st_recv_msg st := ch)\<rparr>)"
    using assms(2) p(2,3) by (simp add: stream_ok_def)
  ultimately show ?thesis using p(1) that by blast
qed

lemma stream_reset_evolves:
  assumes "typed mview In w" "stream_ok In st w"
  shows "evolves mview tg In w In (snd (stream_reset E st w))"
  using msg_send_evolves [OF assms(1), of "st_control_msg st" MReset] assms(2)
  by (simp add: stream_reset_def split_beta typed_message_def stream_ok_def)

lemma sink_evolves:
  assumes "typed mview In w"
  shows "evolves mview tg In w In (snd (stream_start_send E item st w))"
    "evolves mview tg In w In (snd (stream_poll_complete E st w))"
  by (rule evolves_quiet;
      use assms in \<open>simp add: stream_start_send_def stream_poll_complete_def queue_def split_beta split: result.split\<close>)+

lemma resize_ok:
  assumes "typed mview In w" "stream_ok In st w" "set_send_channel_size E sz st w = (st', w')"
  shows "evolves mview tg In w In w'" "stream_ok In st' w'"
proof -
  have "evolves mview tg In w In w' \<and> stream_ok In st' w'"
  proof (cases "st_send_data st")
    case None
    with assms(3) have "st' = st" "w' = w" by (simp_all add: set_send_channel_size_def)
    with assms(1,2) show ?thesis by (simp add: evolves_refl)
  next
    case (Some old)
    let ?w = "w\<lparr>datas := (datas w)(fresh w := channel (data_ops E) sz), fresh := Suc (fresh w)\<rparr>"
    let ?m = "MSwapSendData (fresh w) old" and ?h = "st_control_msg st"
    obtain ch b D where m: "msg_send E ?h ?m ?w = (b, ?w\<lparr>msgs := (msgs ?w)(?h := ch), datas := D\<rparr>)"
      "cv_buffer (mview ch) = cv_buffer (mview (msgs ?w ?h)) @ (if b then [?m] else [])"
      using msg_send_world [where h = ?h and m = ?m and w = ?w] by metis
    have st': "st' = st\<lparr>st_send_data := Some (fresh w)\<rparr>"
      and w': "w' = ?w\<lparr>msgs := (msgs w)(?h := ch), datas := D\<rparr>"
      using assms(3) Some m(1) by (simp_all add: set_send_channel_size_def new_data_chan_def)
    have q: "queue mview h w' = queue mview h w @ (if h = ?h \<and> b then [?m] else [])" for h
      using m(2) by (simp add: w' queue_def)
    have "fresh w' = Suc (fresh w)" by (simp add: w')
    then have "typed mview In w'"
      using assms(1,2) by (auto simp: typed_def q typed_message_def stream_ok_def less_Suc_eq)
    moreover have "queue_evolves (fresh w) (fresh w') (queue mview h w) (queue mview h w')" for h
      unfolding q queue_evolves_def
      by (rule exI [of _ 0], rule exI [of _ "if h = ?h \<and> b then [?m] else []"]) (simp add: w')
    ultimately have "evolves mview tg In w In w'" by (simp add: evolves_def w')
    moreover have "stream_ok In st' w'" using assms(2) by (simp add: stream_ok_def st' w')
    ultimately show ?thesis ..
  qed
  then show "evolves mview tg In w In w'" "stream_ok In st' w'" by blast+
qed

end

end
