(* ===== verification/Connection_Typing.thy ===== *)
theory Connection_Typing
  imports Stream_Typing
begin

text \<open>
  The type system of the streams carried over to connections (\<^verbatim>\<open>src/connection.rs\<close>):
  every operation on the context of a connection returns in a well-typed world, whatever the
  interleaving with other connections and with users, and leaves a well-typed world behind.
\<close>

section \<open>Well-typed contexts and worlds\<close>

text \<open>The counter of a context cannot overflow on the requests that are waiting for it.\<close>

definition con_ctx_ok where
  "con_ctx_ok mview rview In c w \<longleftrightarrow>
     (\<forall>e\<in>set (cc_streams c). stream_ctx_ok mview In (snd e) w) \<and> con_inv c \<and>
     unat (cc_next_stream_id c) + length (request_queue rview c w) < 2 ^ 62"

text \<open>Streams that are on their way to a user.\<close>

definition offered where
  "offered cview sview w =
     {st. \<exists>h. CNewStream st \<in> set (cv_buffer (cview (con_msgs w h)))} \<union>
     {st. \<exists>h. ov_value (sview (sfuts w h)) = Some (Ok st)}"

definition con_world_ok where
  "con_world_ok mview cview rview sview In w \<longleftrightarrow>
     typed mview In w \<and> (\<forall>h c n. ctxs w h = Some (c, n) \<longrightarrow> con_ctx_ok mview rview In c w) \<and>
     (\<forall>st\<in>offered cview sview w. stream_ok In st w)"

text \<open>The receiver of a one-shot channel that is gone does not come back, and none goes but
  those in \<open>D\<close>.\<close>

definition gone_stays where
  "gone_stays uview D w w' \<longleftrightarrow>
     (\<forall>h<fresh w. (ov_rx (uview (units w' h)) \<longrightarrow> ov_rx (uview (units w h))) \<and>
        (h \<notin> D \<longrightarrow> ov_rx (uview (units w h)) \<longrightarrow> ov_rx (uview (units w' h))))"

text \<open>What the operations of a context do to the rest of the world.\<close>

definition con_evolves where
  "con_evolves mview tg cview rview sview uview D In w In' w' \<longleftrightarrow>
     evolves mview tg In w In' w' \<and> ctxs w' = ctxs w \<and> gone_stays uview D w w' \<and> con_world.more w' = con_world.more w \<and>
     (\<forall>h. length (cv_buffer (rview (ce_chan (reqs w' h)))) \<le> length (cv_buffer (rview (ce_chan (reqs w h))))) \<and>
     (\<forall>st\<in>offered cview sview w'. st \<in> offered cview sview w \<or> stream_ok In' st w')"

lemma gone_stays_refl [simp]: "gone_stays uview D w w"
  by (simp add: gone_stays_def)

lemma gone_stays_trans:
  "gone_stays uview D w w1 \<Longrightarrow> gone_stays uview D w1 w2 \<Longrightarrow> fresh w \<le> fresh w1 \<Longrightarrow> gone_stays uview D w w2"
  unfolding gone_stays_def by (meson less_le_trans)

lemma gone_stays_mono: "gone_stays uview D w w' \<Longrightarrow> D \<subseteq> D' \<Longrightarrow> gone_stays uview D' w w'"
  unfolding gone_stays_def by blast

lemma con_evolves_refl: "typed mview In w \<Longrightarrow> con_evolves mview tg cview rview sview uview D In w In w"
  by (simp add: con_evolves_def evolves_refl)

lemma con_evolves_mono:
  "con_evolves mview tg cview rview sview uview D In w In' w' \<Longrightarrow> D \<subseteq> D' \<Longrightarrow>
   con_evolves mview tg cview rview sview uview D' In w In' w'"
  unfolding con_evolves_def by (blast intro: gone_stays_mono)

lemma con_evolves_typed: "con_evolves mview tg cview rview sview uview D In w In' w' \<Longrightarrow> typed mview In' w'"
  unfolding con_evolves_def by (blast dest: evolves_typed)

lemma con_evolves_trans [trans]:
  assumes "con_evolves mview tg cview rview sview uview D In w In1 w1" "con_evolves mview tg cview rview sview uview D In1 w1 In2 w2"
  shows "con_evolves mview tg cview rview sview uview D In w In2 w2"
proof -
  from assms have e: "evolves mview tg In w In1 w1" "evolves mview tg In1 w1 In2 w2" "ctxs w2 = ctxs w"
    "con_world.more w2 = con_world.more w"
    by (simp_all add: con_evolves_def)
  have "st \<in> offered cview sview w \<or> stream_ok In2 st w2" if "st \<in> offered cview sview w2" for st
    using that assms stream_ok_evolves [OF _ e(2)] unfolding con_evolves_def by blast
  moreover have "length (cv_buffer (rview (ce_chan (reqs w2 h)))) \<le> length (cv_buffer (rview (ce_chan (reqs w h))))" for h
    using assms unfolding con_evolves_def by (meson order_trans)
  moreover have "gone_stays uview D w w2"
    using assms evolves_mono [OF e(1)] by (auto simp: con_evolves_def intro: gone_stays_trans)
  ultimately show ?thesis using e evolves_trans [OF e(1,2)] by (simp add: con_evolves_def)
qed

lemma con_ctx_ok_evolves:
  assumes "con_ctx_ok mview rview In c w" "con_evolves mview tg cview rview sview uview D In w In' w'"
  shows "con_ctx_ok mview rview In' c w'"
proof -
  from assms(2) have "length (request_queue rview c w') \<le> length (request_queue rview c w)"
    by (simp add: con_evolves_def request_queue_def)
  with assms show ?thesis
    unfolding con_ctx_ok_def con_evolves_def by (meson add_le_mono le_less_trans order_refl stream_ctx_ok_evolves)
qed

lemma con_world_ok_evolves:
  assumes "con_world_ok mview cview rview sview In w" "con_evolves mview tg cview rview sview uview D In w In' w'"
  shows "con_world_ok mview cview rview sview In' w'"
proof -
  have "con_ctx_ok mview rview In' c w'" if "ctxs w' h = Some (c, n)" for h c n
    using that assms con_ctx_ok_evolves [OF _ assms(2)]
    unfolding con_world_ok_def con_evolves_def by metis
  moreover have "stream_ok In' st w'" if "st \<in> offered cview sview w'" for st
    using that assms stream_ok_evolves [of In st w mview tg In' w']
    unfolding con_world_ok_def con_evolves_def by blast
  ultimately show ?thesis
    using con_evolves_typed [OF assms(2)] by (simp add: con_world_ok_def)
qed

lemma offered_more:
  assumes "world.more w' = world.more w"
  shows "offered cview sview w' = offered cview sview w"
  by (simp add: offered_def more_eqD [OF assms])

text \<open>An operation of a stream is one of its connection.\<close>

lemma con_evolves_stream:
  assumes "evolves mview tg In w In' w'" "world.more w' = world.more w"
  shows "con_evolves mview tg cview rview sview uview D In w In' w'"
proof -
  have "con_world.more w' = con_world.more w" using assms(2) by (cases w; cases w'; simp)
  with assms(1) show ?thesis
    by (simp add: con_evolves_def gone_stays_def offered_more [OF assms(2)] more_eqD [OF assms(2)])
qed

lemma con_evolves_quiet:
  assumes "typed mview In w" "fresh w \<le> fresh w'" "tg (quic w') \<subseteq> tg (quic w)" "msgs w' = msgs w" "ctxs w' = ctxs w"
    and "con_world.more w' = con_world.more w" "gone_stays uview D w w'"
    and "\<And>h. length (cv_buffer (rview (ce_chan (reqs w' h)))) \<le> length (cv_buffer (rview (ce_chan (reqs w h))))"
    and "offered cview sview w' \<subseteq> offered cview sview w"
  shows "con_evolves mview tg cview rview sview uview D In w In w'"
proof -
  have "evolves mview tg In w In w'"
    by (rule evolves_quiet) (use assms in \<open>simp_all add: queue_def\<close>)
  with assms show ?thesis by (auto simp: con_evolves_def)
qed

lemma con_evolves_fold:
  assumes "typed mview In w"
    and "\<And>x w. x \<in> set xs \<Longrightarrow> typed mview In w \<Longrightarrow> con_evolves mview tg cview rview sview uview D In w In (f x w)"
  shows "con_evolves mview tg cview rview sview uview D In w In (fold f xs w)"
  using assms
proof (induction xs arbitrary: w)
  case Nil
  then show ?case by (simp add: con_evolves_refl)
next
  case (Cons x xs)
  have 1: "con_evolves mview tg cview rview sview uview D In w In (f x w)" using Cons.prems by simp
  have "con_evolves mview tg cview rview sview uview D In (f x w) In (fold f xs (f x w))"
    using Cons.prems con_evolves_typed [OF 1] by (intro Cons.IH) simp_all
  with 1 show ?case by (simp add: con_evolves_trans)
qed

section \<open>Ends of channels\<close>

text \<open>What the sources rely on in the C library besides: addresses are v4 or v6, and a context is
  called back only when it was set.\<close>

definition inet_addresses :: "('m, 'd, 'q, 'e) senv \<Rightarrow> bool" where
  "inet_addresses E \<longleftrightarrow> (\<forall>q a. socket_addr_from_sockaddr E q a \<noteq> None)"

locale connection_library =
  connection_channels E mview dview cview rview uview sview nview + stream_library E mview dview tg
  for E :: "('m, 'd, 'q, 'c, 'r, 'u, 's, 'n, 'e) cenv" and mview dview cview rview uview sview nview tg +
  assumes addresses: "inet_addresses E"
    and tg_unset: "tg (picoquic_set_callback E q cnx None) \<subseteq> tg q"
    and tg_set: "tg (picoquic_set_callback E q cnx (Some h)) \<subseteq> insert h (tg q)"
    and tg_close: "tg (picoquic_close E q cnx code) \<subseteq> tg q"
    and tg_keep_alive: "tg (picoquic_enable_keep_alive E q cnx n) \<subseteq> tg q"
    and tg_create: "tg (snd (picoquic_create_client_cnx E q qctx addr t v name alpn)) \<subseteq> tg q"
begin

abbreviation evo where
  "evo \<equiv> con_evolves mview tg cview rview sview uview {}"

lemma stream_drop_evo: "typed mview In w \<Longrightarrow> evo In w In (stream_drop E st w)"
  by (rule con_evolves_stream [OF stream_drop_evolves]) (simp_all add: frame_simps)

lemma drop_con_message_evo: "typed mview In w \<Longrightarrow> evo In w In (drop_con_message E m w)"
  by (cases m) (simp_all add: stream_drop_evo con_evolves_refl)

lemma drop_stream_result_evo: "typed mview In w \<Longrightarrow> evo In w In (drop_stream_result E r w)"
  by (cases r) (simp_all add: stream_drop_evo con_evolves_refl)

lemma con_send_evo:
  assumes "typed mview In w" "\<And>st. m = CNewStream st \<Longrightarrow> stream_ok In st w"
  shows "evo In w In (con_send E h m w)"
proof -
  obtain r ch where s: "mpsc_unbounded_send (con_ops E) (con_msgs w h) m = (r, ch)" by fastforce
  have v: "r = fst (view_send (cview (con_msgs w h)) m)" "cview ch = snd (view_send (cview (con_msgs w h)) m)"
    using cch.unbounded_send_fst [of "con_msgs w h" m] cch.unbounded_send_snd [of "con_msgs w h" m] s by simp_all
  let ?w = "w\<lparr>con_msgs := (con_msgs w)(h := ch)\<rparr>"
  have new: "st \<in> offered cview sview w \<or> m = CNewStream st" if "st \<in> offered cview sview ?w" for st
    using that v(2) by (auto simp: offered_def view_send_def split: if_splits)
  have "evolves mview tg In w In ?w"
    by (rule evolves_quiet) (use assms(1) in \<open>simp_all add: queue_def\<close>)
  moreover have "stream_ok In st ?w" if "m = CNewStream st" for st
    using assms(2) [OF that] by (simp add: stream_ok_def)
  ultimately have 1: "evo In w In ?w" using new by (auto simp: con_evolves_def gone_stays_def)
  show ?thesis
  proof (cases r)
    case (Ok x)
    with s 1 show ?thesis by (simp add: con_send_def Let_def)
  next
    case (Err m')
    with s have "con_send E h m w = drop_con_message E m' ?w" by (simp add: con_send_def Let_def)
    with 1 drop_con_message_evo [OF con_evolves_typed [OF 1], of m'] show ?thesis
      by (metis con_evolves_trans)
  qed
qed

lemma sfut_send_evo:
  assumes "typed mview In w" "\<And>st. v = Ok st \<Longrightarrow> stream_ok In st w"
  shows "evo In w In (sfut_send E h v w)"
proof -
  obtain r ch where s: "os_send (sfut_ops E) (sfuts w h) v = (r, ch)" by fastforce
  have o: "r = fst (ov_send (sview (sfuts w h)) v)" "sview ch = snd (ov_send (sview (sfuts w h)) v)"
    using sch.send_fst [of "sfuts w h" v] sch.send_snd [of "sfuts w h" v] s by simp_all
  let ?w = "w\<lparr>sfuts := (sfuts w)(h := ch)\<rparr>"
  have new: "st \<in> offered cview sview w \<or> v = Ok st" if "st \<in> offered cview sview ?w" for st
    using that o(2) by (auto simp: offered_def ov_send_def split: if_splits)
  have "evolves mview tg In w In ?w"
    by (rule evolves_quiet) (use assms(1) in \<open>simp_all add: queue_def\<close>)
  moreover have "stream_ok In st ?w" if "v = Ok st" for st
    using assms(2) [OF that] by (simp add: stream_ok_def)
  ultimately have 1: "evo In w In ?w" using new by (auto simp: con_evolves_def gone_stays_def)
  show ?thesis
  proof (cases r)
    case (Ok x)
    with s 1 show ?thesis by (simp add: sfut_send_def Let_def)
  next
    case (Err v')
    with s have "sfut_send E h v w = drop_stream_result E v' ?w" by (simp add: sfut_send_def Let_def)
    with 1 drop_stream_result_evo [OF con_evolves_typed [OF 1], of v'] show ?thesis
      by (metis con_evolves_trans)
  qed
qed

lemma offered_sfuts:
  assumes "con_msgs w' = con_msgs w" "\<And>h. ov_value (sview (sfuts w' h)) = ov_value (sview (sfuts w h))"
  shows "offered cview sview w' = offered cview sview w"
  using assms by (simp add: offered_def)

lemma sfut_drop_tx_evo: "typed mview In w \<Longrightarrow> evo In w In (sfut_drop_tx E h w)"
  by (rule con_evolves_quiet) (auto simp: sfut_drop_tx_def offered_def gone_stays_def sch.oview_drop_tx split: if_splits)

lemma plain_drops_evo:
  assumes "typed mview In w"
  shows "evo In w In (req_drop_tx E h w)" "evo In w In (unit_drop_tx E h w)" "evo In w In (cfut_drop_tx E h w)"
  by (rule con_evolves_quiet;
      use assms in \<open>auto simp: req_drop_tx_def unit_drop_tx_def cfut_drop_tx_def offered_def gone_stays_def rch.sender_drop_view\<close>)+

lemma req_drop_rx_evo:
  assumes "typed mview In w"
  shows "evo In w In (req_drop_rx E h w)"
proof -
  obtain rs ce where r: "receiver_drop (req_ops E) (reqs w h) = (rs, ce)" by fastforce
  have ce: "cv_buffer (rview (ce_chan ce)) = []"
    using rch.receiver_drop_view(1) [of "reqs w h"] r by simp
  let ?w = "w\<lparr>reqs := (reqs w)(h := ce)\<rparr>"
  have 1: "evo In w In ?w"
    by (rule con_evolves_quiet) (use assms ce in \<open>auto simp: offered_def gone_stays_def\<close>)
  have "evo In ?w In (fold (\<lambda>(_, sender). sfut_drop_tx E sender) rs ?w)"
    by (rule con_evolves_fold) (use con_evolves_typed [OF 1] sfut_drop_tx_evo in \<open>auto split: prod.splits\<close>)
  with 1 r show ?thesis by (simp add: req_drop_rx_def con_evolves_trans)
qed

lemma con_drop_rx_evo:
  assumes "typed mview In w"
  shows "evo In w In (con_drop_rx E h w)"
proof -
  obtain ms ch where r: "mpsc_drop_rx (con_ops E) (con_msgs w h) = (ms, ch)" by fastforce
  have ch: "cv_buffer (cview ch) = []" using cch.drop_rx_snd [of "con_msgs w h"] r by simp
  let ?w = "w\<lparr>con_msgs := (con_msgs w)(h := ch)\<rparr>"
  have 1: "evo In w In ?w"
    by (rule con_evolves_quiet) (use assms ch in \<open>auto simp: offered_def gone_stays_def split: if_splits\<close>)
  have "evo In ?w In (fold (drop_con_message E) ms ?w)"
    by (rule con_evolves_fold) (use con_evolves_typed [OF 1] drop_con_message_evo in auto)
  with 1 r show ?thesis by (simp add: con_drop_rx_def con_evolves_trans)
qed

lemma con_drop_tx_evo:
  "typed mview In w \<Longrightarrow>
   evo In w In (w\<lparr>con_msgs := (con_msgs w)(h := mpsc_drop_tx (con_ops E) (con_msgs w h))\<rparr>)"
  by (rule con_evolves_quiet) (auto simp: offered_def gone_stays_def cch.view_of_drop_tx split: if_splits)

lemma connection_drop_evo:
  assumes "typed mview In w"
  shows "evo In w In (connection_drop E con w)"
proof -
  let ?w1 = "con_drop_rx E (con_msg_recv con) w"
  let ?w2 = "case con_close_send con of Some h \<Rightarrow> unit_drop_tx E h ?w1 | None \<Rightarrow> ?w1"
  have 1: "evo In w In ?w1" by (rule con_drop_rx_evo [OF assms])
  then have t1: "typed mview In ?w1" by (rule con_evolves_typed)
  have 2: "evo In ?w1 In ?w2" 
    by (cases "con_close_send con") (simp_all add: plain_drops_evo(2) [OF t1] con_evolves_refl [OF t1])
  have "evo In ?w2 In (req_drop_tx E (con_new_stream_handle con) ?w2)"
    by (rule plain_drops_evo(1) [OF con_evolves_typed [OF 2]])
  with 1 2 show ?thesis unfolding connection_drop_def Let_def by (blast intro: con_evolves_trans)
qed

lemma builder_drop_evo:
  assumes "typed mview In w"
  shows "evo In w In (builder_drop E b w)"
proof -
  have "builder_drop E b w = connection_drop E (builder_build b 0) w"
    by (simp add: builder_drop_def connection_drop_def builder_build_def)
  with connection_drop_evo [OF assms] show ?thesis by simp
qed

lemma cfut_send_evo:
  assumes "typed mview In w"
  shows "evo In w In (cfut_send E h v w)"
proof -
  obtain r ch where s: "os_send (cfut_ops E) (cfuts w h) v = (r, ch)" by fastforce
  let ?w = "w\<lparr>cfuts := (cfuts w)(h := ch)\<rparr>"
  have 1: "evo In w In ?w" by (rule con_evolves_quiet) (use assms in \<open>simp_all add: offered_def gone_stays_def\<close>)
  have d: "evo In ?w In (drop_connection_result E x ?w)" for x
    by (cases x) (use con_evolves_typed [OF 1] in \<open>simp_all add: connection_drop_evo con_evolves_refl\<close>)
  show ?thesis
    using s 1 con_evolves_trans [OF 1 d] by (simp add: cfut_send_def Let_def split: result.split)
qed

section \<open>Streams of a context\<close>

lemma peer_always_known: "\<exists>a. cnx_peer_addr E q cnx = Some a"
  using addresses unfolding cnx_peer_addr_def inet_addresses_def by (metis not_None_eq)

lemma quic_evo: "typed mview In w \<Longrightarrow> tg q \<subseteq> tg (quic w) \<Longrightarrow> evo In w In (w\<lparr>quic := q\<rparr>)"
  by (rule con_evolves_quiet) (simp_all add: offered_def gone_stays_def)

lemma stream_new_evo:
  assumes "typed mview In w"
  obtains In' st s w' where "stream_new E sid cnx la ic sz w = Some (st, s, w')"
    "evo In w In' w'" "stream_ctx_ok mview In' s w'" "stream_ok In' st w'" "world.more w' = world.more w"
proof -
  obtain a where "cnx_peer_addr E (quic w) cnx = Some a" using peer_always_known by blast
  then obtain st s w' where n: "stream_new E sid cnx la ic sz w = Some (st, s, w')"
    "world.more w' = world.more w"
    using stream_new_total by metis
  note ok = stream_new_ok [OF assms n(1)]
  show ?thesis by (rule that [OF n(1) con_evolves_stream [OF ok(1) n(2)] ok(2,3) n(2)])
qed

lemma streams_update_subset: "set (streams_update k s ss) \<subseteq> insert (k, s) (set ss)"
  by (induction k s ss rule: streams_update.induct) auto

lemma stream_callback_evo:
  assumes "typed mview In w" "stream_ctx_ok mview In s w"
  obtains s' w' where "stream_handle_callback E ptr len event s w = Some (s', w')"
    "evo In w In w'" "stream_ctx_ok mview In s' w'"
proof -
  obtain s' w' where r: "stream_handle_callback E ptr len event s w = Some (s', w')"
    "evolves mview tg In w In w'" "stream_ctx_ok mview In s' w'"
    by (rule stream_callback_ok [OF assms])
  have more: "world.more w' = world.more w"
  proof (cases "event = callback_prepare_to_send")
    case True
    from assms(2) have v: "ctx_valid s" by (auto simp: stream_ctx_ok_def intro: ctx_valid_chain)
    show ?thesis
    proof (rule handle_send_data_total [OF v memory, of ptr len w], goal_cases)
      case (1 s1 w1 fin sent D)
      from 1(1) r(1) True have "w' = w1" by (simp add: stream_handle_callback_def)
      with 1(4) show ?case by simp
    qed
  next
    case False
    obtain s2 w2 where "stream_handle_callback E ptr len event s w = Some (s2, w2)" "world.more w2 = world.more w"
      by (rule stream_callback_frame [OF False])
    with r(1) show ?thesis by simp
  qed
  show ?thesis by (rule that [OF r(1) con_evolves_stream [OF r(2) more] r(3)])
qed

definition streams_ok where
  "streams_ok In c w \<longleftrightarrow> (\<forall>e\<in>set (cc_streams c). stream_ctx_ok mview In (snd e) w)"

lemma streams_ok_evo: "streams_ok In c w \<Longrightarrow> evo In w In' w' \<Longrightarrow> streams_ok In' c w'"
  unfolding streams_ok_def con_evolves_def by (meson stream_ctx_ok_evolves)

lemma known_stream_callback_ok:
  assumes "typed mview In w" "streams_ok In c w" "map_of (cc_streams c) sid = Some s"
  obtains ss w' where "handle_stream_callback E sid ptr len event c w = Some (c\<lparr>cc_streams := ss\<rparr>, w')"
    "evo In w In w'" "streams_ok In (c\<lparr>cc_streams := ss\<rparr>) w'"
proof -
  have "stream_ctx_ok mview In s w" using assms(2) map_of_SomeD [OF assms(3)] by (fastforce simp: streams_ok_def)
  with assms(1) obtain s' w' where r: "stream_handle_callback E ptr len event s w = Some (s', w')"
    "evo In w In w'" "stream_ctx_ok mview In s' w'"
    by (rule stream_callback_evo)
  have "streams_ok In (c\<lparr>cc_streams := streams_update sid s' (cc_streams c)\<rparr>) w'"
    using streams_ok_evo [OF assms(2) r(2)] streams_update_subset [of sid s' "cc_streams c"] r(3)
    by (auto simp: streams_ok_def)
  with r(1,2) assms(3) show ?thesis by (intro that) (simp_all add: handle_stream_callback_def)
qed

lemma new_stream_callback_ok:
  assumes "typed mview In w" "streams_ok In c w" "map_of (cc_streams c) sid = None"
  obtains In' ss w' where "handle_stream_callback E sid ptr len event c w = Some (c\<lparr>cc_streams := ss\<rparr>, w')"
    "evo In w In' w'" "streams_ok In' (c\<lparr>cc_streams := ss\<rparr>) w'"
proof -
  obtain In1 st s w1 where n: "stream_new E sid (cc_cnx c) (cc_local_addr c) (cc_is_client c)
      (cc_stream_send_channel_default_size c) w = Some (st, s, w1)"
    "evo In w In1 w1" "stream_ctx_ok mview In1 s w1" "stream_ok In1 st w1"
    by (rule stream_new_evo [OF assms(1)])
  obtain s2 w2 where r: "stream_handle_callback E ptr len event s w1 = Some (s2, w2)"
    "evo In1 w1 In1 w2" "stream_ctx_ok mview In1 s2 w2"
    by (rule stream_callback_evo [OF con_evolves_typed [OF n(2)] n(3)])
  let ?w = "con_send E (cc_send_msg c) (CNewStream st) w2"
  have "stream_ok In1 st w2" using stream_ok_evolves [OF n(4)] r(2) unfolding con_evolves_def by blast
  then have cs: "evo In1 w2 In1 ?w" by (intro con_send_evo [OF con_evolves_typed [OF r(2)]]) simp
  have ev: "evo In w In1 ?w" using n(2) r(2) cs by (blast intro: con_evolves_trans)
  have new: "sid \<notin> fst ` set (cc_streams c)" using assms(3) by (simp add: map_of_eq_None_iff)
  have "stream_ctx_ok mview In1 s2 ?w"
    using stream_ctx_ok_evolves [OF r(3)] cs unfolding con_evolves_def by blast
  with streams_ok_evo [OF assms(2) ev] hash_insert_keys(1) [OF new, of s2]
  have "streams_ok In1 (c\<lparr>cc_streams := hash_insert E sid s2 (cc_streams c)\<rparr>) ?w" by (simp add: streams_ok_def)
  with ev n(1) r(1) assms(3) show ?thesis by (intro that) (simp_all add: handle_stream_callback_def)
qed

lemma almost_ready_ok:
  assumes "typed mview In w" "cc_wait_for_ready_state c \<noteq> None"
  obtains w' where "process_wait_for_ready_state E c w = Some (c\<lparr>cc_wait_for_ready_state := None\<rparr>, w')" "evo In w In w'"
proof -
  obtain b f where "cc_wait_for_ready_state c = Some (b, f)" using assms(2) by auto
  with cfut_send_evo [OF assms(1)] show ?thesis
    by (intro that) (simp_all add: process_wait_for_ready_state_def Let_def)
qed

lemma con_handle_callback_ok:
  assumes "typed mview In w" "con_ctx_ok mview rview In c w" "reported_id c sid"
  obtains In' c' w' where "con_handle_callback E sid ptr len event c w = Some (c', w')"
    "evo In w In' w'" "con_ctx_ok mview rview In' c' w'" "cc_close_recv c' = cc_close_recv c"
proof -
  have ss: "streams_ok In c w" and inv: "con_inv c"
    using assms(2) by (simp_all add: con_ctx_ok_def streams_ok_def)
  obtain In' c' w' where r: "con_handle_callback E sid ptr len event c w = Some (c', w')" "evo In w In' w'"
      "streams_ok In' c' w'"
      "cc_next_stream_id c' = cc_next_stream_id c" "cc_recv_create_stream c' = cc_recv_create_stream c"
      "cc_close_recv c' = cc_close_recv c"
  proof (cases "event = callback_almost_ready \<or> sid = 0")
    case True
    show ?thesis
    proof (cases "event = callback_almost_ready \<and> cc_wait_for_ready_state c \<noteq> None")
      case ready: True
      then obtain w1 where p: "process_wait_for_ready_state E c w = Some (c\<lparr>cc_wait_for_ready_state := None\<rparr>, w1)" "evo In w In w1"
        using almost_ready_ok [OF assms(1)] by blast
      with ready streams_ok_evo [OF ss p(2)] show ?thesis
        by (intro that [of "c\<lparr>cc_wait_for_ready_state := None\<rparr>" w1 In])
           (simp_all add: con_handle_callback_def streams_ok_def)
    next
      case False
      with True ss assms(1) show ?thesis
        by (intro that [of c w In]) (auto simp: con_handle_callback_def con_evolves_refl)
    qed
  next
    case False
    then have eq: "con_handle_callback E sid ptr len event c w = handle_stream_callback E sid ptr len event c w"
      by (simp add: con_handle_callback_def)
    show ?thesis
    proof (cases "map_of (cc_streams c) sid")
      case (Some s)
      obtain ss' w' where "handle_stream_callback E sid ptr len event c w = Some (c\<lparr>cc_streams := ss'\<rparr>, w')"
        "evo In w In w'" "streams_ok In (c\<lparr>cc_streams := ss'\<rparr>) w'"
        by (rule known_stream_callback_ok [OF assms(1) ss Some])
      then show ?thesis by (intro that [of "c\<lparr>cc_streams := ss'\<rparr>" w' In]) (simp_all add: eq)
    next
      case None
      obtain In' ss' w' where "handle_stream_callback E sid ptr len event c w = Some (c\<lparr>cc_streams := ss'\<rparr>, w')"
        "evo In w In' w'" "streams_ok In' (c\<lparr>cc_streams := ss'\<rparr>) w'"
        by (rule new_stream_callback_ok [OF assms(1) ss None])
      then show ?thesis by (intro that [of "c\<lparr>cc_streams := ss'\<rparr>" w' In']) (simp_all add: eq)
    qed
  qed
  have "con_ctx_ok mview rview In' c w'" by (rule con_ctx_ok_evolves [OF assms(2) r(2)])
  with r(3-5) con_inv_callback [OF inv assms(3) r(1)] have "con_ctx_ok mview rview In' c' w'"
    by (simp add: con_ctx_ok_def request_queue_def streams_ok_def)
  with r(1,2) show ?thesis by (rule that) (rule r(6))
qed

section \<open>Requests\<close>

lemma req_poll_evo:
  assumes "typed mview In w" "length (cv_buffer (rview (ce_chan ce))) \<le> length (cv_buffer (rview (ce_chan (reqs w h))))"
  shows "evo In w In (w\<lparr>reqs := (reqs w)(h := ce)\<rparr>)"
  by (rule con_evolves_quiet) (use assms in \<open>simp_all add: offered_def gone_stays_def\<close>)

text \<open>One request: the generated id is new, so the assertion holds.\<close>

lemma create_stream_ok:
  assumes "typed mview In w" "\<forall>e\<in>set (cc_streams c). stream_ctx_ok mview In (snd e) w" "con_inv c"
    and "request_queue rview c w = rs" "unat (cc_next_stream_id c) + length (rq # rs) < 2 ^ 62"
  obtains In' c' w' where "create_stream E (fst rq) (snd rq) c w = Some (c', w')" "evo In w In' w'"
    "con_ctx_ok mview rview In' c' w'" "cc_recv_create_stream c' = cc_recv_create_stream c"
    "request_queue rview c' w' = rs" "cc_close_recv c' = cc_close_recv c"
proof -
  let ?n = "cc_next_stream_id c"
  let ?sid = "generate_stream_id ?n (cc_is_client c) (fst rq)"
  have small: "unat ?n + length [rq] < 2 ^ 62" using assms(5) by simp
  have ids: "request_ids ?n (cc_is_client c) [rq] = [?sid]" by (cases rq) simp
  have new: "?sid \<notin> fst ` set (cc_streams c)"
    using request_ids_new [OF assms(3) small] by (simp add: ids stream_keys_def)
  obtain In1 st s w1 where n: "stream_new E ?sid (cc_cnx c) (cc_local_addr c) (cc_is_client c)
      (cc_stream_send_channel_default_size c) w = Some (st, s, w1)"
    "evo In w In1 w1" "stream_ctx_ok mview In1 s w1" "stream_ok In1 st w1" "world.more w1 = world.more w"
    by (rule stream_new_evo [OF assms(1)])
  let ?w = "sfut_send E (snd rq) (Ok st) w1"
  let ?c = "c\<lparr>cc_next_stream_id := ?n + 1, cc_streams := hash_insert E ?sid s (cc_streams c)\<rparr>"
  have ev1: "evo In1 w1 In1 ?w" by (rule sfut_send_evo [OF con_evolves_typed [OF n(2)]]) (simp add: n(4))
  have ev: "evo In w In1 ?w" using n(2) ev1 by (rule con_evolves_trans)
  note keys = hash_insert_keys [OF new, of s]
  have "\<forall>e\<in>set (cc_streams c). stream_ctx_ok mview In1 (snd e) ?w" "stream_ctx_ok mview In1 s ?w"
    using assms(2) n(3) ev ev1 stream_ctx_ok_evolves unfolding con_evolves_def by metis+
  with keys(1) have ss: "\<forall>e\<in>set (cc_streams ?c). stream_ctx_ok mview In1 (snd e) ?w" by simp
  have inv: "con_inv ?c"
    using con_inv_requests [OF assms(3) small, of "hash_insert E ?sid s (cc_streams c)"] keys assms(3)
    by (simp add: ids con_inv_def stream_keys_def)
  have q: "request_queue rview ?c ?w = rs"
    using assms(4) by (simp add: request_queue_def sfut_send_frame more_eqD [OF n(5)])
  have "unat (?n + 1) + length rs < 2 ^ 62" using assms(5) by (subst unat_Suc_small) simp_all
  with ss inv q have "con_ctx_ok mview rview In1 ?c ?w" by (simp add: con_ctx_ok_def)
  moreover have "create_stream E (fst rq) (snd rq) c w = Some (?c, ?w)"
    using n(1) new by (simp add: create_stream_def Let_def map_of_eq_None_iff)
  ultimately show ?thesis using ev q by (intro that [of ?c ?w In1]) simp_all
qed

lemma check_create_stream_requests_ok:
  assumes "typed mview In w" "con_ctx_ok mview rview In c w"
  shows "\<exists>In' c' w'. check_create_stream_requests E c w = Some (c', w') \<and> evo In w In' w' \<and>
    con_ctx_ok mview rview In' c' w' \<and> cc_close_recv c' = cc_close_recv c"
  using assms
proof (induction "request_queue rview c w" arbitrary: In c w)
  case Nil
  let ?h = "cc_recv_create_stream c"
  from Nil(1) obtain ce where p: "req_poll E ?h w =
      (Ok (if view_ended (rview (ce_chan (reqs w ?h))) then Ready None else NotReady), w\<lparr>reqs := (reqs w)(?h := ce)\<rparr>)"
    "rview (ce_chan ce) = rview (ce_chan (reqs w ?h))"
    using req_poll_Nil by (metis request_queue_def)
  have ev: "evo In w In (w\<lparr>reqs := (reqs w)(?h := ce)\<rparr>)"
    by (rule req_poll_evo [OF Nil(2)]) (simp add: p(2))
  have "check_create_stream_requests E c w = Some (c, w\<lparr>reqs := (reqs w)(?h := ce)\<rparr>)"
    using p(1) by (subst check_create_stream_requests.simps) simp
  with ev con_ctx_ok_evolves [OF Nil(3) ev] show ?case by blast
next
  case (Cons rq rs)
  let ?h = "cc_recv_create_stream c"
  from Cons.hyps(2) obtain ce where p: "req_poll E ?h w = (Ok (Ready (Some rq)), w\<lparr>reqs := (reqs w)(?h := ce)\<rparr>)"
    "rview (ce_chan ce) = rview (ce_chan (reqs w ?h))\<lparr>cv_buffer := rs\<rparr>"
    using req_poll_Cons by (metis request_queue_def)
  let ?w = "w\<lparr>reqs := (reqs w)(?h := ce)\<rparr>"
  have len: "length (rq # rs) = length (cv_buffer (rview (ce_chan (reqs w ?h))))"
    using Cons.hyps(2) by (simp add: request_queue_def)
  have ev: "evo In w In ?w" by (rule req_poll_evo [OF Cons.prems(1)]) (use len p(2) in simp)
  have ok: "con_ctx_ok mview rview In c ?w" by (rule con_ctx_ok_evolves [OF Cons.prems(2) ev])
  have q: "request_queue rview c ?w = rs" using p(2) by (simp add: request_queue_def)
  have b: "unat (cc_next_stream_id c) + length (rq # rs) < 2 ^ 62"
    using Cons.prems(2) Cons.hyps(2) unfolding con_ctx_ok_def by metis
  obtain In1 c1 w1 where 1: "create_stream E (fst rq) (snd rq) c ?w = Some (c1, w1)" "evo In ?w In1 w1"
    "con_ctx_ok mview rview In1 c1 w1" "request_queue rview c1 w1 = rs" "cc_close_recv c1 = cc_close_recv c"
    using create_stream_ok [OF con_evolves_typed [OF ev] _ _ q b] ok unfolding con_ctx_ok_def by metis
  obtain In' c' w' where 2: "check_create_stream_requests E c1 w1 = Some (c', w')" "evo In1 w1 In' w'"
    "con_ctx_ok mview rview In' c' w'" "cc_close_recv c' = cc_close_recv c1"
    using Cons.hyps(1) [OF 1(4) [symmetric] con_evolves_typed [OF 1(2)] 1(3)] by blast
  have "check_create_stream_requests E c w = Some (c', w')"
    using p(1) 1(1) 2(1) by (subst check_create_stream_requests.simps) simp
  moreover have "evo In w In' w'" using ev 1(2) 2(2) by (blast intro: con_evolves_trans)
  ultimately show ?case using 1(5) 2(3,4) by auto
qed

lemma fail_requests_ok:
  assumes "typed mview In w"
  shows "\<exists>w'. fail_requests E err h w = Some w' \<and> evo In w In w'"
  using assms
proof (induction "cv_buffer (rview (ce_chan (reqs w h)))" arbitrary: w)
  case Nil
  then obtain ce where p: "req_poll E h w =
      (Ok (if view_ended (rview (ce_chan (reqs w h))) then Ready None else NotReady), w\<lparr>reqs := (reqs w)(h := ce)\<rparr>)"
    "rview (ce_chan ce) = rview (ce_chan (reqs w h))"
    using req_poll_Nil by metis
  have "evo In w In (w\<lparr>reqs := (reqs w)(h := ce)\<rparr>)"
    by (rule req_poll_evo [OF Nil(2)]) (simp add: p(2))
  with p(1) show ?case by (subst fail_requests.simps) simp
next
  case (Cons rq rs)
  from Cons.hyps(2) obtain ce where p: "req_poll E h w = (Ok (Ready (Some rq)), w\<lparr>reqs := (reqs w)(h := ce)\<rparr>)"
    "rview (ce_chan ce) = rview (ce_chan (reqs w h))\<lparr>cv_buffer := rs\<rparr>"
    using req_poll_Cons by metis
  let ?w = "w\<lparr>reqs := (reqs w)(h := ce)\<rparr>"
  let ?w1 = "sfut_send E (snd rq) (Err (err ())) ?w"
  have ev: "evo In w In ?w"
    by (rule req_poll_evo [OF Cons.prems]) (simp add: p(2) Cons.hyps(2) [symmetric])
  have ev1: "evo In ?w In ?w1" by (rule sfut_send_evo [OF con_evolves_typed [OF ev]]) simp
  have "rs = cv_buffer (rview (ce_chan (reqs ?w1 h)))" using p(2) by (simp add: sfut_send_frame)
  from Cons.hyps(1) [OF this con_evolves_typed [OF ev1]] obtain w' where
    "fail_requests E err h ?w1 = Some w'" "evo In ?w1 In w'" by blast
  with p(1) ev ev1 show ?case
    by (subst fail_requests.simps) (auto intro: con_evolves_trans)
qed

section \<open>All streams of a context\<close>

lemma each_stream_ok:
  assumes "typed mview In w" "\<forall>e\<in>set ss. stream_ctx_ok mview In (snd e) w"
    and f: "\<And>s w s' w'. typed mview In w \<Longrightarrow> stream_ctx_ok mview In s w \<Longrightarrow> f s w = (s', w') \<Longrightarrow>
      evo In w In w' \<and> stream_ctx_ok mview In s' w'"
    and "each_stream f ss w = (ss', w')"
  shows "evo In w In w' \<and> (\<forall>e\<in>set ss'. stream_ctx_ok mview In (snd e) w')"
  using assms(1,2,4)
proof (induction ss arbitrary: w ss' w')
  case Nil
  then show ?case by (simp add: con_evolves_refl)
next
  case (Cons e ss)
  obtain s1 w1 where 1: "f (snd e) w = (s1, w1)" by fastforce
  obtain ss2 w2 where 2: "each_stream f ss w1 = (ss2, w2)" by fastforce
  have e1: "evo In w In w1" "stream_ctx_ok mview In s1 w1" using f [OF Cons.prems(1) _ 1] Cons.prems(2) by auto
  have "\<forall>e\<in>set ss. stream_ctx_ok mview In (snd e) w1"
    using Cons.prems(2) e1(1) stream_ctx_ok_evolves unfolding con_evolves_def by (metis list.set_intros(2))
  from Cons.IH [OF con_evolves_typed [OF e1(1)] this 2]
  have e2: "evo In w1 In w2" "\<forall>e\<in>set ss2. stream_ctx_ok mview In (snd e) w2" by blast+
  have "stream_ctx_ok mview In s1 w2" using e1(2) e2(1) stream_ctx_ok_evolves unfolding con_evolves_def by metis
  moreover have "ss' = (fst e, s1) # ss2" "w' = w2" using Cons.prems(3) 1 2 by simp_all
  ultimately show ?case using e1(1) e2 by (auto intro: con_evolves_trans)
qed

lemma handle_connection_evo:
  assumes "typed mview In w" "stream_ctx_ok mview In s w"
  shows "handle_connection_close E s w = (s', w') \<Longrightarrow> evo In w In w' \<and> stream_ctx_ok mview In s' w'"
    and "handle_connection_error E err s w = (s', w') \<Longrightarrow> evo In w In w' \<and> stream_ctx_ok mview In s' w'"
  using handle_connection_ok [OF assms] handle_connection_frame(1) [of E err s w] handle_connection_frame(2) [of E s w]
  by (metis con_evolves_stream snd_conv)+

lemma con_close_ok:
  assumes "typed mview In w" "con_ctx_ok mview rview In c w" "con_close E c w = (c', w')"
  shows "evo In w In w' \<and> con_ctx_ok mview rview In c' w' \<and> cc_close_recv c' = cc_close_recv c"
proof -
  let ?w = "w\<lparr>quic := cnx_close E (cc_cnx c) (quic w)\<rparr>"
  obtain ss w1 where e: "each_stream (handle_connection_close E) (cc_streams c) ?w = (ss, w1)" by fastforce
  have 0: "evo In w In ?w" by (rule quic_evo [OF assms(1)]) (simp add: cnx_close_def tg_close)
  have "\<forall>e\<in>set (cc_streams c). stream_ctx_ok mview In (snd e) ?w"
    using con_ctx_ok_evolves [OF assms(2) 0] by (simp add: con_ctx_ok_def)
  from each_stream_ok [OF con_evolves_typed [OF 0] this handle_connection_evo(1) e]
  have 1: "evo In ?w In w1" "\<forall>e\<in>set ss. stream_ctx_ok mview In (snd e) w1" by auto
  have cw: "c' = c\<lparr>cc_closed := True, cc_streams := ss\<rparr>" "w' = con_send E (cc_send_msg c) CClose w1"
    using assms(3) e by (simp_all add: con_close_def Let_def)
  have 2: "evo In w1 In w'" unfolding cw(2) by (rule con_send_evo [OF con_evolves_typed [OF 1(1)]]) simp
  have ev: "evo In w In w'" using 0 1(1) 2 by (blast intro: con_evolves_trans)
  have "map fst ss = map fst (cc_streams c)" using each_stream_keys [of _ "cc_streams c" ?w] e by (metis fst_conv)
  then have "con_inv c'"
    using assms(2) by (intro con_inv_same_keys [of c c']) (simp_all add: con_ctx_ok_def cw(1))
  moreover have "\<forall>e\<in>set ss. stream_ctx_ok mview In (snd e) w'"
    using 1(2) 2 stream_ctx_ok_evolves unfolding con_evolves_def by metis
  ultimately have "con_ctx_ok mview rview In c' w'"
    using con_ctx_ok_evolves [OF assms(2) ev] by (simp add: con_ctx_ok_def cw(1) request_queue_def)
  with ev show ?thesis by (simp add: cw(1))
qed

lemma check_and_handle_error_ok:
  assumes "typed mview In w" "con_ctx_ok mview rview In c w"
  obtains c' w' where "check_and_handle_error E c w = Some (c', w')" "evo In w In w'" "con_ctx_ok mview rview In c' w'"
    "cc_close_recv c' = cc_close_recv c"
proof (cases "cnx_error E (quic w) (cc_cnx c)")
  case None
  then show ?thesis
    using assms by (intro that [of c w]) (simp_all add: check_and_handle_error_def con_evolves_refl)
next
  case (Some err)
  let ?h = "cc_recv_create_stream c"
  obtain ss w1 where e: "each_stream (handle_connection_error E err) (cc_streams c) w = (ss, w1)" by fastforce
  have "\<forall>e\<in>set (cc_streams c). stream_ctx_ok mview In (snd e) w" using assms(2) by (simp add: con_ctx_ok_def)
  from each_stream_ok [OF assms(1) this handle_connection_evo(2) e]
  have 1: "evo In w In w1" "\<forall>e\<in>set ss. stream_ctx_ok mview In (snd e) w1" by auto
  define ce where "ce = receiver_close (req_ops E) (propagate_error err (reqs w1 ?h))"
  let ?w2 = "w1\<lparr>reqs := (reqs w1)(?h := ce)\<rparr>"
  have 2: "evo In w1 In ?w2"
    by (rule req_poll_evo [OF con_evolves_typed [OF 1(1)]])
       (simp add: ce_def rch.receiver_close_view rch.propagate_error_view)
  obtain w3 where f: "fail_requests E err ?h ?w2 = Some w3" and 3: "evo In ?w2 In w3"
    using fail_requests_ok [OF con_evolves_typed [OF 2]] by blast
  define w4 where "w4 = (case cc_wait_for_ready_state c of
      Some (b, f) \<Rightarrow> builder_drop E b (cfut_send E f (Err (err ())) w3)
    | None \<Rightarrow> con_send E (cc_send_msg c) (CError (err ())) w3)"
  define c4 where "c4 = c\<lparr>cc_streams := ss, cc_wait_for_ready_state := None\<rparr>"
  have run: "check_and_handle_error E c w = Some (c4, w4)"
  proof (cases "cc_wait_for_ready_state c")
    case None
    then have "c\<lparr>cc_streams := ss\<rparr> = c4" by (simp add: c4_def)
    with None Some e f show ?thesis
      by (simp add: check_and_handle_error_def Let_def ce_def w4_def)
  qed (use Some e f in \<open>auto simp: check_and_handle_error_def Let_def ce_def c4_def w4_def\<close>)
  have t3: "typed mview In w3" by (rule con_evolves_typed [OF 3])
  have 4: "evo In w3 In w4"
  proof (cases "cc_wait_for_ready_state c")
    case None
    have "evo In w3 In (con_send E (cc_send_msg c) (CError (err ())) w3)" by (rule con_send_evo [OF t3]) simp
    with None show ?thesis by (simp add: w4_def)
  next
    case (Some bf)
    have "evo In w3 In (cfut_send E (snd bf) (Err (err ())) w3)" by (rule cfut_send_evo [OF t3])
    with Some builder_drop_evo [OF con_evolves_typed [OF this], of "fst bf"] show ?thesis
      by (cases bf) (auto simp: w4_def intro: con_evolves_trans)
  qed
  have ev: "evo In w In w4" using 1(1) 2 3 4 by (blast intro: con_evolves_trans)
  have ev1: "evo In w1 In w4" using 2 3 4 by (blast intro: con_evolves_trans)
  have "map fst ss = map fst (cc_streams c)" using each_stream_keys [of _ "cc_streams c" w] e by (metis fst_conv)
  then have "con_inv c4"
    using assms(2) by (intro con_inv_same_keys [of c c4]) (simp_all add: con_ctx_ok_def c4_def)
  moreover have "\<forall>e\<in>set ss. stream_ctx_ok mview In (snd e) w4"
    using 1(2) ev1 stream_ctx_ok_evolves unfolding con_evolves_def by metis
  ultimately have "con_ctx_ok mview rview In c4 w4"
    using con_ctx_ok_evolves [OF assms(2) ev] by (simp add: con_ctx_ok_def c4_def request_queue_def)
  with run ev show ?thesis by (rule that) (simp add: c4_def)
qed

section \<open>Polling and dropping\<close>

lemma stream_context_drop_evo:
  "typed mview In w \<Longrightarrow> stream_ctx_ok mview In s w \<Longrightarrow> evo In w In (stream_context_drop E s w)"
  by (rule con_evolves_stream [OF stream_context_drop_evolves]) (simp_all add: frame_simps)

lemma retain_streams_ok:
  assumes "typed mview In w" "\<forall>e\<in>set ss. stream_ctx_ok mview In (snd e) w"
  shows "\<exists>ss' w'. retain_streams E ss w = Some (ss', w') \<and> evo In w In w' \<and>
    (\<forall>e\<in>set ss'. stream_ctx_ok mview In (snd e) w')"
  using assms
proof (induction ss arbitrary: w)
  case Nil
  then show ?case by (simp add: con_evolves_refl)
next
  case (Cons e ss)
  from Cons.prems obtain r s1 w1 where p: "stream_context_poll E (snd e) w = Some (Ok r, s1, w1)"
    "evolves mview tg In w In w1" "stream_ctx_ok mview In s1 w1"
    using stream_context_poll_ok [of In w "snd e"] by auto
  have 1: "evo In w In w1" by (rule con_evolves_stream [OF p(2) stream_context_poll_frame [OF p(1)]])
  let ?w2 = "if is_not_ready r then w1 else stream_context_drop E s1 w1"
  have 2: "evo In w1 In ?w2"
    by (simp add: stream_context_drop_evo [OF con_evolves_typed [OF 1] p(3)]
        con_evolves_refl [OF con_evolves_typed [OF 1]])
  have "\<forall>e\<in>set ss. stream_ctx_ok mview In (snd e) ?w2"
    using Cons.prems(2) stream_ctx_ok_evolves 1 2 unfolding con_evolves_def by (metis list.set_intros(2))
  from Cons.IH [OF con_evolves_typed [OF 2] this] obtain ss' w' where
    3: "retain_streams E ss ?w2 = Some (ss', w')" "evo In ?w2 In w'" "\<forall>e\<in>set ss'. stream_ctx_ok mview In (snd e) w'"
    by blast
  have "stream_ctx_ok mview In s1 w'"
    using p(3) 2 3(2) stream_ctx_ok_evolves unfolding con_evolves_def by metis
  moreover have "retain_streams E (e # ss) w = Some (if is_not_ready r then (fst e, s1) # ss' else ss', w')"
    using p(1) 3(1) by (simp add: Let_def)
  moreover have "evo In w In w'" using 1 2 3(2) by (blast intro: con_evolves_trans)
  ultimately show ?case using 3(3) by auto
qed

lemma con_ctx_poll_ok:
  assumes "typed mview In w" "con_ctx_ok mview rview In c w"
  obtains In' r c' w' where "con_ctx_poll E c w = Some (Ok r, c', w')" "evo In w In' w'" "con_ctx_ok mview rview In' c' w'"
    "cc_closed c \<Longrightarrow> r = Ready ()" "\<not> cc_closed c \<Longrightarrow> r = NotReady" "cc_close_recv c' = cc_close_recv c"
proof (cases "cc_closed c")
  case True
  then show ?thesis
    using assms by (intro that [of "Ready ()" c w In]) (simp_all add: con_ctx_poll_def con_evolves_refl)
next
  case False
  from assms obtain ss w1 where 1: "retain_streams E (cc_streams c) w = Some (ss, w1)" "evo In w In w1"
    "\<forall>e\<in>set ss. stream_ctx_ok mview In (snd e) w1"
    using retain_streams_ok [OF assms(1), of "cc_streams c"] by (auto simp: con_ctx_ok_def)
  let ?c = "c\<lparr>cc_streams := ss\<rparr>"
  have "con_inv ?c"
    using assms(2) retain_streams_keys [OF 1(1)]
    by (intro con_inv_mono [of c ?c]) (auto simp: con_ctx_ok_def con_inv_def stream_keys_def)
  then have "con_ctx_ok mview rview In ?c w1"
    using con_ctx_ok_evolves [OF assms(2) 1(2)] 1(3) by (simp add: con_ctx_ok_def request_queue_def)
  from check_create_stream_requests_ok [OF con_evolves_typed [OF 1(2)] this] obtain In' c2 w2 where
    2: "check_create_stream_requests E ?c w1 = Some (c2, w2)" "evo In w1 In' w2" "con_ctx_ok mview rview In' c2 w2"
      "cc_close_recv c2 = cc_close_recv c"
    by auto
  obtain r u where o: "os_poll (unit_ops E) (units w2 (cc_close_recv c2)) = (r, u)" by fastforce
  let ?w2 = "w2\<lparr>units := (units w2)(cc_close_recv c2 := u)\<rparr>"
  have "ov_rx (uview u) = ov_rx (uview (units w2 (cc_close_recv c2)))"
    using uch.receiver_alive(2) [of "units w2 (cc_close_recv c2)"] o by simp
  then have 3: "evo In' w2 In' ?w2"
    by (intro con_evolves_quiet) (use con_evolves_typed [OF 2(2)] in \<open>simp_all add: offered_def gone_stays_def\<close>)
  note ok3 = con_ctx_ok_evolves [OF 2(3) 3]
  obtain c4 w4 where 4: "(case r of Ok (Ready _) \<Rightarrow> con_close E c2 ?w2 | _ \<Rightarrow> (c2, ?w2)) = (c4, w4)" by fastforce
  have ev4: "evo In' ?w2 In' w4 \<and> con_ctx_ok mview rview In' c4 w4 \<and> cc_close_recv c4 = cc_close_recv c2"
  proof (cases "\<exists>v. r = Ok (Ready v)")
    case True
    with 4 con_close_ok [OF con_evolves_typed [OF 3] ok3, of c4 w4] show ?thesis by auto
  next
    case False
    with 4 have "c4 = c2" "w4 = ?w2" by (auto split: result.splits async.splits)
    with ok3 show ?thesis by (simp add: con_evolves_refl [OF con_evolves_typed [OF 3]])
  qed
  have "con_ctx_poll E c w = Some (Ok NotReady, c4, w4)"
    using False 1(1) 2(1) o 4
    by (auto simp: con_ctx_poll_def Let_def split: result.splits async.splits prod.splits)
  moreover have "evo In w In' w4" using 1(2) 2(2) 3 ev4 by (blast intro: con_evolves_trans)
  moreover have "con_ctx_ok mview rview In' c4 w4" using ev4 by blast
  ultimately show ?thesis by (rule that) (use False ev4 2(4) in simp_all)
qed

lemma con_ctx_drop_evo:
  assumes "typed mview In w" "con_ctx_ok mview rview In c w"
  shows "con_evolves mview tg cview rview sview uview {cc_close_recv c} In w In (con_ctx_drop E c w)"
proof -
  let ?D = "{cc_close_recv c}"
  let ?evo = "con_evolves mview tg cview rview sview uview ?D"
  have lift: "?evo In v In v'" if "evo In v In v'" for v v' using that by (rule con_evolves_mono) simp
  define w1 where "w1 = w\<lparr>quic := picoquic_set_callback E (quic w) (cc_cnx c) None\<rparr>"
  define w2 where "w2 = w1\<lparr>con_msgs := (con_msgs w1)(cc_send_msg c := mpsc_drop_tx (con_ops E) (con_msgs w1 (cc_send_msg c)))\<rparr>"
  define w3 where "w3 = w2\<lparr>units := (units w2)(cc_close_recv c := snd (os_drop_rx (unit_ops E) (units w2 (cc_close_recv c))))\<rparr>"
  define w4 where "w4 = req_drop_rx E (cc_recv_create_stream c) w3"
  define w5 where "w5 = fold (\<lambda>e. stream_context_drop E (snd e)) (cc_streams c) w4"
  have 1: "evo In w In w1" unfolding w1_def by (rule quic_evo [OF assms(1) tg_unset])
  have 2: "evo In w1 In w2" unfolding w2_def by (rule con_drop_tx_evo [OF con_evolves_typed [OF 1]])
  have 3: "?evo In w2 In w3"
    by (rule con_evolves_quiet) (use con_evolves_typed [OF 2] in \<open>simp_all add: offered_def gone_stays_def w3_def\<close>)
  have 4: "evo In w3 In w4" unfolding w4_def by (rule req_drop_rx_evo [OF con_evolves_typed [OF 3]])
  have e4: "?evo In w In w4" using lift [OF 1] lift [OF 2] 3 lift [OF 4] by (blast intro: con_evolves_trans)
  have dr: "evo In w4 In (fold (\<lambda>e. stream_context_drop E (snd e)) ss w4)"
    if "\<forall>e\<in>set ss. stream_ctx_ok mview In (snd e) v" "?evo In v In w4" for ss v
    using that
  proof (induction ss arbitrary: w4)
    case Nil
    then show ?case by (simp add: con_evolves_refl con_evolves_typed)
  next
    case (Cons e ss)
    have "stream_ctx_ok mview In (snd e) w4"
      using Cons.prems stream_ctx_ok_evolves unfolding con_evolves_def by (metis list.set_intros(1))
    from stream_context_drop_evo [OF con_evolves_typed [OF Cons.prems(2)] this]
    have s: "evo In w4 In (stream_context_drop E (snd e) w4)" .
    have "?evo In v In (stream_context_drop E (snd e) w4)" using Cons.prems(2) lift [OF s] by (rule con_evolves_trans)
    with Cons.IH [of "stream_context_drop E (snd e) w4"] Cons.prems(1) s show ?case
      by (auto intro: con_evolves_trans)
  qed
  have 5: "evo In w4 In w5"
    unfolding w5_def by (rule dr [OF _ e4]) (use assms(2) in \<open>simp add: con_ctx_ok_def\<close>)
  have t5: "typed mview In w5" by (rule con_evolves_typed [OF 5])
  have run: "con_ctx_drop E c w = (case cc_wait_for_ready_state c of
      Some (b, f) \<Rightarrow> cfut_drop_tx E f (builder_drop E b w5) | None \<Rightarrow> w5)"
    by (simp only: con_ctx_drop_def Let_def w1_def w2_def w3_def w4_def w5_def)
  have "evo In w5 In (con_ctx_drop E c w)"
  proof (cases "cc_wait_for_ready_state c")
    case None
    then show ?thesis by (simp add: run con_evolves_refl [OF t5])
  next
    case (Some bf)
    note b = builder_drop_evo [OF t5, of "fst bf"]
    from Some con_evolves_trans [OF b plain_drops_evo(3) [OF con_evolves_typed [OF b], of "snd bf"]]
    show ?thesis by (cases bf) (simp add: run)
  qed
  with e4 lift [OF 5] lift show ?thesis by (blast intro: con_evolves_trans)
qed

end

end
