(* ===== verification/Context_Ownership.thy ===== *)
theory Context_Ownership
  imports Connection_Typing Context_Inner
begin

text \<open>
  Who keeps the context of a connection alive (\<^verbatim>\<open>src/connection.rs\<close>,
  \<^verbatim>\<open>src/context_inner.rs\<close>).  The context is an \<^verbatim>\<open>Arc\<close> that is shared between
  the list of the event loop and picoquic, which holds a raw pointer to it.  The count of
  references covers both holders as long as each gives its reference up once; then no callback
  reaches a context that is gone.
\<close>

section \<open>References\<close>

definition refs where
  "refs w h = (case ctxs w h of Some (c, n) \<Rightarrow> n | None \<Rightarrow> 0)"

text \<open>The holders of a context: the list \<open>L\<close> on the Rust side, and picoquic in its state
  \<open>q\<close>.\<close>

definition holders :: "('q \<Rightarrow> nat set) \<Rightarrow> nat list \<Rightarrow> 'q \<Rightarrow> nat \<Rightarrow> nat" where
  "holders tg L q h = (if h \<in> set L then 1 else 0) + (if h \<in> tg q then 1 else 0)"

definition owned where
  "owned tg L w \<longleftrightarrow>
     distinct L \<and> (\<forall>h. ctxs w h \<noteq> None \<longrightarrow> h < fresh w) \<and> (\<forall>h. holders tg L (quic w) h \<le> refs w h)"

text \<open>The whole store, beside users who hold the streams \<open>us\<close>.\<close>

definition store_ok where
  "store_ok mview tg cview rview sview us In L w \<longleftrightarrow>
     con_world_ok mview cview rview sview In w \<and> (\<forall>st\<in>us. stream_ok In st w) \<and> owned tg L w"

text \<open>The events after which picoquic does not call a context again.\<close>

definition closing :: "callback_event \<Rightarrow> bool" where
  "closing event \<longleftrightarrow> event = callback_close \<or> event = callback_application_close"

lemma owned_alive:
  assumes "owned tg L w" "h \<in> set L \<or> h \<in> tg (quic w)"
  obtains c n where "ctxs w h = Some (c, n)"
proof -
  from assms have "1 \<le> refs w h" by (fastforce simp: owned_def holders_def split: if_splits dest: spec [of _ h])
  then show ?thesis using that by (auto simp: refs_def split: option.splits)
qed

lemma owned_unallocated:
  assumes "owned tg L w" "fresh w \<le> h"
  shows "h \<notin> set L" "h \<notin> tg (quic w)" "ctxs w h = None"
  using assms owned_alive [OF assms(1), of h] unfolding owned_def by (metis not_le option.simps(3))+

lemma owned_evolves:
  assumes "owned tg L w" "con_evolves mview tg cview rview sview uview D In w In' w'"
  shows "owned tg L w'"
proof -
  have e: "ctxs w' = ctxs w" "fresh w \<le> fresh w'" "tg (quic w') \<subseteq> tg (quic w)"
    using assms(2) by (simp_all add: con_evolves_def evolves_def)
  have "holders tg L (quic w') h \<le> holders tg L (quic w) h" for h
    using e(3) by (auto simp: holders_def)
  with assms(1) e(1,2) show ?thesis
    unfolding owned_def refs_def by (metis (no_types, lifting) less_le_trans order_trans)
qed

lemma store_ok_evolves:
  "store_ok mview tg cview rview sview us In L w \<Longrightarrow> con_evolves mview tg cview rview sview uview D In w In' w' \<Longrightarrow>
   store_ok mview tg cview rview sview us In' L w'"
  by (auto simp: store_ok_def con_evolves_def intro: con_world_ok_evolves owned_evolves stream_ok_evolves)

lemma store_ok_typed: "store_ok mview tg cview rview sview us In L w \<Longrightarrow> typed mview In w"
  by (simp add: store_ok_def con_world_ok_def)

lemma con_ctx_ok_ctxs [simp]: "con_ctx_ok mview rview In c (w\<lparr>ctxs := X\<rparr>) = con_ctx_ok mview rview In c w"
  by (simp add: con_ctx_ok_def stream_ctx_ok_def request_queue_def queue_def)

lemma typed_ctxs [simp]: "typed mview In (w\<lparr>ctxs := X\<rparr>) = typed mview In w"
  by (simp add: typed_def queue_def)

lemma offered_ctxs [simp]: "offered cview sview (w\<lparr>ctxs := X\<rparr>) = offered cview sview w"
  by (simp add: offered_def)

lemma stream_ok_ctxs [simp]: "stream_ok In st (w\<lparr>ctxs := X\<rparr>) = stream_ok In st w"
  by (simp add: stream_ok_def)

lemma store_ok_ctxs:
  assumes "store_ok mview tg cview rview sview us In L w"
    and "\<And>h c n. X h = Some (c, n) \<Longrightarrow> h < fresh w \<and> con_ctx_ok mview rview In c w"
    and "distinct L'" "\<And>h. holders tg L' (quic w) h \<le> refs (w\<lparr>ctxs := X\<rparr>) h"
  shows "store_ok mview tg cview rview sview us In L' (w\<lparr>ctxs := X\<rparr>)"
proof -
  from assms(1) have "con_world_ok mview cview rview sview In w" by (simp add: store_ok_def)
  with assms(2) have "con_world_ok mview cview rview sview In (w\<lparr>ctxs := X\<rparr>)" by (simp add: con_world_ok_def)
  moreover have "owned tg L' (w\<lparr>ctxs := X\<rparr>)" using assms(2-4) by (auto simp: owned_def)
  ultimately show ?thesis using assms(1) by (simp add: store_ok_def)
qed

text \<open>A user's receiver \<open>h\<close> that no context of a connection owns: it is the user who
  decides when it goes, and nothing that the event loop does takes it away.\<close>

definition user_waits where
  "user_waits uview h w \<longleftrightarrow>
     h < fresh w \<and> ov_rx (uview (units w h)) \<and> (\<forall>k c n. ctxs w k = Some (c, n) \<longrightarrow> cc_close_recv c \<noteq> h)"

definition keeps_user where
  "keeps_user uview w w' \<longleftrightarrow> (\<forall>h. user_waits uview h w \<longrightarrow> user_waits uview h w')"

lemma keeps_user_refl [simp]: "keeps_user uview w w"
  by (simp add: keeps_user_def)

lemma keeps_user_trans [trans]: "keeps_user uview w w1 \<Longrightarrow> keeps_user uview w1 w2 \<Longrightarrow> keeps_user uview w w2"
  by (simp add: keeps_user_def)

lemma keeps_userD: "keeps_user uview w w' \<Longrightarrow> user_waits uview h w \<Longrightarrow> user_waits uview h w'"
  by (simp add: keeps_user_def)

lemma user_waits_evolves:
  assumes "user_waits uview h w" "con_evolves mview tg cview rview sview uview D In w In' w'" "h \<notin> D"
  shows "user_waits uview h w'"
  using assms by (auto simp: user_waits_def con_evolves_def evolves_def gone_stays_def)

lemma con_evolves_keeps: "con_evolves mview tg cview rview sview uview {} In w In' w' \<Longrightarrow> keeps_user uview w w'"
  unfolding keeps_user_def by (blast intro: user_waits_evolves)

lemma arc_update_keeps:
  assumes "ctxs w k = Some (c0, n)" "cc_close_recv c = cc_close_recv c0"
  shows "keeps_user uview w (arc_update k c w)"
  using assms by (auto simp: keeps_user_def user_waits_def arc_update_def)

section \<open>Changing and dropping a context\<close>

context connection_library
begin

abbreviation ok where
  "ok \<equiv> store_ok mview tg cview rview sview"

lemma ok_ctx: "ok us In L w \<Longrightarrow> ctxs w h = Some (c, n) \<Longrightarrow> con_ctx_ok mview rview In c w"
  by (auto simp: store_ok_def con_world_ok_def)

lemma arc_update_ok:
  assumes "ok us In L w" "con_ctx_ok mview rview In c w"
  shows "ok us In L (arc_update h c w)"
  unfolding arc_update_def
proof (rule store_ok_ctxs [OF assms(1)])
  fix h' c' n assume "((ctxs w)(h := map_option (\<lambda>(_, n). (c, n)) (ctxs w h))) h' = Some (c', n)"
  with assms show "h' < fresh w \<and> con_ctx_ok mview rview In c' w"
    by (auto simp: store_ok_def owned_def con_world_ok_def split: if_splits)
next
  fix h'
  have "refs (w\<lparr>ctxs := (ctxs w)(h := map_option (\<lambda>(_, n). (c, n)) (ctxs w h))\<rparr>) h' = refs w h'"
    by (auto simp: refs_def split: option.splits)
  with assms(1) show "holders tg L (quic w) h' \<le>
      refs (w\<lparr>ctxs := (ctxs w)(h := map_option (\<lambda>(_, n). (c, n)) (ctxs w h))\<rparr>) h'"
    by (simp add: store_ok_def owned_def)
qed (use assms(1) in \<open>simp add: store_ok_def owned_def\<close>)

text \<open>Giving up a reference: the holders that remain must be covered by the others.\<close>

lemma arc_drop_ok:
  assumes "ok us In L w" "distinct L'"
    and "\<And>h'. holders tg L' (quic w) h' + (if h' = h then 1 else 0) \<le> refs w h'"
  shows "ok us In L' (arc_drop E h w)" "con_world.more (arc_drop E h w) = con_world.more w"
    "tg (quic (arc_drop E h w)) \<subseteq> tg (quic w)" "gone_stays uview UNIV w (arc_drop E h w)" "fresh w \<le> fresh (arc_drop E h w)"
    "keeps_user uview w (arc_drop E h w)"
proof -
  from assms(3) [of h] obtain c n where c: "ctxs w h = Some (c, n)" and n: "holders tg L' (quic w) h + 1 \<le> n"
    by (auto simp: refs_def split: option.splits)
  have cov: "holders tg L' (quic w) h' \<le> refs w h'" if "h' \<noteq> h" for h' using assms(3) [of h'] that by simp
  have old: "h' < fresh w \<and> con_ctx_ok mview rview In c' w" if "ctxs w h' = Some (c', n')" for h' c' n'
    using assms(1) that by (auto simp: store_ok_def owned_def con_world_ok_def)
  have "ok us In L' (arc_drop E h w) \<and> con_world.more (arc_drop E h w) = con_world.more w \<and>
    tg (quic (arc_drop E h w)) \<subseteq> tg (quic w) \<and> gone_stays uview UNIV w (arc_drop E h w) \<and> fresh w \<le> fresh (arc_drop E h w) \<and>
    keeps_user uview w (arc_drop E h w)"
  proof (cases "n \<le> 1")
    case False
    let ?X = "(ctxs w)(h := Some (c, n - 1))"
    have eq: "arc_drop E h w = w\<lparr>ctxs := ?X\<rparr>" using c False by (simp add: arc_drop_def)
    have r: "refs (w\<lparr>ctxs := ?X\<rparr>) h' = (if h' = h then n - 1 else refs w h')" for h' by (simp add: refs_def)
    have "ok us In L' (w\<lparr>ctxs := ?X\<rparr>)"
    proof (rule store_ok_ctxs [OF assms(1) _ assms(2)])
      show "holders tg L' (quic w) h' \<le> refs (w\<lparr>ctxs := ?X\<rparr>) h'" for h'
        unfolding r using cov n by (cases "h' = h") auto
      show "h' < fresh w \<and> con_ctx_ok mview rview In c' w" if "?X h' = Some (c', n')" for h' c' n'
        using that old [OF c] old [of h' c' n'] by (auto split: if_splits)
    qed
    moreover have "keeps_user uview w (w\<lparr>ctxs := ?X\<rparr>)" using c by (auto simp: keeps_user_def user_waits_def)
    ultimately show ?thesis by (simp add: eq gone_stays_def)
  next
    case True
    let ?X = "(ctxs w)(h := None)"
    let ?w = "w\<lparr>ctxs := ?X\<rparr>"
    have eq: "arc_drop E h w = con_ctx_drop E c ?w" using c True by (simp add: arc_drop_def)
    have r: "refs ?w h' = (if h' = h then 0 else refs w h')" for h' by (simp add: refs_def)
    have 1: "ok us In L' ?w"
    proof (rule store_ok_ctxs [OF assms(1) _ assms(2)])
      show "holders tg L' (quic w) h' \<le> refs ?w h'" for h'
        unfolding r using cov n True by (cases "h' = h") auto
      show "h' < fresh w \<and> con_ctx_ok mview rview In c' w" if "?X h' = Some (c', n')" for h' c' n'
        using that old [of h' c' n'] by (auto split: if_splits)
    qed
    have ev: "con_evolves mview tg cview rview sview uview {cc_close_recv c} In ?w In (con_ctx_drop E c ?w)"
      by (rule con_ctx_drop_evo) (use store_ok_typed [OF 1] old [OF c] in simp_all)
    then have "con_world.more (con_ctx_drop E c ?w) = con_world.more w" "tg (quic (con_ctx_drop E c ?w)) \<subseteq> tg (quic w)"
      "gone_stays uview UNIV w (con_ctx_drop E c ?w)" "fresh w \<le> fresh (con_ctx_drop E c ?w)"
      by (simp_all add: con_evolves_def evolves_def gone_stays_def)
    moreover have "keeps_user uview w (con_ctx_drop E c ?w)"
    proof -
      have "user_waits uview k (con_ctx_drop E c ?w)" if "user_waits uview k w" for k
        by (rule user_waits_evolves [OF _ ev]) (use that c in \<open>auto simp: user_waits_def\<close>)
      then show ?thesis by (simp add: keeps_user_def)
    qed
    ultimately show ?thesis using store_ok_evolves [OF 1 ev] by (simp add: eq)
  qed
  then show "ok us In L' (arc_drop E h w)" "con_world.more (arc_drop E h w) = con_world.more w"
    "tg (quic (arc_drop E h w)) \<subseteq> tg (quic w)" "gone_stays uview UNIV w (arc_drop E h w)" "fresh w \<le> fresh (arc_drop E h w)"
    "keeps_user uview w (arc_drop E h w)"
    by blast+
qed

section \<open>Callbacks on a context\<close>

lemma connection_callback_ok:
  assumes "ok us In L w" "\<not> closing event" "ctxs w h = Some (c, n)" "reported_id c sid"
  obtains In' w' where "connection_callback E sid ptr len event h w = Some w'" "ok us In' L w'"
    "con_world.more w' = con_world.more w" "tg (quic w') \<subseteq> tg (quic w)" "keeps_user uview w w'"
proof -
  obtain In' c' w1 where r: "con_handle_callback E sid ptr len event c w = Some (c', w1)"
    "evo In w In' w1" "con_ctx_ok mview rview In' c' w1" "cc_close_recv c' = cc_close_recv c"
    by (rule con_handle_callback_ok [OF store_ok_typed [OF assms(1)] ok_ctx [OF assms(1,3)] assms(4)])
  have "connection_callback E sid ptr len event h w = Some (arc_update h c' w1)"
    using assms(2,3) r(1) by (simp add: connection_callback_def closing_def)
  moreover have "ok us In' L (arc_update h c' w1)"
    by (rule arc_update_ok [OF store_ok_evolves [OF assms(1) r(2)] r(3)])
  moreover have "con_world.more (arc_update h c' w1) = con_world.more w" "tg (quic (arc_update h c' w1)) \<subseteq> tg (quic w)"
    using r(2) by (simp_all add: arc_update_def con_evolves_def evolves_def)
  moreover have "ctxs w1 h = Some (c, n)" using r(2) assms(3) by (simp add: con_evolves_def)
  then have "keeps_user uview w (arc_update h c' w1)"
    by (rule keeps_user_trans [OF con_evolves_keeps [OF r(2)] arc_update_keeps]) (rule r(4))
  ultimately show ?thesis by (rule that)
qed

lemma closing_callback_ok:
  assumes "ok us In L w" "closing event" "holders tg L (quic w) h + 1 \<le> refs w h"
  obtains w' where "connection_callback E sid ptr len event h w = Some w'" "ok us In L w'"
    "con_world.more w' = con_world.more w" "tg (quic w') \<subseteq> tg (quic w)" "keeps_user uview w w'"
proof -
  from assms(3) obtain c n where c: "ctxs w h = Some (c, n)"
    by (auto simp: refs_def split: option.splits)
  obtain c1 w1 where 1: "check_and_handle_error E c w = Some (c1, w1)" "evo In w In w1" "con_ctx_ok mview rview In c1 w1"
    "cc_close_recv c1 = cc_close_recv c"
    by (rule check_and_handle_error_ok [OF store_ok_typed [OF assms(1)] ok_ctx [OF assms(1) c]])
  obtain c2 w2 where 2: "con_close E c1 w1 = (c2, w2)" by fastforce
  with con_close_ok [OF con_evolves_typed [OF 1(2)] 1(3)]
  have e2: "evo In w1 In w2" "con_ctx_ok mview rview In c2 w2" "cc_close_recv c2 = cc_close_recv c1" by blast+
  have ev: "evo In w In w2" using 1(2) e2(1) by (rule con_evolves_trans)
  let ?w = "arc_update h c2 w2"
  have ok: "ok us In L ?w" by (rule arc_update_ok [OF store_ok_evolves [OF assms(1) ev] e2(2)])
  have fr: "refs ?w h' = refs w h'" "con_world.more ?w = con_world.more w" "tg (quic ?w) \<subseteq> tg (quic w)" for h'
    using ev by (auto simp: refs_def arc_update_def con_evolves_def evolves_def split: option.splits)
  have cov: "holders tg L (quic ?w) h' + (if h' = h then 1 else 0) \<le> refs ?w h'" for h'
  proof -
    have "holders tg L (quic ?w) h' \<le> holders tg L (quic w) h'" using fr(3) by (auto simp: holders_def)
    moreover have "holders tg L (quic w) h' \<le> refs w h'" using assms(1) by (simp add: store_ok_def owned_def)
    ultimately show ?thesis using assms(3) fr(1) [of h'] by (cases "h' = h") auto
  qed
  have "distinct L" using assms(1) by (simp add: store_ok_def owned_def)
  note d = arc_drop_ok [OF ok this cov]
  have "connection_callback E sid ptr len event h w = Some (arc_drop E h ?w)"
    using assms(2) c 1(1) 2 by (simp add: connection_callback_def closing_def)
  moreover have "keeps_user uview w (arc_drop E h ?w)"
  proof -
    have "ctxs w2 h = Some (c, n)" using ev c by (simp add: con_evolves_def)
    then have "keeps_user uview w2 ?w" by (rule arc_update_keeps) (simp add: e2(3) 1(4))
    with con_evolves_keeps [OF ev] d(6) show ?thesis by (blast intro: keeps_user_trans)
  qed
  ultimately show ?thesis by (intro that) (use d fr(2,3) in auto)
qed

text \<open>When both holders had their reference, the closed context is kept by the other one.\<close>

lemma closing_callback_last:
  assumes "ok us In L w" "closing event" "ctxs w h = Some (c, 2)"
    and "connection_callback E sid ptr len event h w = Some w'"
  obtains c' where "ctxs w' h = Some (c', 1)" "cc_closed c'" "cc_cnx c' = cc_cnx c"
proof -
  obtain c1 w1 where 1: "check_and_handle_error E c w = Some (c1, w1)" "evo In w In w1" "con_ctx_ok mview rview In c1 w1"
    by (rule check_and_handle_error_ok [OF store_ok_typed [OF assms(1)] ok_ctx [OF assms(1,3)]])
  obtain c2 w2 where 2: "con_close E c1 w1 = (c2, w2)" by fastforce
  from con_close_ok [OF con_evolves_typed [OF 1(2)] 1(3) 2] have "ctxs w2 h = Some (c, 2)"
    using 1(2) assms(3) by (auto simp: con_evolves_def)
  then have "w' = w2\<lparr>ctxs := (ctxs w2)(h := Some (c2, 1))\<rparr>"
    using assms(2,3,4) 1(1) 2 by (simp add: connection_callback_def closing_def arc_update_def arc_drop_def)
  then show ?thesis using close_closes [OF 2] error_keeps_cnx [OF 1(1)] by (intro that [of c2]) simp_all
qed

section \<open>New contexts\<close>

lemma ok_quic:
  assumes "ok us In L w" "\<And>h. holders tg L q h \<le> refs w h"
  shows "ok us In L (w\<lparr>quic := q\<rparr>)"
proof -
  have "con_ctx_ok mview rview In c (w\<lparr>quic := q\<rparr>) = con_ctx_ok mview rview In c w" for c
    by (simp add: con_ctx_ok_def stream_ctx_ok_def request_queue_def queue_def)
  with assms show ?thesis
    by (auto simp: store_ok_def con_world_ok_def owned_def typed_def queue_def offered_def stream_ok_def refs_def)
qed

lemma con_ctx_new_ok:
  assumes "ok us In L w" "con_ctx_new E cnx m u ic la sz w = (h, rq, w')"
  shows "ok us In (L @ [h]) w'" "con_world.more w' = con_world.more w" "\<exists>c. ctxs w' h = Some (c, 2) \<and>
      cc_next_stream_id c = 0 \<and> cc_is_client c = ic"
    "tg (quic w') \<subseteq> insert h (tg (quic w))" "refs w' h = 2"
    "\<And>k. user_waits uview k w \<Longrightarrow> k \<noteq> u \<Longrightarrow> user_waits uview k w'"
proof -
  define ce where "ce = snd (receiver_poll (req_ops E) (unbounded (req_ops E)))"
  define w1 where "w1 = w\<lparr>reqs := (reqs w)(fresh w := ce), fresh := Suc (Suc (fresh w))\<rparr>"
  define c where "c = \<lparr>cc_send_msg = m, cc_close_recv = u, cc_recv_create_stream = fresh w,
    cc_streams = [], cc_cnx = cnx, cc_closed = False, cc_is_client = ic, cc_next_stream_id = 0,
    cc_wait_for_ready_state = None, cc_local_addr = la, cc_stream_send_channel_default_size = sz\<rparr>"
  define X where "X = (ctxs w1)(Suc (fresh w) := Some (c, 2 :: nat))"
  have h: "h = Suc (fresh w)" and w': "w' = w1\<lparr>ctxs := X, quic := picoquic_set_callback E (quic w) cnx (Some h)\<rparr>"
    using assms(2) by (auto simp: con_ctx_new_def Let_def w1_def c_def X_def ce_def)
  have ce: "cv_buffer (rview (ce_chan ce)) = []"
    by (simp add: ce_def rch.receiver_poll_snd rch.channel_view view_poll_def view_new_def view_ended_def)
  have "evo In w In w1"
    by (rule con_evolves_quiet) (use store_ok_typed [OF assms(1)] ce in \<open>auto simp: w1_def offered_def gone_stays_def\<close>)
  then have 1: "ok us In L w1" by (rule store_ok_evolves [OF assms(1)])
  have new: "h \<notin> set L" "h \<notin> tg (quic w)" "ctxs w h = None"
    using owned_unallocated [of tg L w h] assms(1) by (simp_all add: store_ok_def h)
  have cok: "con_ctx_ok mview rview In c w1"
    by (simp add: con_ctx_ok_def c_def con_inv_def stream_keys_def request_queue_def w1_def ce)
  have r: "refs (w1\<lparr>ctxs := X\<rparr>) h' = (if h' = h then 2 else refs w1 h')" for h'
    by (simp add: refs_def X_def h)
  have hd: "holders tg L (quic w1) h' \<le> refs w1 h'" for h' using 1 by (simp add: store_ok_def owned_def)
  have 2: "ok us In (L @ [h]) (w1\<lparr>ctxs := X\<rparr>)"
  proof (rule store_ok_ctxs [OF 1])
    show "h' < fresh w1 \<and> con_ctx_ok mview rview In c' w1" if "X h' = Some (c', n)" for h' c' n
      using that 1 cok by (auto simp: X_def w1_def store_ok_def owned_def con_world_ok_def split: if_splits)
    show "distinct (L @ [h])" using new(1) assms(1) by (simp add: store_ok_def owned_def)
    show "holders tg (L @ [h]) (quic w1) h' \<le> refs (w1\<lparr>ctxs := X\<rparr>) h'" for h'
      unfolding r using hd [of h'] by (auto simp: holders_def)
  qed
  show "ok us In (L @ [h]) w'"
  proof -
    have "ok us In (L @ [h]) ((w1\<lparr>ctxs := X\<rparr>)\<lparr>quic := picoquic_set_callback E (quic w) cnx (Some h)\<rparr>)"
    proof (rule ok_quic [OF 2])
      fix h'
      have "holders tg (L @ [h]) (picoquic_set_callback E (quic w) cnx (Some h)) h' \<le>
          (if h' = h then 2 else holders tg L (quic w) h')"
        using tg_set [of "quic w" cnx h] by (auto simp: holders_def)
      then show "holders tg (L @ [h]) (picoquic_set_callback E (quic w) cnx (Some h)) h' \<le> refs (w1\<lparr>ctxs := X\<rparr>) h'"
        unfolding r using hd [of h'] by (auto simp: w1_def split: if_splits)
    qed
    then show ?thesis by (simp add: w')
  qed
  show "con_world.more w' = con_world.more w" by (simp add: w' w1_def)
  show "\<exists>c. ctxs w' h = Some (c, 2) \<and> cc_next_stream_id c = 0 \<and> cc_is_client c = ic"
    by (simp add: w' X_def h c_def)
  show "tg (quic w') \<subseteq> insert h (tg (quic w))" using tg_set by (simp add: w')
  show "refs w' h = 2" by (simp add: refs_def w' X_def h)
  show "user_waits uview k w'" if "user_waits uview k w" "k \<noteq> u" for k
    using that by (auto simp: user_waits_def w' X_def w1_def c_def)
qed

lemma create_builder_ok:
  assumes "ok us In L w" "create_builder E cnx pa la ic ka sz w = (b, h, w')"
  shows "ok us In (L @ [h]) w'" "con_world.more w' = con_world.more w" "\<exists>c. ctxs w' h = Some (c, 2) \<and>
      cc_next_stream_id c = 0 \<and> cc_is_client c = ic"
    "tg (quic w') \<subseteq> insert h (tg (quic w))" "refs w' h = 2" "keeps_user uview w w'"
proof -
  define w1 where "w1 = w\<lparr>con_msgs := (con_msgs w)(fresh w := mpsc_new (con_ops E) None),
    units := (units w)(Suc (fresh w) := os_new (unit_ops E)), fresh := Suc (Suc (fresh w))\<rparr>"
  obtain h2 rq w2 where n: "con_ctx_new E cnx (fresh w) (Suc (fresh w)) ic la sz w1 = (h2, rq, w2)"
    using prod_cases3 by blast
  have ev1: "evo In w In w1"
    by (rule con_evolves_quiet)
       (use store_ok_typed [OF assms(1)] in \<open>auto simp: w1_def offered_def gone_stays_def cch.view_of_new view_new_def split: if_splits\<close>)
  note c = con_ctx_new_ok [OF store_ok_evolves [OF assms(1) ev1] n]
  define w3 where "w3 = (case ka of Some i \<Rightarrow> w2\<lparr>quic := cnx_enable_keep_alive E cnx i (quic w2)\<rparr> | None \<Rightarrow> w2)"
  have e: "h = h2" "w' = w3"
    using assms(2) n by (simp_all add: create_builder_def Let_def w1_def w3_def)
  have t: "typed mview In w2" using c(1) by (rule store_ok_typed)
  have ev: "evo In w2 In w3"
  proof (cases ka)
    case None
    then show ?thesis by (simp add: w3_def con_evolves_refl [OF t])
  next
    case (Some i)
    then show ?thesis
      using quic_evo [OF t tg_keep_alive [of "quic w2" cnx "as_micro_seconds i"]]
      by (simp add: w3_def cnx_enable_keep_alive_def)
  qed
  then have f: "ctxs w3 = ctxs w2" "con_world.more w3 = con_world.more w2" "tg (quic w3) \<subseteq> tg (quic w2)"
    by (simp_all add: con_evolves_def evolves_def)
  show "ok us In (L @ [h]) w'" unfolding e by (rule store_ok_evolves [OF c(1) ev])
  show "con_world.more w' = con_world.more w" using c(2) f(2) by (simp add: e w1_def)
  show "\<exists>c. ctxs w' h = Some (c, 2) \<and> cc_next_stream_id c = 0 \<and> cc_is_client c = ic" using c(3) f(1) by (simp add: e)
  show "tg (quic w') \<subseteq> insert h (tg (quic w))" using c(4) f(3) by (auto simp: e w1_def)
  show "refs w' h = 2" using c(5) f(1) by (simp add: e refs_def)
  have "user_waits uview k w2" if "user_waits uview k w" for k
    by (rule c(6) [OF keeps_userD [OF con_evolves_keeps [OF ev1] that]]) (use that in \<open>auto simp: user_waits_def\<close>)
  then have "keeps_user uview w w2" by (simp add: keeps_user_def)
  then show "keeps_user uview w w'" unfolding e by (rule keeps_user_trans [OF _ con_evolves_keeps [OF ev]])
qed

text \<open>A connection that comes in: the first event goes to the new context.\<close>

lemma from_incoming_ok:
  assumes "ok us In L w" "\<not> closing event" "is_client_initiated sid \<or> unat sid < 4"
  obtains In' con h w' where "from_incoming E cnx sid data len event ka sz w = Some (con, h, w')"
    "ok us In' (L @ [h]) w'" "con_world.more w' = con_world.more w" "keeps_user uview w w'"
proof -
  obtain pa la where a: "cnx_peer_addr E (quic w) cnx = Some pa" "cnx_local_addr E (quic w) cnx = Some la"
    using addresses unfolding cnx_peer_addr_def cnx_local_addr_def inet_addresses_def by (metis not_None_eq)
  obtain b h w1 where n: "create_builder E cnx pa la False ka sz w = (b, h, w1)" using prod_cases3 by blast
  note c = create_builder_ok [OF assms(1) n]
  from c(3) obtain x where x: "ctxs w1 h = Some (x, 2)" "cc_next_stream_id x = 0" "\<not> cc_is_client x" by blast
  have "reported_id x sid" using assms(3) x(2,3) by (auto simp: reported_id_def)
  from connection_callback_ok [OF c(1) assms(2) x(1) this, of data len] obtain In' w' where
    r: "connection_callback E sid data len event h w1 = Some w'" "ok us In' (L @ [h]) w'"
      "con_world.more w' = con_world.more w1" "keeps_user uview w1 w'" .
  have "from_incoming E cnx sid data len event ka sz w = Some (builder_build b (cnx_local_id E (quic w1) cnx), h, w')"
    using a n r(1) by (simp add: from_incoming_def Let_def)
  then show ?thesis by (rule that) (use r(2,3) c(2) keeps_user_trans [OF c(6) r(4)] in simp_all)
qed

text \<open>A connection that is asked for.\<close>

lemma set_wait_ok [simp]:
  "con_ctx_ok mview rview In (set_wait_for_ready_state b f c) w = con_ctx_ok mview rview In c w"
  by (simp add: con_ctx_ok_def set_wait_for_ready_state_def con_inv_def stream_keys_def request_queue_def)

lemma connection_create_ok:
  assumes "ok us In L w" "\<not> ip_is_unspecified addr"
  obtains r w' where "connection_create E qctx addr la name t ka f sz w = Some (r, w')"
    "ok us In (case r of Ok h \<Rightarrow> L @ [h] | Err _ \<Rightarrow> L) w'" "con_world.more w' = con_world.more w"
    "keeps_user uview w w'"
proof -
  obtain r q where c: "cnx_new E qctx addr t name (quic w) = Some (r, q)" and q: "tg q \<subseteq> tg (quic w)"
    using assms(2) tg_create [of "quic w" qctx addr t 0 name alpn_picoquic]
    by (cases "0 \<in> set name"; cases "picoquic_create_client_cnx E (quic w) qctx addr t 0 name alpn_picoquic")
       (auto simp: cnx_new_def)
  let ?w = "w\<lparr>quic := q\<rparr>"
  have ev: "evo In w In ?w" by (rule quic_evo [OF store_ok_typed [OF assms(1)] q])
  note ok1 = store_ok_evolves [OF assms(1) ev]
  show ?thesis
  proof (cases r)
    case (Err e)
    have d: "evo In ?w In (cfut_drop_tx E f ?w)" by (rule plain_drops_evo(3) [OF con_evolves_typed [OF ev]])
    show ?thesis
      by (rule that [of "Err e" "cfut_drop_tx E f ?w", OF _ _ _ keeps_user_trans [OF con_evolves_keeps [OF ev] con_evolves_keeps [OF d]]])
         (use Err c store_ok_evolves [OF ok1 d] in \<open>simp_all add: connection_create_def Let_def cfut_drop_tx_def\<close>)
  next
    case (Ok cnx)
    obtain b h w1 where n: "create_builder E cnx addr la True ka sz ?w = (b, h, w1)" using prod_cases3 by blast
    note cb = create_builder_ok [OF ok1 n]
    from cb(3) obtain x where x: "ctxs w1 h = Some (x, 2)" by blast
    let ?w2 = "arc_update h (set_wait_for_ready_state b f x) w1"
    have "ok us In (L @ [h]) ?w2"
      by (rule arc_update_ok [OF cb(1)]) (simp add: ok_ctx [OF cb(1) x])
    moreover have "connection_create E qctx addr la name t ka f sz w = Some (Ok h, ?w2)"
      using c Ok n x by (simp add: connection_create_def Let_def)
    moreover have "con_world.more ?w2 = con_world.more w" using cb(2) by (simp add: arc_update_def)
    moreover have "keeps_user uview w1 ?w2"
      by (rule arc_update_keeps [OF x]) (simp add: set_wait_for_ready_state_def)
    then have "keeps_user uview w ?w2"
      using con_evolves_keeps [OF ev] cb(6) by (blast intro: keeps_user_trans)
    ultimately show ?thesis by (intro that [of "Ok h" ?w2]) simp_all
  qed
qed

end

end
