(* ===== verification/Loop_Safety.thy ===== *)
theory Loop_Safety
  imports Context_Ownership Contexts
begin

text \<open>
  The whole program: the event loop of \<^verbatim>\<open>src/context_inner.rs\<close> with the contexts of
  all connections and streams, the callbacks of picoquic, and the users beside it.  In every
  state that the program can reach, the references to the contexts cover their holders and all
  channels are well typed; so no operation panics and no callback reaches a context that is gone.
\<close>

section \<open>Well-behaved runs of picoquic\<close>

text \<open>
  What the sources rely on when picoquic calls back.  It only calls contexts that it was given
  (\<open>T\<close> is the set of those before the callback); before it announces the end of a
  connection it gives up the context; otherwise it names a stream that can exist.  A connection
  that is new to the program begins with a stream of the peer, and is not closed already unless
  its state says so.
\<close>

definition callback_ok where
  "callback_ok E tg cb q T w \<longleftrightarrow>
     tg q \<subseteq> T \<and>
     (case cbk_target cb of
        ToConnection h \<Rightarrow>
          h \<in> T \<and>
          (if closing (cbk_event cb) then h \<notin> tg q
           else h \<in> tg q \<and> (\<forall>c n. ctxs w h = Some (c, n) \<longrightarrow> reported_id c (cbk_stream_id cb)))
      | ToNewConnection cnx \<Rightarrow>
          cnx_is_going_to_close E q cnx \<or>
          \<not> closing (cbk_event cb) \<and> (is_client_initiated (cbk_stream_id cb) \<or> unat (cbk_stream_id cb) < 4))"

text \<open>A run is followed through the states that the callbacks leave behind.\<close>

primrec run_ok where
  "run_ok E tg post (CReturn a q) w \<longleftrightarrow> tg q \<subseteq> tg (quic w) \<and> post a q"
| "run_ok E tg post (CCallback cb q cont) w \<longleftrightarrow>
     callback_ok E tg cb q (tg (quic w)) w \<and>
     (\<forall>w'. dispatch E cb (w\<lparr>quic := q\<rparr>) = Some w' \<longrightarrow> run_ok E tg post (cont (quic w')) w')"

section \<open>What a user may do\<close>

text \<open>A user holds streams \<open>us\<close>, and any handles to connections, requests and futures.  A
  stream may be requested while its id can still be generated; a connection may be requested to
  any address but the unspecified one.\<close>

definition may_request where
  "may_request rview rq w \<longleftrightarrow>
     (\<forall>h c n. ctxs w h = Some (c, n) \<and> cc_recv_create_stream c = rq \<longrightarrow>
        unat (cc_next_stream_id c) + length (request_queue rview c w) + 1 < 2 ^ 62)"

inductive user_step for E rview where
  send: "st \<in> us \<Longrightarrow> stream_start_send E item st w = (rs, w') \<Longrightarrow> user_step E rview us w us w'"
| flush: "st \<in> us \<Longrightarrow> stream_poll_complete E st w = (rf, w') \<Longrightarrow> user_step E rview us w us w'"
| receive: "st \<in> us \<Longrightarrow> stream_poll E st w = Some (rp, st', w') \<Longrightarrow> user_step E rview us w (insert st' us) w'"
| reset: "st \<in> us \<Longrightarrow> stream_reset E st w = (rr, w') \<Longrightarrow> user_step E rview us w us w'"
| resize: "st \<in> us \<Longrightarrow> set_send_channel_size E sz st w = (st', w') \<Longrightarrow>
    user_step E rview us w (insert st' us) w'"
| drop_stream: "st \<in> us \<Longrightarrow> user_step E rview us w (us - {st}) (stream_drop E st w)"
| accept_stream: "connection_poll E con w = (ra, w') \<Longrightarrow>
    user_step E rview us w (us \<union> {st. ra = Ok (Ready (Some st))}) w'"
| stream_future: "new_stream_future_poll E f w = (rn, w') \<Longrightarrow>
    user_step E rview us w (us \<union> {st. rn = Ok (Ready st)}) w'"
| request_stream: "may_request rview rq w \<Longrightarrow> new_stream_handle E rq stype w = (f, w') \<Longrightarrow>
    user_step E rview us w us w'"
| clone_handle: "get_new_stream_handle E con w = (h, w') \<Longrightarrow> user_step E rview us w us w'"
| close: "user_step E rview us w us (close_immediately E con w)"
| drop_connection: "user_step E rview us w us (connection_drop E con w)"
| drop_stream_future: "user_step E rview us w us (new_stream_future_drop E f w)"
| drop_stream_handle: "user_step E rview us w us (req_drop_tx E rq w)"
| drop_context: "user_step E rview us w us (user_context_drop E ctx w)"
| drop_connect_future: "user_step E rview us w us (new_connection_future_drop E f w)"
| drop_connect_handle: "user_step E rview us w us (connection_handle_drop E h w)"
| accept_connection: "context_poll E ctx w = (rc, w') \<Longrightarrow> user_step E rview us w us w'"
| connect: "\<not> ip_is_unspecified addr \<Longrightarrow> handle_new_connection E h addr name w = (f, w') \<Longrightarrow>
    user_step E rview us w us w'"
| connect_future: "new_connection_future_poll E f w = (rw, w') \<Longrightarrow> user_step E rview us w us w'"
| clone_connect: "get_new_connection_handle E ctx w = (h, w') \<Longrightarrow> user_step E rview us w us w'"

section \<open>What the event loop does\<close>

definition add_connection where
  "add_connection r w = (case r of
     Ok h \<Rightarrow> w\<lparr>cctx := (cctx w)\<lparr>connections := connections (cctx w) @ [h]\<rparr>\<rparr>
   | Err _ \<Rightarrow> w)"

text \<open>The steps of the loop that touch the world, with any arguments; in between it takes
  requests out of their queue and looks at its one-shot channels.\<close>

inductive loop_step for E where
  contexts: "c_context_poll E w = Some (rp, w') \<Longrightarrow> loop_step E w w'"
| request: "\<not> ip_is_unspecified addr \<Longrightarrow>
    connection_create E qctx addr la name t ka f sz w = Some (rc, w') \<Longrightarrow>
    loop_step E w (add_connection rc w')"
| incoming: "run_c E (picoquic_incoming_packet E (quic w) p buf from_addr to_addr t) w = Some (ri, w') \<Longrightarrow>
    loop_step E w w'"
| prepare: "run_c E (picoquic_prepare_packet E (quic w) cnx t buf) w = Some (ro, w') \<Longrightarrow> loop_step E w w'"
| delete: "run_c E (picoquic_delete_cnx E (quic w) cnx) w = Some (u, w') \<Longrightarrow> loop_step E w w'"
| dequeue: "picoquic_dequeue_stateless_packet E (quic w) p = (pk, q) \<Longrightarrow> loop_step E w (w\<lparr>quic := q\<rparr>)"
| stateless: "loop_step E w (w\<lparr>quic := picoquic_delete_stateless_packet E (quic w) pk\<rparr>)"
| take_request: "mpsc_poll (connect_ops E) (connects w h) = (rq, ch) \<Longrightarrow>
    loop_step E w (w\<lparr>connects := (connects w)(h := ch)\<rparr>)"
| look: "os_poll_cancel (unit_ops E) (units w h) = (rd, ud) \<Longrightarrow>
    loop_step E w (w\<lparr>units := (units w)(h := ud)\<rparr>)"
| shut: "loop_step E w (w\<lparr>units := (units w)(h := snd (os_send (unit_ops E) (units w h) ()))\<rparr>)"
| wake: "loop_step E w (w\<lparr>notified := k\<rparr>)"

text \<open>The program starts without connections and with empty channels.\<close>

definition fresh_world where
  "fresh_world mview tg cview sview pview w \<longleftrightarrow>
     (\<forall>h. queue mview h w = []) \<and> (\<forall>h. ctxs w h = None) \<and> tg (quic w) = {} \<and>
     offered cview sview w = {} \<and> (\<forall>h. cv_buffer (pview (connects w h)) = []) \<and>
     connections (cctx w) = []"

inductive reach for E mview tg cview rview sview pview where
  start: "fresh_world mview tg cview sview pview w \<Longrightarrow> reach E mview tg cview rview sview pview {} w"
| loop: "reach E mview tg cview rview sview pview us w \<Longrightarrow> loop_step E w w' \<Longrightarrow>
    reach E mview tg cview rview sview pview us w'"
| user: "reach E mview tg cview rview sview pview us w \<Longrightarrow> user_step E rview us w us' w' \<Longrightarrow>
    reach E mview tg cview rview sview pview us' w'"

section \<open>The invariant\<close>

definition requests_ok where
  "requests_ok pview w \<longleftrightarrow> (\<forall>h. \<forall>rq\<in>set (cv_buffer (pview (connects w h))). \<not> ip_is_unspecified (fst rq))"

lemma con_ctx_ok_inner [simp]:
  "con_ctx_ok mview rview In c (w\<lparr>cctx := x\<rparr>) = con_ctx_ok mview rview In c w"
  "con_ctx_ok mview rview In c (w\<lparr>newcons := y\<rparr>) = con_ctx_ok mview rview In c w"
  "con_ctx_ok mview rview In c (w\<lparr>connects := z\<rparr>) = con_ctx_ok mview rview In c w"
  "con_ctx_ok mview rview In c (w\<lparr>notified := k\<rparr>) = con_ctx_ok mview rview In c w"
  by (simp_all add: con_ctx_ok_def stream_ctx_ok_def request_queue_def queue_def)

lemma store_ok_inner [simp]:
  "store_ok mview tg cview rview sview us In L (w\<lparr>cctx := x\<rparr>) = store_ok mview tg cview rview sview us In L w"
  "store_ok mview tg cview rview sview us In L (w\<lparr>newcons := y\<rparr>) = store_ok mview tg cview rview sview us In L w"
  "store_ok mview tg cview rview sview us In L (w\<lparr>connects := z\<rparr>) = store_ok mview tg cview rview sview us In L w"
  "store_ok mview tg cview rview sview us In L (w\<lparr>notified := k\<rparr>) = store_ok mview tg cview rview sview us In L w"
  by (simp_all add: store_ok_def con_world_ok_def owned_def typed_def queue_def offered_def stream_ok_def refs_def)

lemma requests_ok_upd [simp]:
  "requests_ok pview (w\<lparr>cctx := x\<rparr>) = requests_ok pview w" "requests_ok pview (w\<lparr>newcons := y\<rparr>) = requests_ok pview w"
  "requests_ok pview (w\<lparr>notified := k\<rparr>) = requests_ok pview w" "requests_ok pview (w\<lparr>quic := q\<rparr>) = requests_ok pview w"
  "requests_ok pview (w\<lparr>units := v\<rparr>) = requests_ok pview w"
  by (simp_all add: requests_ok_def)

lemma inner_more_eqD:
  assumes "con_world.more w' = con_world.more w"
  shows "cctx w' = cctx w" "newcons w' = newcons w" "connects w' = connects w" "notified w' = notified w"
  using assms by (cases w; cases w'; simp)+

lemma requests_ok_more:
  assumes "con_world.more w' = con_world.more w"
  shows "requests_ok pview w' = requests_ok pview w"
  by (simp add: requests_ok_def inner_more_eqD(3) [OF assms])

text \<open>What the event loop does on its own neither takes a receiver away from a user nor asks the
  executor to wake it.\<close>

definition undisturbed where
  "undisturbed uview w w' \<longleftrightarrow> notified w' = notified w \<and> keeps_user uview w w'"

lemma undisturbed_refl [simp]: "undisturbed uview w w"
  by (simp add: undisturbed_def)

lemma undisturbed_trans [trans]: "undisturbed uview w w1 \<Longrightarrow> undisturbed uview w1 w2 \<Longrightarrow> undisturbed uview w w2"
  unfolding undisturbed_def by (auto intro: keeps_user_trans)

lemma undisturbed_con:
  assumes "con_world.more w' = con_world.more w" "keeps_user uview w w'"
  shows "undisturbed uview w w'"
  using assms(2) by (simp add: undisturbed_def inner_more_eqD(4) [OF assms(1)])

lemma undisturbed_inner [simp]:
  "undisturbed uview w (w\<lparr>quic := q\<rparr>)" "undisturbed uview w (w\<lparr>cctx := x\<rparr>)"
  "undisturbed uview w (w\<lparr>newcons := y\<rparr>)" "undisturbed uview w (w\<lparr>connects := z\<rparr>)"
  by (simp_all add: undisturbed_def keeps_user_def user_waits_def)

locale loop_library =
  connection_library E mview dview cview rview uview sview nview tg + pch: mpsc_channel "connect_ops E" pview
  for E :: "('m, 'd, 'q, 'c, 'r, 'u, 's, 'n, 'h, 'x, 'y, 'i, 'k, 't, 'b, 'p, 'e) ienv"
    and mview dview cview rview uview sview nview tg pview +
  assumes tg_dequeue: "tg (snd (picoquic_dequeue_stateless_packet E q qctx)) \<subseteq> tg q"
    and tg_delete_stateless: "tg (picoquic_delete_stateless_packet E q p) \<subseteq> tg q"
begin

definition loop_inv ::
  "stream set \<Rightarrow> nat set \<Rightarrow> ('m, 'd, 'q, 'c, 'r, 'u, 's, 'n, 'b, 'p, 'w) iworld \<Rightarrow> bool" where
  "loop_inv us In w \<longleftrightarrow> ok us In (connections (cctx w)) w \<and> requests_ok pview w"

lemma inv_evo:
  assumes "loop_inv us In w" "con_evolves mview tg cview rview sview uview D In w In' w'"
  shows "loop_inv us In' w'"
proof -
  have m: "con_world.more w' = con_world.more w" using assms(2) by (simp add: con_evolves_def)
  show ?thesis
    using assms(1) store_ok_evolves [OF _ assms(2), of us "connections (cctx w)"]
    by (simp add: loop_inv_def inner_more_eqD(1) [OF m] requests_ok_more [OF m])
qed

lemma inv_typed: "loop_inv us In w \<Longrightarrow> typed mview In w"
  by (auto simp: loop_inv_def intro: store_ok_typed)

lemma inv_user: "loop_inv us In w \<Longrightarrow> st \<in> us \<Longrightarrow> stream_ok In st w"
  by (simp add: loop_inv_def store_ok_def)

lemma inv_more_streams:
  "loop_inv us In w \<Longrightarrow> (\<And>st. st \<in> us' \<Longrightarrow> stream_ok In st w) \<Longrightarrow> loop_inv us' In w"
  by (simp add: loop_inv_def store_ok_def)

lemma inv_offered: "loop_inv us In w \<Longrightarrow> st \<in> offered cview sview w \<Longrightarrow> stream_ok In st w"
  by (simp add: loop_inv_def store_ok_def con_world_ok_def)

section \<open>Callbacks\<close>

lemma new_connection_inv:
  assumes "ok us In (connections (cctx w) @ [h]) w" "requests_ok pview w"
  shows "loop_inv us In (new_connection E con h w)" "undisturbed uview w (new_connection E con h w)"
proof -
  let ?w = "w\<lparr>cctx := (cctx w)\<lparr>connections := connections (cctx w) @ [h]\<rparr>\<rparr>"
  obtain r ch where s: "mpsc_unbounded_send (newcon_ops E) (newcons ?w (send_con (cctx ?w))) con = (r, ch)" by fastforce
  let ?w2 = "?w\<lparr>newcons := (newcons ?w)(send_con (cctx ?w) := ch)\<rparr>"
  have i: "loop_inv us In ?w2" using assms by (simp add: loop_inv_def)
  have d: "evo In ?w2 In (connection_drop E con' ?w2)" for con'
    by (rule connection_drop_evo [OF inv_typed [OF i]])
  then have "con_world.more (connection_drop E con' ?w2) = con_world.more ?w2" for con' by (simp add: con_evolves_def)
  note d2 = inv_evo [OF i d] undisturbed_con [OF this con_evolves_keeps [OF d]]
  have u: "undisturbed uview w ?w2" by (rule undisturbed_trans [OF undisturbed_inner(2) undisturbed_inner(3)])
  have "new_connection E con h w = (case r of Ok _ \<Rightarrow> ?w2 | Err con \<Rightarrow> connection_drop E con ?w2)"
    using s by (simp add: new_connection_def Let_def split: result.split)
  with i d2 u undisturbed_trans [OF u d2(2)] show "loop_inv us In (new_connection E con h w)"
    "undisturbed uview w (new_connection E con h w)"
    by (cases r; metis result.simps(5,6))+
qed

text \<open>A callback that leaves the list of the event loop alone.\<close>

lemma inv_frame:
  assumes "loop_inv us In w" "ok us In' (connections (cctx w)) w'" "con_world.more w' = con_world.more w"
  shows "loop_inv us In' w'"
  using assms(1,2)
  by (simp add: loop_inv_def inner_more_eqD(1) [OF assms(3)] requests_ok_more [OF assms(3)])

lemma connection_callback_inv:
  assumes "loop_inv us In w" "loop_inv us In (w\<lparr>quic := q\<rparr>)" "h \<in> tg (quic w)"
    and "if closing event then h \<notin> tg q
      else h \<in> tg q \<and> (\<forall>c n. ctxs w h = Some (c, n) \<longrightarrow> reported_id c sid)"
  obtains In' w' where "connection_callback E sid bytes len event h (w\<lparr>quic := q\<rparr>) = Some w'" "loop_inv us In' w'"
    "undisturbed uview w w'"
proof -
  let ?w = "w\<lparr>quic := q\<rparr>" and ?L = "connections (cctx w)"
  have ok: "ok us In ?L ?w" using assms(2) by (simp add: loop_inv_def)
  show ?thesis
  proof (cases "closing event")
    case True
    with assms(4) have h: "h \<notin> tg q" by simp
    have "holders tg ?L (quic w) h \<le> refs w h" using assms(1) by (simp add: loop_inv_def store_ok_def owned_def)
    with h assms(3) have "holders tg ?L (quic ?w) h + 1 \<le> refs ?w h" by (simp add: holders_def refs_def)
    from closing_callback_ok [OF ok True this, of sid bytes len]
    obtain w' where r: "connection_callback E sid bytes len event h ?w = Some w'"
      "ok us In ?L w'" "con_world.more w' = con_world.more ?w" "keeps_user uview ?w w'" .
    have "loop_inv us In w'" by (rule inv_frame [OF assms(2) _ r(3)]) (use r(2) in simp)
    with r(1) show ?thesis by (rule that) (rule undisturbed_trans [OF undisturbed_inner(1) undisturbed_con [OF r(3,4)]])
  next
    case False
    with assms(4) have h: "h \<in> tg q" "\<forall>c n. ctxs w h = Some (c, n) \<longrightarrow> reported_id c sid" by simp_all
    have "owned tg ?L ?w" "h \<in> set ?L \<or> h \<in> tg (quic ?w)" using ok h(1) by (simp_all add: store_ok_def)
    then obtain c n where c: "ctxs ?w h = Some (c, n)" by (rule owned_alive)
    with h(2) have "reported_id c sid" by simp
    from connection_callback_ok [OF ok False c this, of bytes len]
    obtain In' w' where r: "connection_callback E sid bytes len event h ?w = Some w'"
      "ok us In' ?L w'" "con_world.more w' = con_world.more ?w" "keeps_user uview ?w w'" .
    have "loop_inv us In' w'" by (rule inv_frame [OF assms(2) _ r(3)]) (use r(2) in simp)
    with r(1) show ?thesis by (rule that) (rule undisturbed_trans [OF undisturbed_inner(1) undisturbed_con [OF r(3,4)]])
  qed
qed

lemma new_connection_callback_inv:
  assumes "loop_inv us In w"
    and "cnx_is_going_to_close E (quic w) cnx \<or>
      \<not> closing event \<and> (is_client_initiated sid \<or> unat sid < 4)"
  obtains In' w' where "new_connection_callback E cnx sid bytes len event w = Some w'" "loop_inv us In' w'"
    "undisturbed uview w w'"
proof (cases "cnx_is_going_to_close E (quic w) cnx")
  case True
  then show ?thesis by (intro that [of w In]) (simp_all add: new_connection_callback_def assms(1))
next
  case False
  with assms(2) have c: "\<not> closing event" "is_client_initiated sid \<or> unat sid < 4" by simp_all
  have "ok us In (connections (cctx w)) w" using assms(1) by (simp add: loop_inv_def)
  from from_incoming_ok [OF this c, of cnx bytes len "server_keep_alive_interval (cctx w)"
      "cctx_stream_send_channel_default_size (cctx w)"]
  obtain In' con h w' where r: "from_incoming E cnx sid bytes len event (server_keep_alive_interval (cctx w))
      (cctx_stream_send_channel_default_size (cctx w)) w = Some (con, h, w')"
    "ok us In' (connections (cctx w) @ [h]) w'" "con_world.more w' = con_world.more w" "keeps_user uview w w'" .
  have "ok us In' (connections (cctx w') @ [h]) w'" "requests_ok pview w'"
    using r(2) assms(1) by (simp_all add: inner_more_eqD(1) [OF r(3)] requests_ok_more [OF r(3)] loop_inv_def)
  note n = new_connection_inv [OF this, of con]
  have "new_connection_callback E cnx sid bytes len event w = Some (new_connection E con h w')"
    using r(1) False by (simp add: new_connection_callback_def)
  then show ?thesis by (rule that [OF _ n(1) undisturbed_trans [OF undisturbed_con [OF r(3,4)] n(2)]])
qed

lemma dispatch_inv:
  assumes "loop_inv us In w" "callback_ok E tg cb q (tg (quic w)) w"
  obtains In' w' where "dispatch E cb (w\<lparr>quic := q\<rparr>) = Some w'" "loop_inv us In' w'" "undisturbed uview w w'"
proof -
  have q: "tg q \<subseteq> tg (quic w)" using assms(2) by (simp add: callback_ok_def)
  have i: "loop_inv us In (w\<lparr>quic := q\<rparr>)" by (rule inv_evo [OF assms(1) quic_evo [OF inv_typed [OF assms(1)] q]])
  show ?thesis
  proof (cases "cbk_target cb")
    case (ToConnection h)
    with assms(2) have "h \<in> tg (quic w)" "if closing (cbk_event cb) then h \<notin> tg q
        else h \<in> tg q \<and> (\<forall>c n. ctxs w h = Some (c, n) \<longrightarrow> reported_id c (cbk_stream_id cb))"
      by (simp_all add: callback_ok_def)
    then show ?thesis
      by (rule connection_callback_inv [OF assms(1) i, where bytes = "cbk_bytes cb" and len = "cbk_length cb"])
         (rule that, simp_all add: dispatch_def ToConnection)
  next
    case (ToNewConnection cnx)
    with assms(2) have "cnx_is_going_to_close E (quic (w\<lparr>quic := q\<rparr>)) cnx \<or>
        \<not> closing (cbk_event cb) \<and> (is_client_initiated (cbk_stream_id cb) \<or> unat (cbk_stream_id cb) < 4)"
      by (simp add: callback_ok_def)
    then show ?thesis
      by (rule new_connection_callback_inv [OF i, where bytes = "cbk_bytes cb" and len = "cbk_length cb"])
         (rule that, simp_all add: dispatch_def ToNewConnection, erule undisturbed_trans [OF undisturbed_inner(1)])
  qed
qed

lemma run_c_inv:
  assumes "loop_inv us In w" "run_ok E tg post run w"
  shows "\<exists>In' a w'. run_c E run w = Some (a, w') \<and> loop_inv us In' w' \<and> post a (quic w') \<and>
    undisturbed uview w w'"
  using assms
proof (induction run arbitrary: In w)
  case (CReturn a q)
  then have "loop_inv us In (w\<lparr>quic := q\<rparr>)"
    by (intro inv_evo [OF CReturn.prems(1) quic_evo [OF inv_typed]]) simp_all
  with CReturn.prems(2) show ?case by auto
next
  case (CCallback cb q cont)
  then have "callback_ok E tg cb q (tg (quic w)) w" by simp
  with CCallback.prems(1) obtain In1 w1 where d: "dispatch E cb (w\<lparr>quic := q\<rparr>) = Some w1" "loop_inv us In1 w1"
    "undisturbed uview w w1"
    by (rule dispatch_inv)
  have "run_ok E tg post (cont (quic w1)) w1" using CCallback.prems(2) d(1) by simp
  from CCallback.IH [OF _ d(2) this] d(1) undisturbed_trans [OF d(3)] show ?case by auto
qed

section \<open>Polling all contexts\<close>

definition kept where
  "kept w w' \<longleftrightarrow> con_world.more w' = con_world.more w \<and> gone_stays uview UNIV w w' \<and> fresh w \<le> fresh w' \<and>
     keeps_user uview w w'"

lemma kept_trans: "kept w w1 \<Longrightarrow> kept w1 w2 \<Longrightarrow> kept w w2"
  unfolding kept_def using gone_stays_trans [of uview UNIV w w1 w2] keeps_user_trans [of uview w w1 w2] by simp

lemma retain_connections_ok:
  assumes "ok us In (pre @ hs) w"
  shows "\<exists>In' hs' w'. retain_connections E hs w = Some (hs', w') \<and> ok us In' (pre @ hs') w' \<and>
    kept w w'"
  using assms
proof (induction hs arbitrary: pre In w)
  case Nil
  then show ?case by (auto simp: kept_def)
next
  case (Cons h hs)
  let ?L = "pre @ h # hs"
  have own: "owned tg ?L w" using Cons.prems by (simp add: store_ok_def)
  obtain c n where c: "ctxs w h = Some (c, n)" by (rule owned_alive [OF own, of h]) simp
  obtain In1 r c1 w1 where p: "con_ctx_poll E c w = Some (Ok r, c1, w1)" "evo In w In1 w1" "con_ctx_ok mview rview In1 c1 w1"
    "cc_close_recv c1 = cc_close_recv c"
    by (rule con_ctx_poll_ok [OF store_ok_typed [OF Cons.prems] ok_ctx [OF Cons.prems c]])
  let ?w2 = "arc_update h c1 w1"
  have ok2: "ok us In1 ?L ?w2" by (rule arc_update_ok [OF store_ok_evolves [OF Cons.prems p(2)] p(3)])
  have "ctxs w1 h = Some (c, n)" using p(2) c by (simp add: con_evolves_def)
  from keeps_user_trans [OF con_evolves_keeps [OF p(2)] arc_update_keeps [OF this p(4)]]
  have m2: "kept w ?w2"
    using p(2) by (simp add: arc_update_def con_evolves_def kept_def gone_stays_def evolves_def)
  show ?case
  proof (cases "is_not_ready r")
    case True
    from ok2 have "ok us In1 ((pre @ [h]) @ hs) ?w2" by simp
    from Cons.IH [OF this] obtain In' hs' w' where IH: "retain_connections E hs ?w2 = Some (hs', w')"
      "ok us In' ((pre @ [h]) @ hs') w'" "kept ?w2 w'" by blast
    have "retain_connections E (h # hs) w = Some (h # hs', w')" using c p(1) IH(1) True by (simp add: Let_def)
    with IH(2) kept_trans [OF m2 IH(3)] show ?thesis by fastforce
  next
    case False
    have own2: "distinct ?L" "\<And>h'. holders tg ?L (quic ?w2) h' \<le> refs ?w2 h'" using ok2 by (simp_all add: store_ok_def owned_def)
    have "holders tg (pre @ hs) (quic ?w2) h' + (if h' = h then 1 else 0) \<le> refs ?w2 h'" for h'
      using own2(1) own2(2) [of h'] by (auto simp: holders_def split: if_splits)
    from arc_drop_ok [OF ok2 _ this] own2(1)
    have d: "ok us In1 (pre @ hs) (arc_drop E h ?w2)" "kept ?w2 (arc_drop E h ?w2)" by (simp_all add: kept_def)
    from Cons.IH [OF d(1)] obtain In' hs' w' where IH: "retain_connections E hs (arc_drop E h ?w2) = Some (hs', w')"
      "ok us In' (pre @ hs') w'" "kept (arc_drop E h ?w2) w'" by blast
    have "retain_connections E (h # hs) w = Some (hs', w')" using c p(1) IH(1) False by (simp add: Let_def)
    with IH(2) kept_trans [OF kept_trans [OF m2 d(2)] IH(3)] show ?thesis by auto
  qed
qed

lemma c_context_poll_inv:
  assumes "loop_inv us In w"
  obtains In' w' where "c_context_poll E w = Some (Ok NotReady, w')" "loop_inv us In' w'" "connects w' = connects w"
    "gone_stays uview UNIV w w'" "undisturbed uview w w'"
proof -
  have "ok us In ([] @ connections (cctx w)) w" using assms by (simp add: loop_inv_def)
  from retain_connections_ok [OF this] obtain In' hs' w1 where
    r: "retain_connections E (connections (cctx w)) w = Some (hs', w1)" "ok us In' hs' w1"
      "con_world.more w1 = con_world.more w" "gone_stays uview UNIV w w1" "keeps_user uview w w1" by (auto simp: kept_def)
  let ?w = "w1\<lparr>cctx := (cctx w1)\<lparr>connections := hs'\<rparr>\<rparr>"
  have "c_context_poll E w = Some (Ok NotReady, ?w)" using r(1) by (simp add: c_context_poll_def)
  moreover have "loop_inv us In' ?w" using assms r(2) by (simp add: loop_inv_def requests_ok_more [OF r(3)])
  moreover have "connects ?w = connects w" by (simp add: inner_more_eqD(3) [OF r(3)])
  moreover have "gone_stays uview UNIV w ?w" using r(4) by (simp add: gone_stays_def)
  moreover have "undisturbed uview w ?w"
    by (rule undisturbed_trans [OF undisturbed_con [OF r(3,5)] undisturbed_inner(2)])
  ultimately show ?thesis by (rule that)
qed

lemma connection_create_inv:
  assumes "loop_inv us In w" "\<not> ip_is_unspecified addr"
  obtains r w' where "connection_create E qctx addr la name t ka f sz w = Some (r, w')"
    "loop_inv us In (add_connection r w')" "connects w' = connects w" "undisturbed uview w (add_connection r w')"
proof -
  from assms have "ok us In (connections (cctx w)) w" by (simp add: loop_inv_def)
  from connection_create_ok [OF this assms(2), of qctx la name t ka f sz] obtain r w' where
    c: "connection_create E qctx addr la name t ka f sz w = Some (r, w')"
      "ok us In (case r of Ok h \<Rightarrow> connections (cctx w) @ [h] | Err _ \<Rightarrow> connections (cctx w)) w'"
      "con_world.more w' = con_world.more w" "keeps_user uview w w'" .
  have "undisturbed uview w' (add_connection r w')" by (simp add: add_connection_def split: result.split)
  note u = undisturbed_trans [OF undisturbed_con [OF c(3,4)] this]
  have "loop_inv us In (add_connection r w')"
    using c(2) assms(1)
    by (simp add: loop_inv_def add_connection_def requests_ok_more [OF c(3)] inner_more_eqD(1) [OF c(3)] split: result.splits)
  with c(1) show ?thesis by (rule that) (simp_all add: inner_more_eqD(3) [OF c(3)] u)
qed

section \<open>Steps of the users\<close>

lemma inv_connects:
  assumes "loop_inv us In w" "\<And>rq. rq \<in> set (cv_buffer (pview ch)) \<Longrightarrow>
      rq \<in> set (cv_buffer (pview (connects w h))) \<or> \<not> ip_is_unspecified (fst rq)"
  shows "loop_inv us In (w\<lparr>connects := (connects w)(h := ch)\<rparr>)"
proof -
  have "\<not> ip_is_unspecified (fst rq)" if "rq \<in> set (cv_buffer (pview (((connects w)(h := ch)) h')))" for h' rq
    using that assms(2) [of rq] assms(1) by (cases "h' = h") (auto simp: loop_inv_def requests_ok_def)
  with assms(1) show ?thesis by (simp add: loop_inv_def requests_ok_def)
qed

lemma inv_stream:
  assumes "loop_inv us In w" "evolves mview tg In w In' w'" "world.more w' = world.more w"
  shows "loop_inv us In' w'"
  by (rule inv_evo [OF assms(1) con_evolves_stream [OF assms(2,3)]])

lemma new_stream_handle_inv:
  assumes "loop_inv us In w" "may_request rview rq w"
  shows "loop_inv us In (snd (new_stream_handle E rq stype w))"
proof -
  let ?f = "fresh w"
  define w1 where "w1 = w\<lparr>sfuts := (sfuts w)(?f := os_new (sfut_ops E)), fresh := Suc ?f\<rparr>"
  have "evo In w In w1"
    by (rule con_evolves_quiet)
       (use inv_typed [OF assms(1)] in \<open>auto simp: w1_def offered_def gone_stays_def sch.oview_new ov_new_def split: if_splits\<close>)
  then have i1: "loop_inv us In w1" by (rule inv_evo [OF assms(1)])
  obtain r ce where s: "sender_start_send (req_ops E) (reqs w rq) (stype, ?f) = (r, ce)" by fastforce
  let ?w2 = "w1\<lparr>reqs := (reqs w)(rq := ce)\<rparr>"
  have len: "length (cv_buffer (rview (ce_chan ce))) \<le> length (cv_buffer (rview (ce_chan (reqs w rq)))) + 1"
    using rch.sender_start_send_open(1) [of "reqs w rq" "(stype, ?f)"]
      rch.sender_start_send_closed(2) [of "reqs w rq" "(stype, ?f)"] s
    by (cases "cv_open (rview (ce_chan (reqs w rq)))") auto
  have ctx: "con_ctx_ok mview rview In c ?w2" if "ctxs w h = Some (c, n)" for h c n
  proof -
    have "ctxs w1 h = Some (c, n)" using that by (simp add: w1_def)
    moreover have "ok us In (connections (cctx w1)) w1" using i1 by (simp add: loop_inv_def)
    ultimately have ok: "con_ctx_ok mview rview In c w1" by (blast intro: ok_ctx)
    have "unat (cc_next_stream_id c) + length (request_queue rview c ?w2) < 2 ^ 62"
    proof (cases "cc_recv_create_stream c = rq")
      case True
      with assms(2) that have "unat (cc_next_stream_id c) + length (request_queue rview c w) + 1 < 2 ^ 62"
        unfolding may_request_def by blast
      with len True show ?thesis by (simp add: request_queue_def)
    next
      case False
      with ok show ?thesis by (simp add: con_ctx_ok_def request_queue_def w1_def)
    qed
    with ok show ?thesis by (simp add: con_ctx_ok_def stream_ctx_ok_def queue_def)
  qed
  have i2: "loop_inv us In ?w2"
    using i1 ctx
    by (auto simp: loop_inv_def store_ok_def con_world_ok_def owned_def typed_def queue_def offered_def stream_ok_def
        refs_def requests_ok_def w1_def)
  have snd: "loop_inv us In (sfut_send E f (Err e) ?w2)" for f e
    by (rule inv_evo [OF i2 sfut_send_evo [OF inv_typed [OF i2]]]) simp
  have eq: "w1\<lparr>reqs := (reqs w1)(rq := ce)\<rparr> = ?w2" by (simp add: w1_def)
  have "snd (new_stream_handle E rq stype w) = (case r of Ok _ \<Rightarrow> ?w2
      | Err (Channel e (_, f)) \<Rightarrow> sfut_send E f (Err e) ?w2
      | Err (Normal (_, f)) \<Rightarrow> sfut_send E f (Err (error_from_kind Unknown)) ?w2)"
    using s by (simp add: new_stream_handle_def Let_def w1_def split: result.split send_error.split)
  with i2 snd show ?thesis by (auto split: result.split send_error.split)
qed

text \<open>The user's ends of streams.\<close>

lemma sink_inv:
  assumes "loop_inv us In w"
  shows "loop_inv us In (snd (stream_start_send E item st w))" "loop_inv us In (snd (stream_poll_complete E st w))"
  by (rule inv_stream [OF assms sink_evolves(1) [OF inv_typed [OF assms]]],
      simp add: stream_start_send_def split_beta split: result.split)
     (rule inv_stream [OF assms sink_evolves(2) [OF inv_typed [OF assms]]],
      simp add: stream_poll_complete_def split_beta split: result.split)

lemma stream_poll_inv:
  assumes "loop_inv us In w" "st \<in> us" "stream_poll E st w = Some (r, st', w')"
  shows "loop_inv (insert st' us) In w'"
proof -
  obtain r2 st2 w2 where p: "stream_poll E st w = Some (r2, st2, w2)" "evolves mview tg In w In w2" "stream_ok In st2 w2"
    by (rule stream_poll_ok [OF inv_typed [OF assms(1)] inv_user [OF assms(1,2)]])
  then have e: "st' = st2" "w' = w2" using assms(3) by simp_all
  have "snd (msg_poll E (st_recv_msg st) w) = w'"
    using assms(3) by (cases "msg_poll E (st_recv_msg st) w")
      (auto simp: stream_poll_def split: result.splits async.splits option.splits message.splits)
  then have "world.more w' = world.more w" using msg_poll_frame [of E "st_recv_msg st" w] by simp
  then have i: "loop_inv us In w'" using inv_stream [OF assms(1) p(2)] e by simp
  show ?thesis by (rule inv_more_streams [OF i]) (use inv_user [OF i] p(3) e in auto)
qed

lemma stream_reset_inv:
  assumes "loop_inv us In w" "st \<in> us"
  shows "loop_inv us In (snd (stream_reset E st w))"
  by (rule inv_stream [OF assms(1) stream_reset_evolves [OF inv_typed [OF assms(1)] inv_user [OF assms]]])
     (simp add: stream_reset_def split_beta frame_simps)

lemma resize_inv:
  assumes "loop_inv us In w" "st \<in> us" "set_send_channel_size E sz st w = (st', w')"
  shows "loop_inv (insert st' us) In w'"
proof -
  note r = resize_ok [OF inv_typed [OF assms(1)] inv_user [OF assms(1,2)] assms(3)]
  have "world.more w' = world.more w"
    using assms(3) by (auto simp: set_send_channel_size_def new_data_chan_def frame_simps split: option.splits)
  then have i: "loop_inv us In w'" by (rule inv_stream [OF assms(1) r(1)])
  show ?thesis by (rule inv_more_streams [OF i]) (use inv_user [OF i] r(2) in auto)
qed

lemma stream_drop_inv:
  assumes "loop_inv us In w"
  shows "loop_inv (us - {st}) In (stream_drop E st w)"
proof -
  have i: "loop_inv us In (stream_drop E st w)"
    by (rule inv_evo [OF assms stream_drop_evo [OF inv_typed [OF assms]]])
  show ?thesis by (rule inv_more_streams [OF i]) (use inv_user [OF i] in auto)
qed

text \<open>A stream that reaches a user was offered before.\<close>

lemma inv_taken:
  assumes "loop_inv us In w" "evo In w In w'" "\<And>st. P st \<Longrightarrow> st \<in> offered cview sview w"
    and "fresh w' = fresh w"
  shows "loop_inv (us \<union> {st. P st}) In w'"
proof -
  have i: "loop_inv us In w'" by (rule inv_evo [OF assms(1,2)])
  have "stream_ok In st w'" if "P st" for st
    using inv_offered [OF assms(1) assms(3) [OF that]] assms(4) by (simp add: stream_ok_def)
  then show ?thesis by (intro inv_more_streams [OF i]) (use inv_user [OF i] in auto)
qed

lemma connection_poll_inv:
  assumes "loop_inv us In w" "connection_poll E con w = (ra, w')"
  shows "loop_inv (us \<union> {st. ra = Ok (Ready (Some st))}) In w'"
proof (rule inv_taken [OF assms(1)])
  let ?h = "con_msg_recv con"
  obtain r ch where p: "mpsc_poll (con_ops E) (con_msgs w ?h) = (r, ch)" by fastforce
  have v: "r = fst (view_poll (cview (con_msgs w ?h)))" "cview ch = snd (view_poll (cview (con_msgs w ?h)))"
    using cch.poll_fst [of "con_msgs w ?h"] cch.poll_snd [of "con_msgs w ?h"] p by simp_all
  have w': "w' = w\<lparr>con_msgs := (con_msgs w)(?h := ch)\<rparr>" using assms(2) p by (simp add: connection_poll_def)
  then show "fresh w' = fresh w" by simp
  have "set (cv_buffer (cview ch)) \<subseteq> set (cv_buffer (cview (con_msgs w ?h)))"
    using v(2) by (auto simp: view_poll_def split: list.splits if_splits)
  then have "offered cview sview w' \<subseteq> offered cview sview w"
    by (fastforce simp: w' offered_def split: if_splits)
  then show "evo In w In w'"
    by (intro con_evolves_quiet) (use inv_typed [OF assms(1)] in \<open>simp_all add: w' gone_stays_def\<close>)
  fix st assume "ra = Ok (Ready (Some st))"
  then have "r = Ok (Ready (Some (CNewStream st)))"
    using assms(2) p
    by (auto simp: connection_poll_def split: result.splits async.splits option.splits con_message.splits)
  with v(1) have "CNewStream st \<in> set (cv_buffer (cview (con_msgs w ?h)))"
    by (auto simp: view_poll_def split: list.splits if_splits)
  then show "st \<in> offered cview sview w" by (auto simp: offered_def)
qed

lemma new_stream_future_poll_inv:
  assumes "loop_inv us In w" "new_stream_future_poll E f w = (rn, w')"
  shows "loop_inv (us \<union> {st. rn = Ok (Ready st)}) In w'"
proof (rule inv_taken [OF assms(1)])
  obtain r ch where p: "os_poll (sfut_ops E) (sfuts w f) = (r, ch)" by fastforce
  have v: "r = fst (ov_poll (sview (sfuts w f)))" "sview ch = snd (ov_poll (sview (sfuts w f)))"
    using sch.poll_fst [of "sfuts w f"] sch.poll_snd [of "sfuts w f"] p by simp_all
  have w': "w' = w\<lparr>sfuts := (sfuts w)(f := ch)\<rparr>" using assms(2) p by (simp add: new_stream_future_poll_def)
  then show "fresh w' = fresh w" by simp
  show "evo In w In w'"
    by (rule con_evolves_quiet)
       (use inv_typed [OF assms(1)] v(2) in
         \<open>auto simp: w' offered_def gone_stays_def ov_poll_def split: if_splits option.splits\<close>)
  fix st assume "rn = Ok (Ready st)"
  then have "r = Ok (Ready (Ok st))"
    using assms(2) p by (auto simp: new_stream_future_poll_def split: result.splits async.splits)
  with v(1) have "ov_value (sview (sfuts w f)) = Some (Ok st)"
    by (auto simp: ov_poll_def split: option.splits if_splits)
  then show "st \<in> offered cview sview w" by (auto simp: offered_def)
qed

text \<open>Handles to connections, and connect calls.\<close>

lemma connection_handles_inv:
  assumes "loop_inv us In w"
  shows "loop_inv us In (snd (get_new_stream_handle E con w))" "loop_inv us In (connection_drop E con w)"
    "loop_inv us In (close_immediately E con w)"
proof -
  show "loop_inv us In (snd (get_new_stream_handle E con w))"
    by (rule inv_evo [OF assms con_evolves_quiet])
       (use inv_typed [OF assms] in
         \<open>auto simp: get_new_stream_handle_def Let_def offered_def gone_stays_def sender_clone_def rch.view_of_clone_tx\<close>)
  show "loop_inv us In (connection_drop E con w)"
    by (rule inv_evo [OF assms connection_drop_evo [OF inv_typed [OF assms]]])
  define w1 where "w1 = (case con_close_send con of
      Some h \<Rightarrow> w\<lparr>units := (units w)(h := snd (os_send (unit_ops E) (units w h) ()))\<rparr> | None \<Rightarrow> w)"
  have 1: "evo In w In w1"
    by (rule con_evolves_quiet) (use inv_typed [OF assms] in \<open>auto simp: w1_def offered_def gone_stays_def split: option.split\<close>)
  have "loop_inv us In (connection_drop E (con\<lparr>con_close_send := None\<rparr>) w1)"
    by (rule inv_evo [OF inv_evo [OF assms 1] connection_drop_evo [OF con_evolves_typed [OF 1]]])
  then show "loop_inv us In (close_immediately E con w)" by (simp add: close_immediately_def Let_def w1_def)
qed

lemma context_poll_inv:
  assumes "loop_inv us In w"
  shows "loop_inv us In (snd (context_poll E ctx w))" "loop_inv us In (snd (new_connection_future_poll E f w))"
    "loop_inv us In (snd (get_new_connection_handle E ctx w))"
proof -
  let ?h = "ctx_close_handle ctx"
  let ?U = "(units w)(?h := snd (os_poll (unit_ops E) (units w ?h)))"
  have u: "loop_inv us In (w\<lparr>units := ?U\<rparr>)"
    by (rule inv_evo [OF assms con_evolves_quiet]) (use inv_typed [OF assms] in \<open>simp_all add: offered_def gone_stays_def\<close>)
  then have "loop_inv us In (w\<lparr>units := ?U, newcons := N\<rparr>)" for N unfolding loop_inv_def by simp
  with u show "loop_inv us In (snd (context_poll E ctx w))"
    by (auto simp: context_poll_def Let_def split: prod.splits)
  have "loop_inv us In (w\<lparr>cfuts := N\<rparr>)" for N
    by (rule inv_evo [OF assms con_evolves_quiet]) (use inv_typed [OF assms] in \<open>simp_all add: offered_def gone_stays_def\<close>)
  then show "loop_inv us In (snd (new_connection_future_poll E f w))"
    by (auto simp: new_connection_future_poll_def split: prod.splits)
  show "loop_inv us In (snd (get_new_connection_handle E ctx w))"
    using inv_connects [OF assms, of "mpsc_clone_tx (connect_ops E) (connects w (ctx_new_connection_handle ctx))"
        "ctx_new_connection_handle ctx"]
    by (simp add: get_new_connection_handle_def Let_def pch.view_of_clone_tx)
qed

lemma handle_new_connection_inv:
  assumes "loop_inv us In w" "\<not> ip_is_unspecified addr"
  shows "loop_inv us In (snd (handle_new_connection E h addr name w))"
proof -
  define w1 where "w1 = w\<lparr>cfuts := (cfuts w)(fresh w := os_new (cfut_ops E)), fresh := Suc (fresh w)\<rparr>"
  have "evo In w In w1"
    by (rule con_evolves_quiet) (use inv_typed [OF assms(1)] in \<open>simp_all add: w1_def offered_def gone_stays_def\<close>)
  then have i1: "loop_inv us In w1" by (rule inv_evo [OF assms(1)])
  obtain r ch where s: "mpsc_unbounded_send (connect_ops E) (connects w1 h) (addr, name, fresh w) = (r, ch)" by fastforce
  have ch: "pview ch = snd (view_send (pview (connects w1 h)) (addr, name, fresh w))"
    using pch.unbounded_send_snd [of "connects w1 h" "(addr, name, fresh w)"] s by simp
  let ?w2 = "w1\<lparr>connects := (connects w1)(h := ch)\<rparr>"
  have i2: "loop_inv us In ?w2"
    by (rule inv_connects [OF i1]) (use ch assms(2) in \<open>auto simp: view_send_def split: if_splits\<close>)
  have "loop_inv us In (cfut_drop_tx E x ?w2)" for x
    by (rule inv_evo [OF i2 plain_drops_evo(3) [OF inv_typed [OF i2]]])
  moreover have "snd (handle_new_connection E h addr name w) =
      (case r of Ok _ \<Rightarrow> ?w2 | Err rq \<Rightarrow> cfut_drop_tx E (snd (snd rq)) ?w2)"
    using s by (auto simp: handle_new_connection_def Let_def w1_def split: result.splits)
  ultimately show ?thesis using i2 by (simp split: result.split)
qed

text \<open>Dropping handles, futures and the context.\<close>

lemma future_drop_inv:
  assumes "loop_inv us In w"
  shows "loop_inv us In (new_stream_future_drop E f w)" "loop_inv us In (new_connection_future_drop E f w)"
proof -
  obtain v ch where d: "os_drop_rx (sfut_ops E) (sfuts w f) = (v, ch)" by fastforce
  let ?w = "w\<lparr>sfuts := (sfuts w)(f := ch)\<rparr>"
  have "ov_value (sview ch) = None" using sch.drop_rx_snd [of "sfuts w f"] d by simp
  then have 1: "evo In w In ?w"
    by (intro con_evolves_quiet)
       (use inv_typed [OF assms] in \<open>auto simp: offered_def gone_stays_def split: if_splits\<close>)
  have "loop_inv us In (drop_stream_result E x ?w)" for x
    by (rule inv_evo [OF inv_evo [OF assms 1] drop_stream_result_evo [OF con_evolves_typed [OF 1]]])
  with inv_evo [OF assms 1] d show "loop_inv us In (new_stream_future_drop E f w)"
    by (simp add: new_stream_future_drop_def Let_def split: option.split)
  obtain v ch where d: "os_drop_rx (cfut_ops E) (cfuts w f) = (v, ch)" by fastforce
  let ?w = "w\<lparr>cfuts := (cfuts w)(f := ch)\<rparr>"
  have 2: "evo In w In ?w"
    by (rule con_evolves_quiet) (use inv_typed [OF assms] in \<open>simp_all add: offered_def gone_stays_def\<close>)
  note t = con_evolves_typed [OF 2]
  have "evo In ?w In (drop_connection_result E x ?w)" for x
    by (cases x) (simp_all add: connection_drop_evo [OF t] con_evolves_refl [OF t])
  with inv_evo [OF assms 2] d show "loop_inv us In (new_connection_future_drop E f w)"
    by (auto simp: new_connection_future_drop_def Let_def split: option.split intro: inv_evo)
qed

lemma handle_drop_inv:
  assumes "loop_inv us In w"
  shows "loop_inv us In (req_drop_tx E rq w)" "loop_inv us In (connection_handle_drop E h w)"
  by (rule inv_evo [OF assms plain_drops_evo(1) [OF inv_typed [OF assms]]])
     (use inv_connects [OF assms, of "mpsc_drop_tx (connect_ops E) (connects w h)" h] in
       \<open>simp add: connection_handle_drop_def pch.view_of_drop_tx\<close>)

lemma user_context_drop_inv:
  assumes "loop_inv us In w"
  shows "loop_inv us In (user_context_drop E ctx w)" "fresh w \<le> fresh (user_context_drop E ctx w)"
    "\<not> ov_rx (uview (units (user_context_drop E ctx w) (ctx_close_handle ctx)))"
proof -
  obtain cons ch where d: "mpsc_drop_rx (newcon_ops E) (newcons w (ctx_recv_con ctx)) = (cons, ch)" by fastforce
  have 1: "loop_inv us In (w\<lparr>newcons := (newcons w)(ctx_recv_con ctx := ch)\<rparr>)" (is "loop_inv us In ?w")
    using assms by (simp add: loop_inv_def)
  have f: "evo In ?w In (fold (connection_drop E) cons ?w)"
    by (rule con_evolves_fold [OF inv_typed [OF 1] connection_drop_evo])
  from handle_drop_inv(2) [OF inv_evo [OF 1 f], of "ctx_new_connection_handle ctx"]
  have 2: "loop_inv us In (connection_handle_drop E (ctx_new_connection_handle ctx) (fold (connection_drop E) cons ?w))"
    (is "loop_inv us In ?w2") .
  have "con_evolves mview tg cview rview sview uview {ctx_close_handle ctx} In ?w2 In (?w2\<lparr>units := (units ?w2)(ctx_close_handle ctx :=
      snd (os_drop_rx (unit_ops E) (units ?w2 (ctx_close_handle ctx))))\<rparr>)"
    by (rule con_evolves_quiet) (use inv_typed [OF 2] in \<open>simp_all add: offered_def gone_stays_def\<close>)
  from inv_evo [OF 2 this] d show "loop_inv us In (user_context_drop E ctx w)"
    by (simp add: user_context_drop_def Let_def)
  show "fresh w \<le> fresh (user_context_drop E ctx w)"
    using f d by (simp add: user_context_drop_def Let_def connection_handle_drop_def con_evolves_def evolves_def)
  show "\<not> ov_rx (uview (units (user_context_drop E ctx w) (ctx_close_handle ctx)))"
    using d by (simp add: user_context_drop_def Let_def)
qed

lemma inv_snd: "p = (r, w') \<Longrightarrow> loop_inv us In (snd p) \<Longrightarrow> loop_inv us In w'"
  by simp

lemmas user_inv = stream_poll_inv resize_inv stream_drop_inv connection_poll_inv new_stream_future_poll_inv
  connection_handles_inv(2,3) future_drop_inv handle_drop_inv user_context_drop_inv(1) inv_snd [OF _ sink_inv(1)] inv_snd [OF _ sink_inv(2)]
  inv_snd [OF _ stream_reset_inv] inv_snd [OF _ new_stream_handle_inv] inv_snd [OF _ connection_handles_inv(1)]
  inv_snd [OF _ context_poll_inv(1)] inv_snd [OF _ context_poll_inv(2)] inv_snd [OF _ context_poll_inv(3)]
  inv_snd [OF _ handle_new_connection_inv]

lemma user_step_inv:
  assumes "user_step E rview us w us' w'" "loop_inv us In w"
  shows "loop_inv us' In w'"
  using assms by cases (blast intro: user_inv)+

end

section \<open>The event loop\<close>

text \<open>What the sources rely on in the runs of picoquic, in the states that the program reaches:
  the callbacks are well-behaved, packets are changed in place, and a packet that was prepared
  fits into the buffer.\<close>

definition runs_ok where
  "runs_ok E tg w \<longleftrightarrow>
     (\<forall>p buf from_addr to_addr t. run_ok E tg (\<lambda>(_, buf') _. length buf' = length buf)
        (picoquic_incoming_packet E (quic w) p buf from_addr to_addr t) w) \<and>
     (\<forall>cnx t buf. run_ok E tg (\<lambda>(_, buf', n, _) _. length buf' = length buf \<and> n \<le> length buf)
        (picoquic_prepare_packet E (quic w) cnx t buf) w) \<and>
     (\<forall>cnx. run_ok E tg (\<lambda>_ _. True) (picoquic_delete_cnx E (quic w) cnx) w) \<and>
     (\<forall>p. run_ok E tg (\<lambda>_ _. True) (picoquic_free_run E (quic w) p) w)"

lemma runs_okD:
  assumes "runs_ok E tg w"
  shows "run_ok E tg (\<lambda>(_, buf') _. length buf' = length buf)
      (picoquic_incoming_packet E (quic w) p buf from_addr to_addr t) w"
    and "run_ok E tg (\<lambda>(_, buf', n, _) _. length buf' = length buf \<and> n \<le> length buf)
      (picoquic_prepare_packet E (quic w) cnx t buf) w"
    and "run_ok E tg (\<lambda>_ _. True) (picoquic_delete_cnx E (quic w) cnx) w"
    and "run_ok E tg (\<lambda>_ _. True) (picoquic_free_run E (quic w) p) w"
  using assms by (simp_all add: runs_ok_def)

locale event_loop =
  loop_library E mview dview cview rview uview sview nview tg pview
  for E :: "('m, 'd, 'q, 'c, 'r, 'u, 's, 'n, 'h, 'x, 'y, 'i, 'k, 't, 'b, 'p, 'e) ienv"
    and mview dview cview rview uview sview nview tg pview +
  assumes runs: "reach E mview tg cview rview sview pview us
      (w :: ('m, 'd, 'q, 'c, 'r, 'u, 's, 'n, 'b, 'p) inner_world) \<Longrightarrow> runs_ok E tg w"
begin

abbreviation reachable where
  "reachable \<equiv> reach E mview tg cview rview sview pview"

lemma fresh_world_inv: "fresh_world mview tg cview sview pview w \<Longrightarrow> loop_inv {} {} w"
  by (simp add: fresh_world_def loop_inv_def store_ok_def con_world_ok_def owned_def typed_def requests_ok_def holders_def)

lemma run_step:
  assumes "loop_inv us In w" "run_ok E tg post run w" "run_c E run w = Some (a, w')"
  shows "\<exists>In'. loop_inv us In' w'"
  using run_c_inv [OF assms(1,2)] assms(3) by auto

lemma loop_step_inv:
  assumes "loop_step E w w'" "loop_inv us In w"
    and runs: "runs_ok E tg w"
  shows "\<exists>In'. loop_inv us In' w'"
  using assms(1,2)
proof cases
  case (contexts rp)
  with c_context_poll_inv [OF assms(2)] show ?thesis by (metis option.inject prod.inject)
next
  case (request addr qctx la name t ka f sz rc w1)
  with connection_create_inv [OF assms(2), of addr qctx la name t ka f sz] show ?thesis
    by (metis option.inject prod.inject)
next
  case (incoming p buf from_addr to_addr t ri)
  show ?thesis by (rule run_step [OF assms(2) runs_okD(1) [OF runs] incoming])
next
  case (prepare cnx t buf ro)
  show ?thesis by (rule run_step [OF assms(2) runs_okD(2) [OF runs] prepare])
next
  case (delete cnx u)
  show ?thesis by (rule run_step [OF assms(2) runs_okD(3) [OF runs] delete])
next
  case (dequeue p pk q)
  have "tg q \<subseteq> tg (quic w)" using tg_dequeue [of "quic w" p] dequeue(2) by simp
  from inv_evo [OF assms(2) quic_evo [OF inv_typed [OF assms(2)] this]] dequeue(1) show ?thesis by auto
next
  case (stateless pk)
  from inv_evo [OF assms(2) quic_evo [OF inv_typed [OF assms(2)] tg_delete_stateless]] stateless show ?thesis by auto
next
  case (take_request h rq ch)
  have "pview ch = snd (view_poll (pview (connects w h)))"
    using pch.poll_snd [of "connects w h"] take_request(2) by simp
  then have "set (cv_buffer (pview ch)) \<subseteq> set (cv_buffer (pview (connects w h)))"
    by (auto simp: view_poll_def split: list.splits if_splits)
  then have "loop_inv us In (w\<lparr>connects := (connects w)(h := ch)\<rparr>)" by (intro inv_connects [OF assms(2)]) blast
  with take_request(1) show ?thesis by auto
next
  case (look h rd ud)
  have "ov_rx (uview ud) = ov_rx (uview (units w h))"
    using uch.receiver_alive(3) [of "units w h"] look(2) by simp
  then have "evo In w In w'"
    by (intro con_evolves_quiet) (use inv_typed [OF assms(2)] look(1) in \<open>simp_all add: offered_def gone_stays_def\<close>)
  from inv_evo [OF assms(2) this] show ?thesis ..
next
  case (shut h)
  have "evo In w In w'"
    by (rule con_evolves_quiet) (use inv_typed [OF assms(2)] shut in \<open>simp_all add: offered_def gone_stays_def\<close>)
  from inv_evo [OF assms(2) this] show ?thesis ..
next
  case (wake k)
  with assms(2) show ?thesis by (auto simp: loop_inv_def)
qed

lemma reach_inv:
  assumes "reachable us (w :: ('m, 'd, 'q, 'c, 'r, 'u, 's, 'n, 'b, 'p) inner_world)"
  shows "\<exists>In. loop_inv us In w"
  using assms
proof (induction rule: reach.induct)
  case (start w)
  then show ?case using fresh_world_inv by blast
next
  case (loop us w w')
  then show ?case using loop_step_inv [OF loop.hyps(2)] runs by blast
next
  case (user us w us' w')
  then show ?case using user_step_inv by blast
qed

end

end
