(* ===== verification/Loop_Progress.thy ===== *)
theory Loop_Progress
  imports Loop_Safety Inner_Props
begin

text \<open>
  Every loop of the event loop ends (\<^verbatim>\<open>src/context_inner.rs\<close>).  None of them has a
  bound of its own: they end because the socket runs dry, because picoquic runs out of stateless
  packets and of connections that want to send, and because the queue of requests is emptied.
\<close>

text \<open>A packet that waits to be sent lies within the buffer.\<close>

definition self_ok :: "('k, 't) context_inner \<Rightarrow> bool" where
  "self_ok self \<longleftrightarrow> (\<forall>len addr. not_send_length self = Some (len, addr) \<longrightarrow> len \<le> length (buffer self))"

lemma self_ok_upd [simp]:
  "self_ok (self\<lparr>socket := k\<rparr>) = self_ok self" "self_ok (self\<lparr>timer := t\<rparr>) = self_ok self"
  by (simp_all add: self_ok_def)

text \<open>The user's end of the channel by which the loop sees whether the context is still there.\<close>

definition user_gone where
  "user_gone uview self w \<longleftrightarrow> (\<forall>h. close_handle self = Some h \<longrightarrow> \<not> ov_rx (uview (units w h)))"

text \<open>What the sources rely on to make progress.\<close>

locale loop_progress =
  event_loop E mview dview cview rview uview sview nview tg pview
  for E :: "('m, 'd, 'q, 'c, 'r, 'u, 's, 'n, 'h, 'x, 'y, 'i, 'k, 't, 'b, 'p, 'e) ienv"
    and mview dview cview rview uview sview nview tg pview +
  fixes waiting :: "'k \<Rightarrow> nat" and queued :: "'q \<Rightarrow> nat" and due :: "ptr \<Rightarrow> u64 \<Rightarrow> 'q \<Rightarrow> nat"
  assumes socket_dries: "udp_poll_recv_from E k n = (Ok (Ready (bs, a)), k') \<Longrightarrow> waiting k' < waiting k \<and> length bs \<le> n"
    and local_known: "udp_local_addr E k \<noteq> None"
    and stateless_sent: "picoquic_dequeue_stateless_packet E q p = (pk, q') \<Longrightarrow> pk \<noteq> 0 \<Longrightarrow>
      queued (picoquic_delete_stateless_packet E q' pk) < queued q"
    and prepared: "reach E mview tg cview rview sview pview us
        (w :: ('m, 'd, 'q, 'c, 'r, 'u, 's, 'n, 'b, 'p) inner_world) \<Longrightarrow>
      picoquic_get_earliest_cnx_to_wake E (quic w) p t = cnx \<Longrightarrow> cnx \<noteq> 0 \<Longrightarrow>
      run_c E (picoquic_prepare_packet E (quic w) cnx t buf) w = Some (ret, w') \<Longrightarrow>
      due p t (quic w') < due p t (quic w)"
    and clock: "instant_add (quic_fns E) (instant_now (quic_fns E) q) d \<noteq> None"
begin

lemma reach_step: "reachable us w \<Longrightarrow> loop_step E w w' \<Longrightarrow> reachable us w'"
  by (rule reach.loop)

lemma new_requests_end:
  assumes "reachable us (w :: ('m, 'd, 'q, 'c, 'r, 'u, 's, 'n, 'b, 'p) inner_world)"
  shows "\<exists>w'. check_for_new_connection_request E t self w = Some w' \<and> reachable us w' \<and> undisturbed uview w w'"
  using assms
proof (induction "cv_buffer (pview (connects w (recv_connect self)))" arbitrary: w rule: length_induct)
  case (1 w)
  let ?h = "recv_connect self"
  obtain r ch where p: "mpsc_poll (connect_ops E) (connects w ?h) = (r, ch)" by fastforce
  have v: "r = fst (view_poll (pview (connects w ?h)))" "pview ch = snd (view_poll (pview (connects w ?h)))"
    using pch.poll_fst [of "connects w ?h"] pch.poll_snd [of "connects w ?h"] p by simp_all
  let ?w = "w\<lparr>connects := (connects w)(?h := ch)\<rparr>"
  have r1: "reachable us ?w" by (rule reach_step [OF 1(2) loop_step.take_request [OF p]])
  note unf = check_for_new_connection_request.simps [of E t self w]
  show ?case
  proof (cases "cv_buffer (pview (connects w ?h))")
    case Nil
    with v(1) have "r = Ok NotReady \<or> r = Ok (Ready None)" by (auto simp: view_poll_def)
    with p r1 show ?thesis by (auto simp: unf Let_def)
  next
    case (Cons rq rs)
    with v have rq: "r = Ok (Ready (Some rq))" "cv_buffer (pview ch) = rs" by (simp_all add: view_poll_def)
    obtain In where "loop_inv us In ?w" using reach_inv [OF r1] by blast
    moreover obtain In0 where "loop_inv us In0 w" using reach_inv [OF 1(2)] by blast
    then have "\<forall>x\<in>set (cv_buffer (pview (connects w ?h))). \<not> ip_is_unspecified (fst x)"
      by (simp add: loop_inv_def requests_ok_def)
    with Cons have spec: "\<not> ip_is_unspecified (fst rq)" by simp
    moreover obtain local where local: "udp_local_addr E (socket self) = Some local" using local_known by blast
    ultimately obtain rc w2 where c: "connection_create E (qc_quic (ci_quic self)) (fst rq) local (fst (snd rq)) t
        (client_keep_alive_interval self) (snd (snd rq)) (ci_stream_send_channel_default_size self) ?w = Some (rc, w2)"
      "connects w2 = connects ?w" "undisturbed uview ?w (add_connection rc w2)"
      using connection_create_inv [of us In ?w "fst rq" "qc_quic (ci_quic self)" local "fst (snd rq)" t] by metis
    let ?w3 = "add_connection rc w2"
    have "reachable us ?w3"
      by (rule reach_step [OF r1 loop_step.request [OF spec c(1)]])
    moreover have "length (cv_buffer (pview (connects ?w3 ?h))) < length (cv_buffer (pview (connects w ?h)))"
      using c(2) rq(2) Cons by (simp add: add_connection_def split: result.split)
    ultimately have "\<exists>w'. check_for_new_connection_request E t self ?w3 = Some w' \<and> reachable us w' \<and>
        undisturbed uview ?w3 w'"
      using 1(1) by blast
    moreover have "undisturbed uview w ?w3" by (rule undisturbed_trans [OF undisturbed_inner(4) c(3)])
    moreover have "check_for_new_connection_request E t self w = check_for_new_connection_request E t self ?w3"
      using p rq(1) local c(1) by (simp add: unf Let_def add_connection_def split: result.split)
    ultimately show ?thesis using undisturbed_trans by metis
  qed
qed

lemma incoming_ends:
  assumes "reachable us (w :: ('m, 'd, 'q, 'c, 'r, 'u, 's, 'n, 'b, 'p) inner_world)" "self_ok self"
  shows "\<exists>self' w'. check_for_incoming_data E t self w = Some (self', w') \<and> reachable us w' \<and> self_ok self' \<and>
    undisturbed uview w w' \<and> close_handle self' = close_handle self"
  using assms
proof (induction "waiting (socket self)" arbitrary: self w rule: less_induct)
  case less
  obtain r sock where u: "udp_poll_recv_from E (socket self) (length (buffer self)) = (r, sock)" by fastforce
  note unf = check_for_incoming_data.simps [of E t self w]
  show ?case
  proof (cases "\<exists>da. r = Ok (Ready da)")
    case False
    with u less.prems show ?thesis by (auto simp: unf Let_def split: result.split async.split)
  next
    case True
    then obtain bs a where r: "r = Ok (Ready (bs, a))" by auto
    with socket_dries u have d: "waiting sock < waiting (socket self)" "length bs \<le> length (buffer self)" by blast+
    obtain local where local: "udp_local_addr E sock = Some local" using local_known by blast
    obtain In where i: "loop_inv us In w" using reach_inv [OF less.prems(1)] by blast
    let ?run = "picoquic_incoming_packet E (quic w) (qc_quic (ci_quic self)) bs a local t"
    have "run_ok E tg (\<lambda>(_, buf') _. length buf' = length bs) ?run w"
      by (rule runs_okD(1) [OF runs [OF less.prems(1)]])
    from run_c_inv [OF i this] obtain ret buf w1 where
      c: "run_c E ?run w = Some ((ret, buf), w1)" "length buf = length bs" "undisturbed uview w w1" by auto
    have r1: "reachable us w1" by (rule reach_step [OF less.prems(1) loop_step.incoming [OF c(1)]])
    let ?self = "self\<lparr>socket := sock, buffer := buf @ drop (length bs) (buffer self)\<rparr>"
    have "length (buffer ?self) = length (buffer self)" using c(2) d(2) by simp
    then have "self_ok ?self" using less.prems(2) by (simp add: self_ok_def)
    then have "\<exists>self' w'. check_for_incoming_data E t ?self w1 = Some (self', w') \<and> reachable us w' \<and> self_ok self' \<and>
        undisturbed uview w1 w' \<and> close_handle self' = close_handle self"
      using less.hyps [of ?self w1] d(1) r1 by simp
    moreover have "check_for_incoming_data E t self w = check_for_incoming_data E t ?self w1"
      using u r d(2) local c(1) by (simp add: unf Let_def incoming_data_def)
    ultimately show ?thesis using undisturbed_trans [OF c(3)] by metis
  qed
qed

lemma stateless_ends:
  assumes "reachable us (w :: ('m, 'd, 'q, 'c, 'r, 'u, 's, 'n, 'b, 'p) inner_world)" "self_ok self"
  shows "\<exists>r self' w'. send_stateless_packets E self w = Some (r, self', w') \<and> reachable us w' \<and> self_ok self' \<and>
    undisturbed uview w w' \<and> close_handle self' = close_handle self"
  using assms
proof (induction "queued (quic w)" arbitrary: self w rule: less_induct)
  case less
  let ?p = "qc_quic (ci_quic self)"
  obtain pk q where d: "picoquic_dequeue_stateless_packet E (quic w) ?p = (pk, q)" by fastforce
  have r1: "reachable us (w\<lparr>quic := q\<rparr>)" by (rule reach_step [OF less.prems(1) loop_step.dequeue [OF d]])
  note unf = send_stateless_packets.simps [of E self w] stateless_iter_next_def
  show ?case
  proof (cases "pk = 0")
    case True
    with d r1 less.prems(2) show ?thesis by (simp add: unf)
  next
    case False
    obtain addr where addr: "stateless_get_peer_addr E q pk = Some addr"
      using addresses unfolding inet_addresses_def stateless_get_peer_addr_def Let_def by (metis not_None_eq)
    obtain r sock where s: "udp_poll_send_to E (socket self) (stateless_get_data E q pk) addr = (r, sock)" by fastforce
    let ?w = "w\<lparr>quic := stateless_drop E pk q\<rparr>" and ?self = "self\<lparr>socket := sock\<rparr>"
    have r2: "reachable us ?w"
      using reach_step [OF r1 loop_step.stateless [of E "w\<lparr>quic := q\<rparr>" pk]] by (simp add: stateless_drop_def)
    have "queued (quic ?w) < queued (quic w)" using stateless_sent [OF d False] by (simp add: stateless_drop_def)
    then have "\<exists>r self' w'. send_stateless_packets E ?self ?w = Some (r, self', w') \<and> reachable us w' \<and> self_ok self' \<and>
        undisturbed uview ?w w' \<and> close_handle self' = close_handle self"
      using less.hyps [of ?w ?self] r2 less.prems(2) by simp
    then have IH: "\<exists>r self' w'. send_stateless_packets E ?self ?w = Some (r, self', w') \<and> reachable us w' \<and> self_ok self' \<and>
        undisturbed uview w w' \<and> close_handle self' = close_handle self"
      using undisturbed_trans [OF undisturbed_inner(1)] by metis
    have eq: "send_stateless_packets E self w = (case r of
        Err e \<Rightarrow> Some (Err (error_from_io e), ?self, ?w)
      | Ok NotReady \<Rightarrow> Some (Ok NotReady, ?self, ?w)
      | Ok (Ready n) \<Rightarrow> send_stateless_packets E ?self ?w)"
      using d False addr s by (simp add: unf Let_def split: result.split async.split)
    show ?thesis
      using IH r2 less.prems(2) unfolding eq by (cases r) (auto split: async.split)
  qed
qed

lemma send_data_ok:
  assumes "len \<le> length (buffer self)"
  obtains sent self' where "send_data_in_buffer E len addr self = Some (sent, self')"
    "not_send_length self = None \<longrightarrow> self_ok self'"
    "sent \<longrightarrow> not_send_length self' = not_send_length self" "close_handle self' = close_handle self"
proof -
  obtain r sock where "udp_poll_send_to E (socket self) (take len (buffer self)) addr = (r, sock)" by fastforce
  with assms show ?thesis
    by (cases "r = Ok NotReady")
       (auto simp: send_data_in_buffer_def self_ok_def Let_def intro!: that)
qed

lemma prepare_packet_ok:
  assumes "reachable us (w :: ('m, 'd, 'q, 'c, 'r, 'u, 's, 'n, 'b, 'p) inner_world)"
  obtains r buf' w' where "prepare_packet E cnx buf t w = Some (r, buf', w')" "reachable us w'"
    "length buf' = length buf" "\<And>n a. r = Ok (Some (n, a)) \<Longrightarrow> n \<le> length buf'"
    "\<And>p. picoquic_get_earliest_cnx_to_wake E (quic w) p t = cnx \<Longrightarrow> cnx \<noteq> 0 \<Longrightarrow> due p t (quic w') < due p t (quic w)"
    "undisturbed uview w w'"
proof -
  obtain In where i: "loop_inv us In w" using reach_inv [OF assms] by blast
  let ?run = "picoquic_prepare_packet E (quic w) cnx t buf"
  have "run_ok E tg (\<lambda>(_, buf', n, _) _. length buf' = length buf \<and> n \<le> length buf) ?run w"
    by (rule runs_okD(2) [OF runs [OF assms]])
  from run_c_inv [OF i this] obtain ret buf' n addr w' where
    c: "run_c E ?run w = Some ((ret, buf', n, addr), w')" "length buf' = length buf" "n \<le> length buf"
      "undisturbed uview w w'" by auto
  have reach: "reachable us w'" by (rule reach_step [OF assms loop_step.prepare [OF c(1)]])
  obtain a where a: "socket_addr_from_sockaddr E (quic w') addr = Some a"
    using addresses unfolding inet_addresses_def by (metis not_None_eq)
  define r where "r = (if ret = PICOQUIC_ERROR_DISCONNECTED E then Err (error_from_kind Disconnected)
    else if ret = 0 then Ok (if n > 0 then Some (n, a) else None) else Err (error_from_kind Unknown))"
  have "prepare_packet E cnx buf t w = Some (r, buf', w')"
    using c(1) a by (simp add: prepare_packet_def r_def)
  then show ?thesis
    by (rule that [OF _ reach c(2) _ _ c(4)]) (use c(2,3) prepared [OF assms _ _ c(1)] in \<open>auto simp: r_def split: if_splits\<close>)
qed

lemma packets_end:
  assumes "reachable us (w :: ('m, 'd, 'q, 'c, 'r, 'u, 's, 'n, 'b, 'p) inner_world)" "not_send_length self = None"
  shows "\<exists>self' w'. send_packets_loop E t self w = Some (self', w') \<and> reachable us w' \<and> self_ok self' \<and>
    undisturbed uview w w' \<and> close_handle self' = close_handle self"
  using assms
proof (induction "due (qc_quic (ci_quic self)) t (quic w)" arbitrary: self w rule: less_induct)
  case less
  let ?p = "qc_quic (ci_quic self)"
  define cnx where "cnx = picoquic_get_earliest_cnx_to_wake E (quic w) ?p t"
  note unf = send_packets_loop.simps [of E t self w]
  have ok: "self_ok self" using less.prems(2) by (simp add: self_ok_def)
  show ?case
  proof (cases "cnx = 0")
    case True
    with less.prems ok show ?thesis by (simp add: unf connection_iter_next_def cnx_def)
  next
    case False
    then have it: "connection_iter_next E ?p t (quic w) = Some cnx"
      by (simp add: connection_iter_next_def cnx_def)
    show ?thesis
    proof (cases "cnx_is_disconnected E (quic w) cnx")
      case True
      obtain In where i: "loop_inv us In w" using reach_inv [OF less.prems(1)] by blast
      from run_c_inv [OF i runs_okD(3) [OF runs [OF less.prems(1)]], of cnx] obtain w' where c: "run_c E (picoquic_delete_cnx E (quic w) cnx) w = Some ((), w')"
        "undisturbed uview w w'" by auto
      have "reachable us w'" by (rule reach_step [OF less.prems(1) loop_step.delete [OF c(1)]])
      with it True c ok show ?thesis by (simp add: unf cnx_delete_def)
    next
      case live: False
      obtain r buf w1 where p: "prepare_packet E cnx (buffer self) t w = Some (r, buf, w1)" "reachable us w1"
        "length buf = length (buffer self)" "\<And>n a. r = Ok (Some (n, a)) \<Longrightarrow> n \<le> length buf"
        "due ?p t (quic w1) < due ?p t (quic w)" "undisturbed uview w w1"
        using prepare_packet_ok [OF less.prems(1), of cnx "buffer self" t] False cnx_def by metis
      let ?self = "self\<lparr>buffer := buf\<rparr>"
      have again: "\<exists>self' w'. send_packets_loop E t s w1 = Some (self', w') \<and> reachable us w' \<and> self_ok self' \<and>
          undisturbed uview w w' \<and> close_handle self' = close_handle self"
        if "not_send_length s = None" "ci_quic s = ci_quic self" "close_handle s = close_handle self" for s
        using less.hyps [of s w1] that p(2,5) undisturbed_trans [OF p(6)] by metis
      show ?thesis
      proof (cases "\<exists>n a. r = Ok (Some (n, a))")
        case False
        then have "send_packets_loop E t self w = send_packets_loop E t ?self w1"
          using it live p(1) by (auto simp: unf Let_def split: result.split option.split)
        with again [of ?self] less.prems(2) show ?thesis by simp
      next
        case True
        then obtain n a where r: "r = Ok (Some (n, a))" by blast
        have "n \<le> length (buffer ?self)" using p(4) [OF r] by simp
        then obtain sent self2 where s: "send_data_in_buffer E n a ?self = Some (sent, self2)"
          "not_send_length ?self = None \<longrightarrow> self_ok self2" "sent \<longrightarrow> not_send_length self2 = not_send_length ?self"
          "close_handle self2 = close_handle ?self"
          by (rule send_data_ok [where addr = a])
        have ci: "ci_quic self2 = ci_quic self"
          using s(1) by (auto simp: send_data_in_buffer_def Let_def split: if_splits prod.splits)
        have eq: "send_packets_loop E t self w = (if sent then send_packets_loop E t self2 w1 else Some (self2, w1))"
          using it live p(1) r s(1) by (simp add: unf Let_def)
        show ?thesis
          using again [of self2] s(2-4) ci less.prems(2) p(2,6) unfolding eq by auto
      qed
    qed
  qed
qed

lemma connection_packets_end:
  assumes "reachable us (w :: ('m, 'd, 'q, 'c, 'r, 'u, 's, 'n, 'b, 'p) inner_world)" "self_ok self"
  shows "\<exists>self' w'. send_connection_packets E t self w = Some (self', w') \<and> reachable us w' \<and> self_ok self' \<and>
    undisturbed uview w w' \<and> close_handle self' = close_handle self"
proof (cases "not_send_length self")
  case None
  with packets_end [OF assms(1)] show ?thesis by (simp add: send_connection_packets_def)
next
  case (Some la)
  obtain len addr where la: "la = (len, addr)" by (cases la)
  let ?self = "self\<lparr>not_send_length := None\<rparr>"
  have "len \<le> length (buffer ?self)" using assms(2) Some la by (simp add: self_ok_def)
  then obtain sent self2 where s: "send_data_in_buffer E len addr ?self = Some (sent, self2)"
    "not_send_length ?self = None \<longrightarrow> self_ok self2" "sent \<longrightarrow> not_send_length self2 = not_send_length ?self"
    "close_handle self2 = close_handle ?self"
    by (rule send_data_ok [where addr = addr])
  have "send_connection_packets E t self w = (if sent then send_packets_loop E t self2 w else Some (self2, w))"
    using Some la s(1) by (simp add: send_connection_packets_def)
  with s(2-4) packets_end [OF assms(1), of self2 t] assms(1) show ?thesis by auto
qed

section \<open>Rounds and polls\<close>

lemma next_wake_known: "\<exists>r. get_next_wake_up_time (quic_fns E) qc t q = Some r"
proof -
  have "\<exists>at. instant_add (quic_fns E) (instant_now (quic_fns E) q) d = Some at" for d using clock by blast
  then show ?thesis
    by (auto simp: get_next_wake_up_time_def from_micro_seconds_eq Let_def split: bind_split) (metis not_None_eq clock)
qed

lemma inner_round_ends:
  assumes "reachable us (w :: ('m, 'd, 'q, 'c, 'r, 'u, 's, 'n, 'b, 'p) inner_world)" "self_ok self"
  shows "\<exists>r self' w'. inner_round E self w = Some (r, self', w') \<and> reachable us w' \<and> self_ok self' \<and>
    undisturbed uview w w' \<and> close_handle self' = close_handle self \<and> (r = Inl () \<longrightarrow> user_gone uview self' w')"
proof -
  obtain In where i: "loop_inv us In w" using reach_inv [OF assms(1)] by blast
  obtain w1 where c: "c_context_poll E w = Some (Ok NotReady, w1)" "undisturbed uview w w1" using c_context_poll_inv [OF i] by metis
  have r1: "reachable us w1" by (rule reach_step [OF assms(1) loop_step.contexts [OF c(1)]])
  define t where "t = get_current_time (quic_fns E) (quic w1)"
  obtain dropped w2 where d: "context_dropped E self w1 = (dropped, w2)" by fastforce
  have "reachable us w2 \<and> undisturbed uview w1 w2 \<and> (dropped \<longrightarrow> user_gone uview self w2)"
  proof (cases "close_handle self")
    case None
    with d r1 show ?thesis by (simp add: context_dropped_def user_gone_def)
  next
    case (Some h)
    obtain rd ud where p: "os_poll_cancel (unit_ops E) (units w1 h) = (rd, ud)" by fastforce
    then have v: "rd = (if ov_rx (uview (units w1 h)) then Ok NotReady else Ok (Ready ()))"
      "ov_rx (uview ud) = ov_rx (uview (units w1 h))"
      using uch.poll_cancel_fst [of "units w1 h"] uch.receiver_alive(3) [of "units w1 h"] by simp_all
    have w2: "w2 = w1\<lparr>units := (units w1)(h := ud)\<rparr>" "dropped \<longleftrightarrow> rd \<noteq> Ok NotReady"
      using Some d p by (simp_all add: context_dropped_def)
    have "undisturbed uview w1 w2" using v(2) by (simp add: w2 undisturbed_def keeps_user_def user_waits_def)
    moreover have "dropped \<longrightarrow> user_gone uview self w2" using Some v by (simp add: w2 user_gone_def)
    ultimately show ?thesis using reach_step [OF r1 loop_step.look [OF p]] by (simp add: w2)
  qed
  then have r2: "reachable us w2" "undisturbed uview w w2" "dropped \<longrightarrow> user_gone uview self w2"
    using undisturbed_trans [OF c(2)] by blast+
  show ?thesis
  proof (cases dropped)
    case True
    then have "inner_round E self w = Some (Inl (), self, w2)" using c d by (simp add: inner_round_def Let_def)
    with r2 True assms(2) show ?thesis by blast
  next
    case False
    obtain w3 where 3: "check_for_new_connection_request E t self w2 = Some w3" "reachable us w3"
      "undisturbed uview w2 w3"
      using new_requests_end [OF r2(1)] by blast
    obtain s4 w4 where 4: "check_for_incoming_data E t self w3 = Some (s4, w4)" "reachable us w4" "self_ok s4"
      "undisturbed uview w3 w4" "close_handle s4 = close_handle self"
      using incoming_ends [OF 3(2) assms(2)] by blast
    obtain r5 s5 w5 where 5: "send_stateless_packets E s4 w4 = Some (r5, s5, w5)" "reachable us w5" "self_ok s5"
      "undisturbed uview w4 w5" "close_handle s5 = close_handle s4"
      using stateless_ends [OF 4(2,3)] by blast
    obtain s6 w6 where 6: "send_connection_packets E t s5 w5 = Some (s6, w6)" "reachable us w6" "self_ok s6"
      "undisturbed uview w5 w6" "close_handle s6 = close_handle s5"
      using connection_packets_end [OF 5(2,3)] by blast
    obtain nw where "get_next_wake_up_time (quic_fns E) (ci_quic s6) t (quic w6) = Some nw"
      using next_wake_known by blast
    then have "inner_round E self w = Some (Inr nw, s6, w6)"
      using c d False 3(1) 4(1) 5(1) 6(1) by (simp add: inner_round_def Let_def t_def)
    moreover have "undisturbed uview w w6" using r2(2) 3(3) 4(4) 5(4) 6(4) by (blast intro: undisturbed_trans)
    ultimately show ?thesis using 4(5) 5(5) 6(2,3,5) by auto
  qed
qed

text \<open>While the user keeps the context the loop does not finish; it finishes only when the user's
  end is gone.\<close>

lemma inner_poll_ends:
  assumes "reachable us (w :: ('m, 'd, 'q, 'c, 'r, 'u, 's, 'n, 'b, 'p) inner_world)" "self_ok self"
  shows "\<exists>a self' w'. inner_poll E self w = Some (Ok a, self', w') \<and> reachable us w' \<and> self_ok self' \<and>
    (a = NotReady \<longrightarrow> wake_arranged E self' w w') \<and> (a = Ready () \<longrightarrow> user_gone uview self' w') \<and>
    (\<forall>h. close_handle self = Some h \<and> user_waits uview h w \<longrightarrow>
       a = NotReady \<and> close_handle self' = Some h \<and> user_waits uview h w')"
proof -
  let ?P = "\<lambda>(s :: ('k, 't) context_inner) (v :: ('m, 'd, 'q, 'c, 'r, 'u, 's, 'n, 'b, 'p) inner_world).
    reachable us v \<and> self_ok s \<and> close_handle s = close_handle self \<and> keeps_user uview w v"
  have "\<exists>m a self' w'. inner_loop E 0 self w = Some (Ok a, self', w') \<and> m \<le> Suc max_loops_without_sleep \<and>
    ?P self' w' \<and> (a = NotReady \<longrightarrow> wake_arranged E self' w w') \<and> (a = Ready () \<longrightarrow> user_gone uview self' w')"
  proof (rule inner_loop_returns [where P = "\<lambda>_. ?P"])
    fix s :: "('k, 't) context_inner" and v assume P: "?P s v"
    then obtain r s' v' where "inner_round E s v = Some (r, s', v')" "reachable us v'" "self_ok s'"
      "undisturbed uview v v'" "close_handle s' = close_handle s" "r = Inl () \<longrightarrow> user_gone uview s' v'"
      using inner_round_ends [of us v s] by blast
    with P show "\<exists>r s' v'. inner_round E s v = Some (r, s', v') \<and> ?P s' v' \<and> notified v' = notified v \<and>
        (r = Inl () \<longrightarrow> user_gone uview s' v')"
      unfolding undisturbed_def by (metis keeps_user_trans)
  next
    fix s :: "('k, 't) context_inner" and v k assume P: "?P s v"
    moreover have "keeps_user uview v (v\<lparr>notified := k\<rparr>)" by (simp add: keeps_user_def user_waits_def)
    ultimately show "?P s (v\<lparr>notified := k\<rparr>)"
      by (blast intro: reach_step loop_step.wake keeps_user_trans)
  qed (use assms in simp_all)
  then obtain a self' w' where r: "inner_loop E 0 self w = Some (Ok a, self', w')" "?P self' w'"
    "a = NotReady \<longrightarrow> wake_arranged E self' w w'" "a = Ready () \<longrightarrow> user_gone uview self' w'" by blast
  have "a = NotReady \<and> close_handle self' = Some h \<and> user_waits uview h w'"
    if "close_handle self = Some h" "user_waits uview h w" for h
  proof -
    have u: "user_waits uview h w'" using r(2) that(2) by (blast intro: keeps_userD)
    then have "\<not> user_gone uview self' w'" using r(2) that(1) by (auto simp: user_gone_def user_waits_def)
    with r(2,4) that(1) u show ?thesis by (cases a) auto
  qed
  with r show ?thesis by (auto simp: inner_poll_def)
qed

lemma inner_drop_ends:
  assumes "reachable us (w :: ('m, 'd, 'q, 'c, 'r, 'u, 's, 'n, 'b, 'p) inner_world)"
  shows "\<exists>w'. inner_drop E self w = Some w'"
proof -
  define w1 where "w1 = (case close_handle self of
      Some h \<Rightarrow> w\<lparr>units := (units w)(h := snd (os_send (unit_ops E) (units w h) ()))\<rparr> | None \<Rightarrow> w)"
  have r1: "reachable us w1"
    using assms reach_step [OF assms loop_step.shut] by (simp add: w1_def split: option.split)
  obtain In where i: "loop_inv us In w1" using reach_inv [OF r1] by blast
  from run_c_inv [OF i runs_okD(4) [OF runs [OF r1]], of "qc_quic (ci_quic self)"] obtain w2 where
    "run_c E (picoquic_free_run E (quic w1) (qc_quic (ci_quic self))) w1 = Some ((), w2)" by auto
  then show ?thesis by (simp add: inner_drop_def Let_def w1_def [symmetric] split_beta)
qed

end

end
