(* ===== verification/Loop_Props.thy ===== *)
theory Loop_Props
  imports Loop_Progress
begin

text \<open>
  The properties of the whole program, and an environment on which their hypotheses are
  discharged: picoquic is the list of calls made so far, as for the single components, but it
  calls the contexts back, has packets to send and packets of its own, and ends connections; one
  that was closed is disconnected.
\<close>

section \<open>A picoquic that calls back\<close>

fun is_mark :: "quic_call \<Rightarrow> bool" where
  "is_mark (CallMarkActive _ _) = True"
| "is_mark _ = False"

fun is_close :: "quic_call \<Rightarrow> bool" where
  "is_close (CallClose _) = True"
| "is_close _ = False"

fun given :: "quic_call \<Rightarrow> nat option" where
  "given (CallSetCallback _ h) = h"
| "given _ = None"

text \<open>The contexts that picoquic was given, and those that it may still call back.\<close>

definition targets :: "quic_call list \<Rightarrow> nat list" where
  "targets q = List.map_filter given q"

definition forget :: "nat \<Rightarrow> quic_call list \<Rightarrow> quic_call list" where
  "forget h q = filter (\<lambda>c. given c \<noteq> Some h) q"

lemma set_targets: "set (targets q) = {h. \<exists>c\<in>set q. given c = Some h}"
  by (force simp: targets_def List.map_filter_def)

lemma targets_append [simp]: "set (targets (q @ [c])) = set (targets q) \<union> {h. given c = Some h}"
  by (auto simp: set_targets)

lemma targets_filter [simp]: "set (targets (filter P q)) \<subseteq> set (targets q)"
  by (auto simp: set_targets)

lemma targets_filter_Nil [simp]: "targets q = [] \<Longrightarrow> targets (filter P q) = []"
  using targets_filter [of P q] by simp

lemma targets_forget [simp]: "set (targets (forget h q)) = set (targets q) - {h}"
  by (auto simp: set_targets forget_def)

text \<open>A datagram opens a connection when there is none; otherwise it is for a stream of the
  last connection, and an empty one ends that connection.\<close>

definition call_back :: "callback_target \<Rightarrow> u64 \<Rightarrow> callback_event \<Rightarrow> c_callback" where
  "call_back target sid event =
     \<lparr>cbk_target = target, cbk_stream_id = sid, cbk_bytes = 9, cbk_length = 3, cbk_event = event\<rparr>"

definition end_connection :: "'a \<Rightarrow> quic_call list \<Rightarrow> (quic_call list, 'a) c_run" where
  "end_connection a q =
     (case targets q of
        [] \<Rightarrow> CReturn a q
      | h # _ \<Rightarrow> CCallback (call_back (ToConnection h) 0 callback_close) (forget h q) (CReturn a))"

definition loop_incoming ::
  "quic_call list \<Rightarrow> ptr \<Rightarrow> bytes \<Rightarrow> socket_addr \<Rightarrow> socket_addr \<Rightarrow> u64 \<Rightarrow> (quic_call list, int \<times> bytes) c_run" where
  "loop_incoming q p bs from_addr to_addr t =
     (if bs = [] then end_connection (0, bs) q
      else
        (case targets q of
           [] \<Rightarrow> CCallback (call_back (ToNewConnection 7) 4 callback_stream_data) q (CReturn (0, bs))
         | h # _ \<Rightarrow> CCallback (call_back (ToConnection h) 1 callback_stream_data) q (CReturn (0, bs))))"

definition loop_prepare ::
  "quic_call list \<Rightarrow> ptr \<Rightarrow> u64 \<Rightarrow> bytes \<Rightarrow> (quic_call list, int \<times> bytes \<times> nat \<times> ptr \<times> int) c_run" where
  "loop_prepare q cnx t buf =
     (let done = (\<lambda>q. CReturn (0, buf, min 1 (length buf), 1, 16) (filter (\<lambda>c. \<not> is_mark c) q))
      in case targets q of
           [] \<Rightarrow> done q
         | h # _ \<Rightarrow> CCallback (call_back (ToConnection h) 1 callback_prepare_to_send) q done)"

definition loop_env :: rec_inner_env where
  "loop_env = (inner_record_env 0)\<lparr>
     picoquic_incoming_packet := loop_incoming,
     picoquic_prepare_packet := loop_prepare,
     picoquic_delete_cnx := (\<lambda>q cnx. end_connection () q),
     picoquic_free_run := (\<lambda>q p. end_connection () q),
     picoquic_get_cnx_state := (\<lambda>q cnx. if list_ex is_close q then 14 else 0),
     picoquic_get_earliest_cnx_to_wake := (\<lambda>q p t. if list_ex is_mark q then 7 else 0),
     picoquic_dequeue_stateless_packet := (\<lambda>q p. (if list_ex is_close q then 5 else 0, q)),
     picoquic_delete_stateless_packet := (\<lambda>q p. filter (\<lambda>c. \<not> is_close c) q),
     udp_poll_recv_from := (\<lambda>k n. case k of
         (p # ps, rest) \<Rightarrow> (Ok (Ready (take n (fst p), snd p)), ps, rest)
       | ([], rest) \<Rightarrow> (Ok NotReady, [], rest))\<rparr>"

lemmas loop_env_simps = loop_env_def inner_record_defs

abbreviation loop_tg :: "quic_call list \<Rightarrow> nat set" where
  "loop_tg q \<equiv> set (targets q)"

interpretation lenv: loop_library loop_env "\<lambda>v. v" "\<lambda>v. v" "\<lambda>v. v" "\<lambda>v. v" "\<lambda>v. v" "\<lambda>v. v" "\<lambda>v. v" loop_tg "\<lambda>v. v"
proof (intro loop_library.intro loop_library_axioms.intro connection_library.intro connection_library_axioms.intro
    stream_library.intro stream_library_axioms.intro connection_channels.intro connection_channels_axioms.intro
    stream_channels.intro)
  show "inet_addresses loop_env"
    by (simp add: inet_addresses_def socket_addr_from_sockaddr_def loop_env_simps)
  show "c_memory loop_env" by (simp add: c_memory_def loop_env_simps)
qed (simp_all add: loop_env_simps fifo.mpsc_channel_axioms vos.oneshot_channel_axioms)

text \<open>Its runs are well-behaved in every state, and so are those of the program.\<close>

lemma run_ok_post: "run_ok E tg post run w \<Longrightarrow> run_c E run w = Some (a, w') \<Longrightarrow> post a (quic w')"
  by (induction run arbitrary: w) (auto split: option.splits)

lemma run_ok_mono: "run_ok E tg post run w \<Longrightarrow> (\<And>a q. post a q \<Longrightarrow> post' a q) \<Longrightarrow> run_ok E tg post' run w"
  by (induction run arbitrary: w) auto

lemma end_connection_ok: "run_ok loop_env loop_tg (\<lambda>b _. b = a) (end_connection a (quic w)) w"
  by (auto simp: end_connection_def callback_ok_def call_back_def closing_def split: list.split)

lemma reported_one: "reported_id c 1"
  by (simp add: reported_id_def)

lemma incoming_ok:
  "run_ok loop_env loop_tg (\<lambda>(_, buf) _. length buf = length bs) (loop_incoming (quic w) p bs from_addr to_addr t) w"
  by (auto simp: loop_incoming_def end_connection_def callback_ok_def call_back_def closing_def reported_one
      is_client_initiated_def split: list.split)

lemma prepare_ok:
  "run_ok loop_env loop_tg (\<lambda>(_, buf', n, _) q. length buf' = length buf \<and> n \<le> length buf \<and> \<not> list_ex is_mark q)
     (loop_prepare (quic w) cnx t buf) w"
  by (auto simp: loop_prepare_def callback_ok_def call_back_def closing_def reported_one list_ex_iff split: list.split)

lemma loop_env_runs: "runs_ok loop_env loop_tg w"
proof -
  have e: "picoquic_incoming_packet loop_env = loop_incoming" "picoquic_prepare_packet loop_env = loop_prepare"
    "picoquic_delete_cnx loop_env q cnx = end_connection () q" "picoquic_free_run loop_env q p = end_connection () q" for q cnx p
    by (simp_all add: loop_env_def)
  have "run_ok loop_env loop_tg (\<lambda>(_, buf', n, _) _. length buf' = length buf \<and> n \<le> length buf)
      (loop_prepare (quic w) cnx t buf) w" for cnx t buf
    by (rule run_ok_mono [OF prepare_ok]) auto
  moreover have "run_ok loop_env loop_tg (\<lambda>_ _. True) (end_connection () (quic w)) w"
    by (rule run_ok_mono [OF end_connection_ok]) simp
  ultimately show ?thesis unfolding runs_ok_def e using incoming_ok by blast
qed

interpretation lenv: event_loop loop_env "\<lambda>v. v" "\<lambda>v. v" "\<lambda>v. v" "\<lambda>v. v" "\<lambda>v. v" "\<lambda>v. v" "\<lambda>v. v" loop_tg "\<lambda>v. v"
  by (intro event_loop.intro event_loop_axioms.intro lenv.loop_library_axioms loop_env_runs)

lemma loop_env_prepared:
  assumes "picoquic_get_earliest_cnx_to_wake loop_env (quic w) p t \<noteq> 0"
    and "run_c loop_env (picoquic_prepare_packet loop_env (quic w) cnx t buf) w = Some (ret, w')"
  shows "length (filter is_mark (quic w')) < length (filter is_mark (quic w))"
proof -
  have "list_ex is_mark (quic w)" using assms(1) by (simp add: loop_env_def split: if_splits)
  then have "filter is_mark (quic w) \<noteq> []" by (auto simp: list_ex_iff filter_empty_conv)
  moreover have "run_c loop_env (loop_prepare (quic w) cnx t buf) w = Some (ret, w')"
    using assms(2) by (simp add: loop_env_def)
  from run_ok_post [OF prepare_ok this] have "filter is_mark (quic w') = []"
    by (auto simp: list_ex_iff filter_empty_conv split: prod.splits)
  ultimately show ?thesis by simp
qed

interpretation lenv: loop_progress loop_env "\<lambda>v. v" "\<lambda>v. v" "\<lambda>v. v" "\<lambda>v. v" "\<lambda>v. v" "\<lambda>v. v" "\<lambda>v. v" loop_tg "\<lambda>v. v"
  "\<lambda>k. length (fst k)" "\<lambda>q. length (filter is_close q)" "\<lambda>p t q. length (filter is_mark q)"
proof (intro loop_progress.intro loop_progress_axioms.intro lenv.event_loop_axioms)
  fix k n bs a k'
  assume "udp_poll_recv_from loop_env k n = (Ok (Ready (bs, a)), k')"
  then show "length (fst k') < length (fst k) \<and> length bs \<le> n"
    by (auto simp: loop_env_def split: prod.splits list.splits)
next
  fix q p pk q'
  assume "picoquic_dequeue_stateless_packet loop_env q p = (pk, q')" "pk \<noteq> 0"
  then have "list_ex is_close q" "q' = q" by (auto simp: loop_env_def split: if_splits)
  moreover from this(1) have "filter is_close q \<noteq> []" by (auto simp: list_ex_iff filter_empty_conv)
  ultimately show "length (filter is_close (picoquic_delete_stateless_packet loop_env q' pk)) < length (filter is_close q)"
    by (simp add: loop_env_def)
qed (use loop_env_prepared in \<open>auto simp: loop_env_def inner_record_defs rec_quic_fns_def\<close>)

text \<open>A world in which nothing happened yet, and the one after a first datagram.\<close>

lemma sample_fresh: "fresh_world (\<lambda>v. v) loop_tg (\<lambda>v. v) (\<lambda>v. v) (\<lambda>v. v) (sample_inner_world [])"
  by (simp add: fresh_world_def sample_inner_world_def con_world.defs inner_world.defs queue_def offered_def
      con_sample_defs view_new_def ov_new_def targets_def List.map_filter_def)

abbreviation loop_reach :: "stream set \<Rightarrow> rec_inner_world \<Rightarrow> bool" where
  "loop_reach \<equiv> reach loop_env (\<lambda>v. v) loop_tg (\<lambda>v. v) (\<lambda>v. v) (\<lambda>v. v) (\<lambda>v. v)"

lemma sample_start: "loop_reach {} (sample_inner_world [])"
  by (rule reach.start [OF sample_fresh])

definition first_datagram :: "((int \<times> bytes) \<times> rec_inner_world) option" where
  "first_datagram = run_c loop_env (picoquic_incoming_packet loop_env (quic (sample_inner_world [])) 3 [1]
     (SocketAddrV4 5 6) (SocketAddrV4 1 2) 0) (sample_inner_world [])"

definition accepted_world :: rec_inner_world where
  "accepted_world = snd (the first_datagram)"

lemma accepted_reach: "loop_reach {} accepted_world"
proof -
  obtain In where "lenv.loop_inv ({} :: stream set) In (sample_inner_world [])" using lenv.reach_inv [OF sample_start] by blast
  from lenv.run_c_inv [OF this runs_okD(1) [OF loop_env_runs]] obtain a w' where r: "first_datagram = Some (a, w')"
    unfolding first_datagram_def by blast
  then have "loop_step loop_env (sample_inner_world []) w'"
    unfolding first_datagram_def by (rule loop_step.incoming)
  then have "loop_reach {} w'" by (rule reach.loop [OF sample_start])
  then show ?thesis unfolding accepted_world_def r by simp
qed

lemma accepted_eval: "connections (cctx accepted_world) = [13]" "targets (quic accepted_world) = [13]"
  "refs accepted_world 13 = 2"
  by code_simp+

text \<open>The user takes the stream that the peer opened.\<close>

definition opened :: "(stream option, error) poll \<times> rec_inner_world" where
  "opened = connection_poll loop_env (hd (cv_buffer (newcons accepted_world 40))) accepted_world"

definition opened_stream :: stream where
  "opened_stream = (case fst opened of Ok (Ready (Some st)) \<Rightarrow> st | _ \<Rightarrow> undefined)"

abbreviation opened_world :: rec_inner_world where
  "opened_world \<equiv> snd opened"

lemma opened_eval: "fst opened = Ok (Ready (Some opened_stream))" "st_id opened_stream = 4"
proof -
  have "case fst opened of Ok (Ready (Some st)) \<Rightarrow> st_id st = 4 | _ \<Rightarrow> False" by code_simp
  then show "fst opened = Ok (Ready (Some opened_stream))" "st_id opened_stream = 4"
    by (auto simp: opened_stream_def split: result.splits async.splits option.splits)
qed

lemma opened_reach: "loop_reach {opened_stream} opened_world"
proof -
  have "connection_poll loop_env (hd (cv_buffer (newcons accepted_world 40))) accepted_world =
      (Ok (Ready (Some opened_stream)), opened_world)"
    using opened_eval(1) by (simp add: opened_def prod_eq_iff)
  from reach.user [OF accepted_reach user_step.accept_stream [OF this]] show ?thesis by simp
qed

section \<open>Termination\<close>

text \<open>C2.  In every state that the program can reach, polling the event loop returns to the
  executor, without an error and without a panic: every loop in it ends, if the socket, the
  stateless packets and the connections that want to send run dry (the measures of
  \<open>loop_progress\<close>).  What it returns in is a state of the program again.  A poll that is
  not ready has arranged a wake-up, one that is ready found the user's context gone; and as long as
  the user keeps the context a poll is never ready.  Shutting the loop down ends as well.\<close>

theorem event_loop_terminates:
  assumes "loop_progress E mview dview cview rview uview sview nview tg pview waiting queued due"
    and "reach E mview tg cview rview sview pview us
      (w :: ('m, 'd, 'q, 'c, 'r, 'u, 's, 'n, 'b, 'p) inner_world)" "self_ok self"
  shows "(\<exists>a self' w'. inner_poll E self w = Some (Ok a, self', w') \<and>
      reach E mview tg cview rview sview pview us w' \<and> self_ok self' \<and>
      (a = NotReady \<longrightarrow> wake_arranged E self' w w') \<and> (a = Ready () \<longrightarrow> user_gone uview self' w') \<and>
      (\<forall>h. close_handle self = Some h \<and> user_waits uview h w \<longrightarrow> a = NotReady)) \<and>
    (\<exists>w'. inner_drop E self w = Some w')"
  using loop_progress.inner_poll_ends [OF assms] loop_progress.inner_drop_ends [OF assms(1,2)] by blast

definition busy_inner :: "(rec_socket, unit) context_inner" where
  "busy_inner = (sample_inner ([([1, 2], SocketAddrV4 5 6), ([], SocketAddrV4 5 6)], [], False) None [0, 0, 0, 0])
     \<lparr>close_handle := Some 9\<rparr>"

theorem event_loop_terminates_witness:
  "(\<exists>self' w'. inner_poll loop_env busy_inner (sample_inner_world []) = Some (Ok NotReady, self', w') \<and>
      loop_reach {} w' \<and> wake_arranged loop_env self' (sample_inner_world []) w') \<and>
    (\<exists>w'. inner_drop loop_env busy_inner (sample_inner_world []) = Some w')"
proof -
  have "self_ok busy_inner" by (simp add: self_ok_def busy_inner_def sample_inner_def)
  note t = event_loop_terminates [OF lenv.loop_progress_axioms sample_start this]
  have "close_handle busy_inner = Some 9 \<and> user_waits (\<lambda>v. v) 9 (sample_inner_world [])"
    by (simp add: busy_inner_def user_waits_def sample_inner_world_def con_world.defs inner_world.defs
        con_sample_defs ov_new_def)
  with t show ?thesis by blast
qed

text \<open>The world after a context was made: nothing is connected, all queues are empty.\<close>

lemma inner_new_fresh:
  fixes w :: "('m, 'd, 'q, 'c, 'r, 'u, 's, 'n, 'b, 'p) inner_world"
  assumes "mpsc_channel (connect_ops E) pview"
    and "fresh_world mview tg cview sview pview w" "inner_new E a cfg w = Some (Ok (inner, recv, connect, close), w')"
    and "tg (quic w') = {}"
  shows "fresh_world mview tg cview sview pview w'" "self_ok inner"
proof -
  have v: "cv_buffer (pview (mpsc_new (connect_ops E) n)) = []" for n
    using mpsc_channel.view_of_new [OF assms(1), of n] by (simp add: view_new_def)
  have w': "msgs w' = msgs w" "con_msgs w' = con_msgs w" "sfuts w' = sfuts w" "ctxs w' = ctxs w"
    "connects w' = (connects w)(Suc (fresh w) := mpsc_new (connect_ops E) None)"
    "connections (cctx w') = []" "not_send_length inner = None"
    using assms(3)
    by (auto simp: inner_new_def c_context_new_def Let_def split: prod.splits bind_splits result.splits)
  show "fresh_world mview tg cview sview pview w'"
    using assms(2,4) w' v by (simp add: fresh_world_def queue_def offered_def)
  show "self_ok inner" using w'(7) by (simp add: self_ok_def)
qed

lemma context_create_fresh:
  fixes w :: "('m, 'd, 'q, 'c, 'r, 'u, 's, 'n, 'b, 'p) inner_world"
  assumes "mpsc_channel (connect_ops E) pview" "fresh_world mview tg cview sview pview w"
    and "context_create E fs spawn listen_address cfg w = Some (Ok (ctx, inner), w')" "tg (quic w') = {}"
  shows "reach E mview tg cview rview sview pview {} w'" "self_ok inner"
    "close_handle inner = Some (ctx_close_handle ctx)" "ctx_close_handle ctx < fresh w'"
proof -
  obtain recv connect close where n: "inner_new E listen_address cfg w = Some (Ok (inner, recv, connect, close), w')"
    "ctx_close_handle ctx = close"
    using assms(3) by (auto simp: context_create_def split: result.splits bind_splits)
  show "reach E mview tg cview rview sview pview {} w'" "self_ok inner"
    using inner_new_fresh [OF assms(1,2) n(1) assms(4)] by (auto intro: reach.start)
  show "close_handle inner = Some (ctx_close_handle ctx)" "ctx_close_handle ctx < fresh w'"
    using n by (auto simp: inner_new_def c_context_new_def Let_def split: prod.splits bind_splits result.splits)
qed

lemma context_create_waits:
  fixes w :: "('m, 'd, 'q, 'c, 'r, 'u, 's, 'n, 'b, 'p) inner_world"
  assumes "oneshot_channel (unit_ops E) uview" "fresh_world mview tg cview sview pview w"
    and "context_create E fs spawn listen_address cfg w = Some (Ok (ctx, inner), w')"
  shows "user_waits uview (ctx_close_handle ctx) w'"
proof -
  have "uview (os_new (unit_ops E)) = ov_new" by (rule oneshot_channel.oview_new [OF assms(1)])
  then show ?thesis
    using assms(2,3)
    by (auto simp: user_waits_def fresh_world_def ov_new_def context_create_def inner_new_def c_context_new_def Let_def
        split: prod.splits bind_splits result.splits)
qed

text \<open>C5.  A context that was made works: when the executor has taken the event loop, the state
  is one of the program, in which polling the loop does not end it and arranges a wake-up; and
  afterwards the loop still sees the user's context, so the next polls do the same until the user
  drops it.  (Of picoquic it is assumed that a new context has no connections.)\<close>

theorem created_context_runs:
  assumes "loop_progress E mview dview cview rview uview sview nview tg pview waiting queued due"
    and "fresh_world mview tg cview sview pview
      (w :: ('m, 'd, 'q, 'c, 'r, 'u, 's, 'n, 'b, 'p) inner_world)"
    and "context_create E fs spawn listen_address cfg w = Some (Ok (ctx, inner), w')" "tg (quic w') = {}"
  shows "reach E mview tg cview rview sview pview {} w' \<and>
    (\<exists>self' w2. inner_poll E inner w' = Some (Ok NotReady, self', w2) \<and>
      reach E mview tg cview rview sview pview {} w2 \<and> self_ok self' \<and> wake_arranged E self' w' w2 \<and>
      close_handle self' = Some (ctx_close_handle ctx) \<and> user_waits uview (ctx_close_handle ctx) w2)"
proof -
  have lib: "loop_library E mview dview cview rview uview sview nview tg pview"
    by (rule event_loop.axioms(1) [OF loop_progress.axioms(1) [OF assms(1)]])
  have "oneshot_channel (unit_ops E) uview"
    by (rule connection_channels.axioms(4) [OF connection_library.axioms(1) [OF loop_library.axioms(1) [OF lib]]])
  note waits = context_create_waits [OF this assms(2,3)]
  note new = context_create_fresh [OF loop_library.axioms(2) [OF lib] assms(2-4)]
  from loop_progress.inner_poll_ends [OF assms(1) new(1,2)] new(1,3) waits show ?thesis by blast
qed

definition created :: "((user_context \<times> (rec_socket, unit) context_inner, error) result \<times> rec_inner_world) option" where
  "created = context_create loop_env \<lparr>path_exists = (\<lambda>_. True), debug_path = (\<lambda>_. [])\<rparr> (\<lambda>_. Ok ())
     (SocketAddrV4 0 0) config_default (sample_inner_world [])"

lemma created_eval: "case created of Some (Ok (ctx, inner), w) \<Rightarrow>
    ctx_recv_con ctx = 10 \<and> length (buffer inner) = 8 \<and> quic w = [] | _ \<Rightarrow> False"
  by code_simp

lemma created_ok:
  obtains ctx inner w' where "created = Some (Ok (ctx, inner), w')" "loop_tg (quic w') = {}"
proof -
  obtain ctx inner w' where c: "created = Some (Ok (ctx, inner), w')" "quic w' = []"
    using created_eval by (auto split: option.split_asm prod.split_asm result.split_asm)
  then show ?thesis by (intro that [OF c(1)]) (simp add: targets_def List.map_filter_def)
qed

theorem created_context_runs_witness:
  "\<exists>ctx inner w' self' w2. created = Some (Ok (ctx, inner), w') \<and> loop_reach {} w' \<and>
    inner_poll loop_env inner w' = Some (Ok NotReady, self', w2) \<and> loop_reach {} w2 \<and> wake_arranged loop_env self' w' w2"
proof -
  obtain ctx inner w' where c: "created = Some (Ok (ctx, inner), w')" "loop_tg (quic w') = {}" by (rule created_ok)
  from created_context_runs [OF lenv.loop_progress_axioms sample_fresh c(1) [unfolded created_def] c(2)] c(1)
  show ?thesis by blast
qed

text \<open>C6.  Dropping the user's context ends the event loop: whatever state the program is in,
  and however many connections are open, the next poll of the loop is its last.\<close>

theorem dropped_context_ends_loop:
  assumes "event_loop E mview dview cview rview uview sview nview tg pview"
    and "reach E mview tg cview rview sview pview us
      (w :: ('m, 'd, 'q, 'c, 'r, 'u, 's, 'n, 'b, 'p) inner_world)"
    and "close_handle self = Some (ctx_close_handle ctx)" "ctx_close_handle ctx < fresh w"
  shows "\<exists>w'. inner_poll E self (user_context_drop E ctx w) = Some (Ok (Ready ()), self, w')"
proof -
  let ?w = "user_context_drop E ctx w" and ?h = "ctx_close_handle ctx"
  have lib: "loop_library E mview dview cview rview uview sview nview tg pview"
    using assms(1) by (rule event_loop.axioms(1))
  obtain In where i: "loop_library.loop_inv mview cview rview sview tg pview us In w"
    using event_loop.reach_inv [OF assms(1,2)] by blast
  note d = loop_library.user_context_drop_inv [OF lib i, of ctx]
  obtain w1 where c: "c_context_poll E ?w = Some (Ok NotReady, w1)" "gone_stays uview UNIV ?w w1"
    using loop_library.c_context_poll_inv [OF lib d(1)] by metis
  have "\<not> ov_rx (uview (units w1 ?h))" using c(2) d(2,3) assms(4) by (auto simp: gone_stays_def)
  moreover have "oneshot_channel (unit_ops E) uview"
    by (rule connection_channels.axioms(4) [OF connection_library.axioms(1) [OF loop_library.axioms(1) [OF lib]]])
  ultimately have "fst (os_poll_cancel (unit_ops E) (units w1 ?h)) \<noteq> Ok NotReady"
    by (simp add: oneshot_channel.poll_cancel_fst)
  then obtain w2 where "context_dropped E self w1 = (True, w2)"
    using assms(3) by (cases "os_poll_cancel (unit_ops E) (units w1 ?h)") (simp add: context_dropped_def)
  with c(1) have "inner_round E self ?w = Some (Inl (), self, w2)" by (simp add: inner_round_def Let_def)
  then show ?thesis by (simp add: inner_poll_def inner_loop.simps [of E 0])
qed

theorem dropped_context_ends_loop_witness:
  "\<exists>ctx inner w' w2. created = Some (Ok (ctx, inner), w') \<and>
    inner_poll loop_env inner (user_context_drop loop_env ctx w') = Some (Ok (Ready ()), inner, w2)"
proof -
  obtain ctx inner w' where c: "created = Some (Ok (ctx, inner), w')" "loop_tg (quic w') = {}" by (rule created_ok)
  note new = context_create_fresh [OF lenv.pch.mpsc_channel_axioms sample_fresh c(1) [unfolded created_def] c(2)]
  from dropped_context_ends_loop [OF lenv.event_loop_axioms new(1,3,4)] c(1) show ?thesis by blast
qed

section \<open>Safety\<close>

text \<open>C1.  In every state that the program can reach, nothing panics and no freed context of a
  connection (the \<^verbatim>\<open>Arc\<close> on the Rust side) is touched: polling all contexts
  returns in a state of the program, every callback that picoquic may make returns, so do the runs
  of picoquic with all their callbacks, and a user may poll each of their streams.  This says nothing
  about the memory of picoquic itself: a connection that picoquic deleted is used once more, see
  \<open>deleted_connection_used\<close> below.\<close>

theorem program_never_panics:
  assumes "event_loop E mview dview cview rview uview sview nview tg pview"
    and "reach E mview tg cview rview sview pview us
      (w :: ('m, 'd, 'q, 'c, 'r, 'u, 's, 'n, 'b, 'p) inner_world)"
  shows "(\<exists>w'. c_context_poll E w = Some (Ok NotReady, w') \<and> reach E mview tg cview rview sview pview us w') \<and>
    (\<forall>cb q. callback_ok E tg cb q (tg (quic w)) w \<longrightarrow> dispatch E cb (w\<lparr>quic := q\<rparr>) \<noteq> None) \<and>
    (\<forall>p buf from_addr to_addr t.
       run_c E (picoquic_incoming_packet E (quic w) p buf from_addr to_addr t) w \<noteq> None) \<and>
    (\<forall>cnx t buf. run_c E (picoquic_prepare_packet E (quic w) cnx t buf) w \<noteq> None) \<and>
    (\<forall>st\<in>us. stream_poll E st w \<noteq> None)"
proof -
  have lib: "loop_library E mview dview cview rview uview sview nview tg pview"
    using assms(1) by (rule event_loop.axioms(1))
  then have slib: "stream_library E mview dview tg"
    by (intro connection_library.axioms(2) loop_library.axioms(1))
  obtain In where i: "loop_library.loop_inv mview cview rview sview tg pview us In w"
    using event_loop.reach_inv [OF assms] by blast
  have runs: "runs_ok E tg w" by (rule event_loop.runs [OF assms])
  obtain w' where c: "c_context_poll E w = Some (Ok NotReady, w')"
    using loop_library.c_context_poll_inv [OF lib i] by metis
  have "reach E mview tg cview rview sview pview us w'"
    by (rule reach.loop [OF assms(2) loop_step.contexts [OF c]])
  moreover have "dispatch E cb (w\<lparr>quic := q\<rparr>) \<noteq> None" if "callback_ok E tg cb q (tg (quic w)) w" for cb q
    by (rule loop_library.dispatch_inv [OF lib i that]) simp
  moreover have "run_c E (picoquic_incoming_packet E (quic w) p buf from_addr to_addr t) w \<noteq> None" for p buf from_addr to_addr t
    using loop_library.run_c_inv [OF lib i runs_okD(1) [OF runs], of p buf from_addr to_addr t] by auto
  moreover have "run_c E (picoquic_prepare_packet E (quic w) cnx t buf) w \<noteq> None" for cnx t buf
    using loop_library.run_c_inv [OF lib i runs_okD(2) [OF runs], of cnx t buf] by auto
  moreover have "stream_poll E st w \<noteq> None" if "st \<in> us" for st
    by (rule stream_library.stream_poll_ok [OF slib loop_library.inv_typed [OF lib i] loop_library.inv_user [OF lib i that]]) simp
  ultimately show ?thesis
    using c by blast
qed

theorem program_never_panics_witness:
  "(\<exists>w'. c_context_poll loop_env opened_world = Some (Ok NotReady, w') \<and> loop_reach {opened_stream} w') \<and>
   dispatch loop_env (call_back (ToConnection 13) 1 callback_stream_data) opened_world \<noteq> None \<and>
   run_c loop_env (picoquic_incoming_packet loop_env (quic opened_world) 3 [] (SocketAddrV4 5 6) (SocketAddrV4 1 2) 0)
     opened_world \<noteq> None \<and>
   stream_poll loop_env opened_stream opened_world \<noteq> None"
proof -
  have "targets (quic opened_world) = [13]" by code_simp
  then have "callback_ok loop_env loop_tg (call_back (ToConnection 13) 1 callback_stream_data) (quic opened_world)
      (loop_tg (quic opened_world)) opened_world"
    by (simp add: callback_ok_def call_back_def closing_def reported_one)
  moreover have "opened_world\<lparr>quic := quic opened_world\<rparr> = opened_world" by simp
  ultimately show ?thesis
    using program_never_panics [OF lenv.event_loop_axioms opened_reach] by (metis insertI1)
qed

text \<open>C3.  The contexts of connections outlive their users: in every reachable state each
  context has at least one reference for the list of the event loop, if it is in there, and one
  for picoquic, if picoquic may still call it back.  So everything in the list, which has no
  context twice, and everything that can be called back is alive.\<close>

theorem contexts_outlive_callbacks:
  assumes "event_loop E mview dview cview rview uview sview nview tg pview"
    and "reach E mview tg cview rview sview pview us
      (w :: ('m, 'd, 'q, 'c, 'r, 'u, 's, 'n, 'b, 'p) inner_world)"
  shows "distinct (connections (cctx w)) \<and>
    (\<forall>h. holders tg (connections (cctx w)) (quic w) h \<le> refs w h) \<and>
    set (connections (cctx w)) \<union> tg (quic w) \<subseteq> {h. ctxs w h \<noteq> None}"
proof -
  have lib: "loop_library E mview dview cview rview uview sview nview tg pview"
    using assms(1) by (rule event_loop.axioms(1))
  obtain In where "loop_library.loop_inv mview cview rview sview tg pview us In w"
    using event_loop.reach_inv [OF assms] by blast
  then have "owned tg (connections (cctx w)) w"
    by (simp add: loop_library.loop_inv_def [OF lib] store_ok_def)
  then have o: "owned tg (connections (cctx w)) w" .
  have "ctxs w h \<noteq> None" if "h \<in> set (connections (cctx w)) \<or> h \<in> tg (quic w)" for h
    by (rule owned_alive [OF o that]) simp
  with o show ?thesis unfolding owned_def by blast
qed

theorem contexts_outlive_callbacks_witness:
  "holders loop_tg [13] (quic accepted_world) 13 = 2 \<and>
   holders loop_tg [13] (quic accepted_world) 13 \<le> refs accepted_world 13 \<and> ctxs accepted_world 13 \<noteq> None"
proof -
  note c = contexts_outlive_callbacks [OF lenv.event_loop_axioms accepted_reach]
  have "holders loop_tg [13] (quic accepted_world) 13 = 2" by (simp add: holders_def accepted_eval(2))
  moreover have "13 \<in> set (connections (cctx accepted_world))" by (simp add: accepted_eval(1))
  ultimately show ?thesis using c unfolding accepted_eval(1) by blast
qed

section \<open>Types\<close>

text \<open>C4.  The channels between streams and contexts are well typed in every reachable state:
  there is a set of channels that lead to users, and no message of the wrong kind is ever waiting
  in a channel (both ends panic on one).  Every stream context and every stream of a user is
  attached to channels of the right direction, and the map of streams of every connection is
  sound, with room for the streams that are still requested.\<close>

theorem program_well_typed:
  assumes "event_loop E mview dview cview rview uview sview nview tg pview"
    and "reach E mview tg cview rview sview pview us
      (w :: ('m, 'd, 'q, 'c, 'r, 'u, 's, 'n, 'b, 'p) inner_world)"
  shows "\<exists>In. (\<forall>h. \<forall>m\<in>set (queue mview h w). if h \<in> In then \<not> is_swap m else control_message m) \<and>
    (\<forall>h c n. ctxs w h = Some (c, n) \<longrightarrow> con_inv c \<and>
       unat (cc_next_stream_id c) + length (request_queue rview c w) < 2 ^ 62 \<and>
       (\<forall>e\<in>set (cc_streams c). sc_recv_msg (snd e) \<in> In \<and> sc_control_msg (snd e) \<notin> In)) \<and>
    (\<forall>st\<in>us. st_recv_msg st \<in> In \<and> st_control_msg st \<notin> In)"
proof -
  have lib: "loop_library E mview dview cview rview uview sview nview tg pview"
    using assms(1) by (rule event_loop.axioms(1))
  obtain In where "loop_library.loop_inv mview cview rview sview tg pview us In w"
    using event_loop.reach_inv [OF assms] by blast
  then have "con_world_ok mview cview rview sview In w" "\<forall>st\<in>us. stream_ok In st w"
    by (simp_all add: loop_library.loop_inv_def [OF lib] store_ok_def)
  then show ?thesis
    by (intro exI [of _ In]) (fastforce simp: con_world_ok_def typed_def typed_message_def con_ctx_ok_def
      stream_ctx_ok_def stream_ok_def)
qed

theorem program_well_typed_witness:
  "\<exists>In. (\<forall>h. \<forall>m\<in>set (queue (\<lambda>v. v) h opened_world). if h \<in> In then \<not> is_swap m else control_message m) \<and>
    (\<forall>h c n. ctxs opened_world h = Some (c, n) \<longrightarrow> con_inv c \<and>
       unat (cc_next_stream_id c) + length (request_queue (\<lambda>v. v) c opened_world) < 2 ^ 62 \<and>
       (\<forall>e\<in>set (cc_streams c). sc_recv_msg (snd e) \<in> In \<and> sc_control_msg (snd e) \<notin> In)) \<and>
    st_recv_msg opened_stream \<in> In \<and> st_control_msg opened_stream \<notin> In"
  using program_well_typed [OF lenv.event_loop_axioms opened_reach] by simp

section \<open>Packets\<close>

text \<open>C34.  A turn of the connections ends, and every packet that picoquic prepares in it
  reaches the socket once and in order, behind the packet that was still waiting; at most the last
  one is waiting afterwards.  So a packet that the full socket did not take is not overtaken, and
  no further packet is prepared while it waits.\<close>

theorem packets_sent_in_order:
  assumes "loop_progress E mview dview cview rview uview sview nview tg pview waiting queued due"
    and "reach E mview tg cview rview sview pview us
      (w :: ('m, 'd, 'q, 'c, 'r, 'u, 's, 'n, 'b, 'p) inner_world)" "self_ok self"
    and "socket_log E sent"
  shows "\<exists>self' w' ps. send_connection_packets E t self w = Some (self', w') \<and>
    reach E mview tg cview rview sview pview us w' \<and>
    prepares E t (ci_quic self) (buffer self) w ps (buffer self') w' \<and>
    sent (socket self') @ unsent_packet self' = sent (socket self) @ unsent_packet self @ ps"
  using loop_progress.connection_packets_end [OF assms(1-3), of t] send_connection_packets_log [OF assms(4), of t self w]
  by blast

theorem packets_sent_in_order_witness:
  "\<exists>self' w' ps. send_connection_packets loop_env 0
      (sample_inner ([], [], False) (Some (2, SocketAddrV4 7 8)) [1, 2, 3]) opened_world = Some (self', w') \<and>
    prepares loop_env 0 \<lparr>qc_quic = 3, qc_max_delay = \<lparr>dur_secs = 10, dur_nanos = 0\<rparr>\<rparr> [1, 2, 3] opened_world ps
      (buffer self') w' \<and>
    fst (snd (socket self')) @ unsent_packet self' = ([1, 2], SocketAddrV4 7 8) # ps"
proof -
  let ?self = "sample_inner ([], [], False) (Some (2, SocketAddrV4 7 8)) [1, 2, 3]"
  have "socket_log loop_env (\<lambda>k. fst (snd k))"
    by (auto simp: socket_log_def loop_env_simps rec_send_def split: prod.splits list.splits if_splits)
  moreover have "self_ok ?self" by (simp add: self_ok_def sample_inner_def)
  ultimately show ?thesis
    using packets_sent_in_order [OF lenv.loop_progress_axioms opened_reach, of ?self "\<lambda>k. fst (snd k)" 0]
    by (simp add: unsent_packet_def [of ?self]) (force simp: sample_inner_def)
qed

section \<open>Errors\<close>

text \<open>C38.  A connect call to an unspecified address, which the interface accepts, does not fail:
  it makes the event loop panic as soon as it looks at its requests.\<close>

theorem connect_unspecified_panics:
  assumes "mpsc_channel (connect_ops E) pview" "ip_is_unspecified addr"
    and "cv_buffer (pview (connects w (recv_connect self))) = []" "cv_open (pview (connects w (recv_connect self)))"
    and "handle_new_connection E (recv_connect self) addr server_name w = (f, w')"
  shows "check_for_new_connection_request E current_time self w' = None"
proof -
  let ?h = "recv_connect self" and ?rq = "(addr, server_name, fresh w)"
  obtain r ch where s: "mpsc_unbounded_send (connect_ops E) (connects w ?h) ?rq = (r, ch)" by fastforce
  have v: "r = Ok ()" "cv_buffer (pview ch) = [?rq]"
    using mpsc_channel.unbounded_send_fst [OF assms(1), of "connects w ?h" ?rq]
      mpsc_channel.unbounded_send_snd [OF assms(1), of "connects w ?h" ?rq] s assms(3,4)
    by (simp_all add: view_send_def)
  have "connects w' ?h = ch"
    using assms(5) s v(1) by (auto simp: handle_new_connection_def Let_def)
  moreover obtain ch' where "mpsc_poll (connect_ops E) ch = (Ok (Ready (Some ?rq)), ch')"
    using mpsc_channel.poll_fst [OF assms(1), of ch] v(2) by (cases "mpsc_poll (connect_ops E) ch") (simp add: view_poll_def)
  ultimately show ?thesis
    by (subst check_for_new_connection_request.simps)
       (simp add: Let_def assms(2) connection_create_def cnx_new_def split: option.split)
qed

theorem connect_unspecified_panics_witness:
  "check_for_new_connection_request loop_env 0 (sample_inner ([], [], False) None [])
     (snd (handle_new_connection loop_env 41 (SocketAddrV4 0 80) [104] (sample_inner_world []))) = None"
  by (rule connect_unspecified_panics [OF lenv.pch.mpsc_channel_axioms, where addr = "SocketAddrV4 0 80" and w = "sample_inner_world []"])
     (auto simp: sample_inner_def sample_inner_world_def con_world.defs inner_world.defs sample_view_def prod_eq_iff)

text \<open>A context that only the list of the event loop still holds is dropped by the next poll after it
  was closed, and picoquic is told to forget it.\<close>

lemma closed_context_dropped:
  assumes "connections (cctx w) = [h]" "ctxs w h = Some (c, 1)" "cc_closed c"
  shows "\<exists>w'. c_context_poll E w = Some (Ok NotReady, w') \<and>
    quic w' = picoquic_set_callback E (quic w) (cc_cnx c) None"
  using assms by (simp add: c_context_poll_def con_ctx_poll_def arc_update_def arc_drop_def con_ctx_drop_quic)

text \<open>C36.  The pointer to a deleted connection is used once more.  Picoquic closes the only
  connection; the loop finds it disconnected and deletes it; and the next poll of the contexts
  drops the closed context, which clears the callback of the connection that is deleted already.
  This is so in every reachable state, whatever picoquic does between the callback and the
  deletion.\<close>

theorem deleted_connection_used:
  assumes "event_loop E mview dview cview rview uview sview nview tg pview"
    and "reach E mview tg cview rview sview pview us
      (w :: ('m, 'd, 'q, 'c, 'r, 'u, 's, 'n, 'b, 'p) inner_world)"
    and "connections (cctx w) = [h]" "ctxs w h = Some (c, 2)"
    and "callback_ok E tg cb q (tg (quic w)) w" "cbk_target cb = ToConnection h" "closing (cbk_event cb)"
    and "connection_iter_next E (qc_quic (ci_quic self)) t q1 = Some (cc_cnx c)"
    and "cnx_is_disconnected E q1 (cc_cnx c)" "picoquic_delete_cnx E q1 (cc_cnx c) = CReturn () q2"
  shows "\<exists>w1 w2 w3. dispatch E cb (w\<lparr>quic := q\<rparr>) = Some w1 \<and>
    send_packets_loop E t self (w1\<lparr>quic := q1\<rparr>) = Some (self, w2) \<and> quic w2 = q2 \<and>
    c_context_poll E w2 = Some (Ok NotReady, w3) \<and>
    quic w3 = picoquic_set_callback E q2 (cc_cnx c) None"
proof -
  have lib: "loop_library E mview dview cview rview uview sview nview tg pview"
    using assms(1) by (rule event_loop.axioms(1))
  note con = loop_library.axioms(1) [OF lib]
  obtain In where i: "loop_library.loop_inv mview cview rview sview tg pview us In w"
    using event_loop.reach_inv [OF assms(1,2)] by blast
  have q: "tg q \<subseteq> tg (quic w)" "h \<in> tg (quic w)" "h \<notin> tg q" using assms(5-7) by (auto simp: callback_ok_def)
  from loop_library.inv_evo [OF lib i connection_library.quic_evo [OF con loop_library.inv_typed [OF lib i] q(1)]]
  have ok: "store_ok mview tg cview rview sview us In [h] (w\<lparr>quic := q\<rparr>)"
    using assms(3) by (simp add: loop_library.loop_inv_def [OF lib])
  have "holders tg [h] (quic (w\<lparr>quic := q\<rparr>)) h + 1 \<le> refs (w\<lparr>quic := q\<rparr>) h"
    using q(3) assms(4) by (simp add: holders_def refs_def)
  from connection_library.closing_callback_ok [OF con ok assms(7) this] obtain w1 where
    w1: "connection_callback E (cbk_stream_id cb) (cbk_bytes cb) (cbk_length cb) (cbk_event cb) h (w\<lparr>quic := q\<rparr>) = Some w1"
      "con_world.more w1 = con_world.more (w\<lparr>quic := q\<rparr>)" .
  from connection_library.closing_callback_last [OF con ok assms(7) _ w1(1), of c] assms(4) obtain c' where
    c': "ctxs w1 h = Some (c', 1)" "cc_closed c'" "cc_cnx c' = cc_cnx c" by auto
  have "send_packets_loop E t self (w1\<lparr>quic := q1\<rparr>) = Some (self, w1\<lparr>quic := q2\<rparr>)"
    using assms(8-10) by (subst send_packets_loop.simps) (simp add: cnx_delete_def)
  moreover have "connections (cctx (w1\<lparr>quic := q2\<rparr>)) = [h]"
    using inner_more_eqD(1) [OF w1(2)] assms(3) by simp
  from closed_context_dropped [OF this _ c'(2), of E] c'(1,3) obtain w3 where
    "c_context_poll E (w1\<lparr>quic := q2\<rparr>) = Some (Ok NotReady, w3)"
    "quic w3 = picoquic_set_callback E q2 (cc_cnx c) None" by auto
  moreover have "dispatch E cb (w\<lparr>quic := q\<rparr>) = Some w1" using w1(1) assms(6) by (simp add: dispatch_def)
  ultimately show ?thesis by force
qed

theorem deleted_connection_used_witness:
  "\<exists>w1 w2 w3. dispatch loop_env (call_back (ToConnection 13) 0 callback_close)
      (accepted_world\<lparr>quic := forget 13 (quic accepted_world)\<rparr>) = Some w1 \<and>
    send_packets_loop loop_env 0 (sample_inner ([], [], False) None [])
      (w1\<lparr>quic := [CallClose 7, CallMarkActive 7 4]\<rparr>) = Some (sample_inner ([], [], False) None [], w2) \<and>
    quic w2 = [CallClose 7, CallMarkActive 7 4] \<and> c_context_poll loop_env w2 = Some (Ok NotReady, w3) \<and>
    quic w3 = [CallClose 7, CallMarkActive 7 4, CallSetCallback 7 None]"
proof -
  have "case ctxs accepted_world 13 of Some (c, n) \<Rightarrow> n = 2 \<and> cc_cnx c = 7 | None \<Rightarrow> False" by code_simp
  then obtain c where c: "ctxs accepted_world 13 = Some (c, 2)" "cc_cnx c = 7"
    by (auto split: option.splits)
  let ?q = "[CallClose 7, CallMarkActive 7 4]"
  have none: "targets ?q = []" by (simp add: targets_def List.map_filter_def)
  have "callback_ok loop_env loop_tg (call_back (ToConnection 13) 0 callback_close) (forget 13 (quic accepted_world))
      (loop_tg (quic accepted_world)) accepted_world"
    by (auto simp: callback_ok_def call_back_def closing_def accepted_eval(2))
  moreover have "connection_iter_next loop_env (qc_quic (ci_quic (sample_inner ([], [], False) None []))) 0 ?q = Some (cc_cnx c)"
    by (simp add: connection_iter_next_def loop_env_def c(2))
  moreover have "cnx_is_disconnected loop_env ?q (cc_cnx c)"
    by (simp add: cnx_is_disconnected_def loop_env_simps)
  moreover have "picoquic_delete_cnx loop_env ?q (cc_cnx c) = CReturn () ?q"
    by (simp add: loop_env_def end_connection_def none)
  moreover have "picoquic_set_callback loop_env ?q 7 None = [CallClose 7, CallMarkActive 7 4, CallSetCallback 7 None]"
    by (simp add: loop_env_simps)
  ultimately show ?thesis
    using deleted_connection_used [OF lenv.event_loop_axioms accepted_reach accepted_eval(1) c(1), of
        "call_back (ToConnection 13) 0 callback_close" "forget 13 (quic accepted_world)"
        "sample_inner ([], [], False) None []" 0 ?q ?q] c(2)
    by (simp add: call_back_def closing_def)
qed

end
