(* ===== verification/End_To_End.thy ===== *)
theory End_To_End
  imports Pipe_Props Receive_Props
begin

text \<open>
  Both ends of a stream composed: a sending system in any reachable state, the transport, which is
  picoquic and an assumption, and a receiving stream whose callbacks and polls interleave in any
  order with errors and the close of its connection.  What the receiving user reads is a prefix of
  what the sending user's sink accepted, and all of it once the end of the stream is seen.
\<close>

section \<open>The receiving side\<close>

datatype recv_action = Arrives ptr nat callback_event | Connection_Error error_fn | Connection_Close | Poll_Stream

fun run_receiver ::
  "('m, 'd, 'q, 'e) senv \<Rightarrow> recv_action list \<Rightarrow> stream \<Rightarrow> stream_ctx \<Rightarrow> ('m, 'd, 'q, 'w) sworld \<Rightarrow>
   ((bytes option, error) poll list \<times> stream \<times> stream_ctx \<times> ('m, 'd, 'q, 'w) sworld) option" where
  "run_receiver E [] st c w = Some ([], st, c, w)"
| "run_receiver E (Arrives ptr len event # acts) st c w =
     do { (c, w) \<leftarrow> stream_handle_callback E ptr len event c w; run_receiver E acts st c w }"
| "run_receiver E (Connection_Error err # acts) st c w =
     (case handle_connection_error E err c w of (c, w) \<Rightarrow> run_receiver E acts st c w)"
| "run_receiver E (Connection_Close # acts) st c w =
     (case handle_connection_close E c w of (c, w) \<Rightarrow> run_receiver E acts st c w)"
| "run_receiver E (Poll_Stream # acts) st c w =
     do { (r, st, w) \<leftarrow> stream_poll E st w;
          (rs, st, c, w) \<leftarrow> run_receiver E acts st c w;
          Some (r # rs, st, c, w) }"

fun arrivals :: "recv_action list \<Rightarrow> (ptr \<times> nat \<times> callback_event) list" where
  "arrivals [] = []"
| "arrivals (Arrives ptr len event # acts) = (ptr, len, event) # arrivals acts"
| "arrivals (_ # acts) = arrivals acts"

text \<open>The data that a series of polls returned.\<close>

fun polled_data :: "(bytes option, error) poll \<Rightarrow> bytes" where
  "polled_data (Ok (Ready (Some d))) = d"
| "polled_data _ = []"

definition polled_bytes :: "(bytes option, error) poll list \<Rightarrow> bytes" where
  "polled_bytes rs = concat (map polled_data rs)"

section \<open>The transport\<close>

text \<open>What the sources rely on: picoquic delivers the bytes of a stream in order and without gaps,
  and it announces the end of the stream with or behind the last byte, if the sender gave the fin
  bit.  Nothing is assumed on what it reports behind the end or behind a reset.\<close>

fun quic_transports ::
  "('m, 'd, 'q, 'e) senv \<Rightarrow> 'q \<Rightarrow> bytes \<Rightarrow> bool \<Rightarrow> bytes \<Rightarrow> (ptr \<times> nat \<times> callback_event) list \<Rightarrow> bool" where
  "quic_transports E q sent fin got [] \<longleftrightarrow> prefix got sent"
| "quic_transports E q sent fin got ((ptr, len, event) # evs) \<longleftrightarrow>
     (let got = got @ c_read E q ptr len in
      prefix got sent \<and>
      (event = callback_stream_fin \<longrightarrow> fin \<and> got = sent) \<and>
      (end_message event = [] \<longrightarrow> quic_transports E q sent fin got evs))"

section \<open>What is announced\<close>

text \<open>The messages for the user: what the callbacks announce, and the errors and the close of the
  connection in between.\<close>

fun announces :: "('m, 'd, 'q, 'e) senv \<Rightarrow> 'q \<Rightarrow> bool \<Rightarrow> recv_action list \<Rightarrow> message list" where
  "announces E q fin [] = []"
| "announces E q fin (Arrives ptr len event # acts) =
     (if c_read E q ptr len \<noteq> [] \<and> \<not> fin then [MRecvData (c_read E q ptr len)] else []) @
     end_message event @ announces E q (fin \<or> end_message event \<noteq> []) acts"
| "announces E q fin (Connection_Error err # acts) = MError (err ()) # announces E q fin acts"
| "announces E q fin (Connection_Close # acts) = MClose # announces E q fin acts"
| "announces E q fin (Poll_Stream # acts) = announces E q fin acts"

definition message_bytes :: "message list \<Rightarrow> bytes" where
  "message_bytes ms = concat (map (polled_data \<circ> message_result) ms)"

lemma message_bytes_simps [simp]:
  "message_bytes [] = []" "message_bytes (ms @ ms') = message_bytes ms @ message_bytes ms'"
  "message_bytes (m # ms) = polled_data (message_result m) @ message_bytes ms"
  by (simp_all add: message_bytes_def)

lemma end_message_cases:
  obtains "end_message event = []" | "end_message event = [MClose]" "event = callback_stream_fin"
  | "end_message event = [MReset]"
  by (cases "event = callback_stream_reset"; cases "event = callback_stream_fin") (simp_all add: end_message_def)

lemma announces_after_end: "message_bytes (announces E q True acts) = []"
proof (induction E q "True" acts rule: announces.induct)
  case (2 E q ptr len event acts)
  then show ?case by (cases event rule: end_message_cases) simp_all
qed simp_all

text \<open>The data are a prefix of what was sent, and all of it when the fin comes before a reset.\<close>

lemma announces_prefix:
  "quic_transports E q sent fin got (arrivals acts) \<Longrightarrow> prefix (got @ message_bytes (announces E q False acts)) sent"
proof (induction acts arbitrary: got)
  case (Cons act acts)
  show ?case
  proof (cases act)
    case (Arrives ptr len event)
    let ?got = "got @ c_read E q ptr len"
    from Cons.prems Arrives have t: "prefix ?got sent"
      "end_message event = [] \<longrightarrow> quic_transports E q sent fin ?got (arrivals acts)" by (simp_all add: Let_def)
    show ?thesis
      using Cons.IH [of ?got] t announces_after_end [of E q acts] Arrives
      by (cases event rule: end_message_cases; cases "c_read E q ptr len = []") simp_all
  qed (use Cons in simp_all)
qed simp

lemma announces_end:
  assumes "quic_transports E q sent fin got (arrivals acts)" "Connection_Close \<notin> set acts"
    and "announces E q False acts = ms @ MClose # rest" "MReset \<notin> set ms"
  shows "fin \<and> got @ message_bytes ms = sent"
  using assms
proof (induction acts arbitrary: got ms)
  case (Cons act acts)
  show ?case
  proof (cases act)
    case (Arrives ptr len event)
    let ?d = "c_read E q ptr len"
    let ?m = "if ?d = [] then [] else [MRecvData ?d]"
    have m: "message_bytes ?m = ?d" "MClose \<notin> set ?m" "MReset \<notin> set ?m" by simp_all
    from Cons.prems(3) Arrives have eq: "?m @ end_message event @ announces E q (end_message event \<noteq> []) acts = ms @ MClose # rest"
      by (cases "?d = []") simp_all
    define ms' where "ms' = drop (length ?m) ms"
    have ms: "ms = ?m @ ms'" "end_message event @ announces E q (end_message event \<noteq> []) acts = ms' @ MClose # rest"
      using eq by (cases "?d = []"; cases ms; simp add: ms'_def)+
    from Cons.prems(1) Arrives have t: "event = callback_stream_fin \<longrightarrow> fin \<and> got @ ?d = sent"
      "end_message event = [] \<longrightarrow> quic_transports E q sent fin (got @ ?d) (arrivals acts)"
      "prefix (got @ ?d) sent" by (simp_all add: Let_def)
    have nr: "MReset \<notin> set ms'" using Cons.prems(4) ms(1) by simp
    show ?thesis
    proof (cases event rule: end_message_cases)
      case 1
      with Cons.IH [of "got @ ?d" ms'] t(2) ms Cons.prems(2) nr m(1) show ?thesis by simp
    next
      case 2
      with announces_after_end [of E q acts] ms have "message_bytes ms' = []"
        by (cases ms') (auto dest: arg_cong [where f = message_bytes])
      with t(1) 2 ms(1) m(1) show ?thesis by simp
    next
      case 3
      with ms(2) nr show ?thesis by (cases ms') auto
    qed
  next
    case (Connection_Error err)
    with Cons show ?thesis by (cases ms) auto
  qed (use Cons in auto)
qed simp

lemma announces_errors:
  "MError e \<in> set (announces E q fin acts) \<Longrightarrow> \<exists>err. Connection_Error err \<in> set acts \<and> e = err ()"
  by (induction E q fin acts rule: announces.induct) (auto simp: end_message_def split: if_splits)

lemma announces_no_swap: "\<forall>m\<in>set (announces E q fin acts). \<not> is_swap m"
  by (induction E q fin acts rule: announces.induct) (auto simp: end_message_def split: if_splits)

text \<open>The bytes of the polls are those of the messages they took.\<close>

lemma polled_bytes_messages:
  assumes "filter (\<lambda>r. r \<noteq> Ok NotReady) rs = map message_result ms"
  shows "polled_bytes rs = message_bytes ms"
proof -
  have "polled_bytes rs = concat (map polled_data (filter (\<lambda>r. r \<noteq> Ok NotReady) rs))"
    unfolding polled_bytes_def by (induction rs) auto
  with assms show ?thesis by (simp add: message_bytes_def)
qed

section \<open>Callbacks and polls interleaved\<close>

context stream_channels
begin

lemma inbox_appended:
  assumes "mview (msgs w' (sc_recv_msg c)) = mview (msgs w (sc_recv_msg c))\<lparr>cv_buffer := inbox mview c w @ ms\<rparr>"
  shows "inbox mview c w' = inbox mview c w @ ms" "user_listens mview c w' \<longleftrightarrow> user_listens mview c w"
    "cv_senders (mview (msgs w' (sc_recv_msg c))) = cv_senders (mview (msgs w (sc_recv_msg c)))"
  using assms by (simp_all add: inbox_def user_listens_def)

text \<open>The end of the connection puts one message into the inbox of a listening user.\<close>

lemma connection_close_listening:
  assumes "user_listens mview c w"
  obtains w' where "handle_connection_close E c w = (c, w')" "quic w' = quic w"
    "mview (msgs w' (sc_recv_msg c)) = mview (msgs w (sc_recv_msg c))\<lparr>cv_buffer := inbox mview c w @ [MClose]\<rparr>"
proof -
  obtain ch where "recv_message E c MClose w = (c, w\<lparr>msgs := (msgs w)(sc_recv_msg c := ch)\<rparr>)"
    "mview ch = mview (msgs w (sc_recv_msg c))\<lparr>cv_buffer := inbox mview c w @ [MClose]\<rparr>"
    using recv_message_listening [OF assms] by blast
  then show ?thesis
    by (intro that [of "w\<lparr>msgs := (msgs w)(sc_recv_msg c := ch)\<rparr>"]) (simp_all add: handle_connection_close_def)
qed

lemma connection_error_listening:
  assumes "user_listens mview c w"
  obtains w' where "handle_connection_error E err c w = (c, w')" "quic w' = quic w"
    "mview (msgs w' (sc_recv_msg c)) = mview (msgs w (sc_recv_msg c))\<lparr>cv_buffer := inbox mview c w @ [MError (err ())]\<rparr>"
proof -
  obtain ch where "recv_message E c (MError (err ())) w = (c, w\<lparr>msgs := (msgs w)(sc_recv_msg c := ch)\<rparr>)"
    "mview ch = mview (msgs w (sc_recv_msg c))\<lparr>cv_buffer := inbox mview c w @ [MError (err ())]\<rparr>"
    using recv_message_listening [OF assms] by blast
  then show ?thesis
    by (intro that [of "snd (handle_connection_error E err c w)"])
       (simp_all add: handle_connection_error_def Let_def split_beta split: option.split)
qed

lemma stream_poll_listening:
  assumes "user_listens mview c w" "st_recv_msg st = sc_recv_msg c"
    and "cv_senders (mview (msgs w (sc_recv_msg c))) \<noteq> 0" "\<forall>m\<in>set (inbox mview c w). \<not> is_swap m"
  obtains w' where "quic w' = quic w"
    "mview (msgs w' (sc_recv_msg c)) = mview (msgs w (sc_recv_msg c))\<lparr>cv_buffer := tl (inbox mview c w)\<rparr>"
    "stream_poll E st w = Some (case inbox mview c w of [] \<Rightarrow> (Ok NotReady, st, w')
       | m # _ \<Rightarrow> (message_result m, if m = MReset then st\<lparr>st_stream_reset := True\<rparr> else st, w'))"
proof -
  obtain ch where p: "msg_poll E (st_recv_msg st) w =
      (fst (view_poll (mview (msgs w (st_recv_msg st)))), w\<lparr>msgs := (msgs w)(st_recv_msg st := ch)\<rparr>)"
    "mview ch = snd (view_poll (mview (msgs w (st_recv_msg st))))"
    by (rule msg_poll_cases)
  let ?w = "w\<lparr>msgs := (msgs w)(st_recv_msg st := ch)\<rparr>"
  show ?thesis
  proof (cases "inbox mview c w")
    case Nil
    then have "view_poll (mview (msgs w (sc_recv_msg c))) = (Ok NotReady, mview (msgs w (sc_recv_msg c)))"
      using assms(1,3) by (simp add: view_poll_def view_ended_def inbox_def user_listens_def)
    then show ?thesis
      by (intro that [of ?w]) (use p Nil assms(2) in \<open>simp_all add: stream_poll_def inbox_def\<close>)
  next
    case (Cons m ms)
    then have "view_poll (mview (msgs w (sc_recv_msg c))) =
        (Ok (Ready (Some m)), mview (msgs w (sc_recv_msg c))\<lparr>cv_buffer := ms\<rparr>)"
      by (simp add: view_poll_def inbox_def)
    then show ?thesis
      by (intro that [of ?w]; insert p Cons assms(2,4); cases m) (simp_all add: stream_poll_def)
  qed
qed

end

definition received where
  "received E mview q fin st c w acts out \<longleftrightarrow>
     (\<exists>rs st' c' w' ms. out = Some (rs, st', c', w') \<and>
       filter (\<lambda>r. r \<noteq> Ok NotReady) rs = map message_result ms \<and>
       inbox mview c w @ announces E q fin acts = ms @ inbox mview c' w' \<and>
       (is_reset st' \<longleftrightarrow> is_reset st \<or> MReset \<in> set ms))"

context stream_channels
begin

lemma run_receiver_inbox:
  assumes "user_listens mview c w" "st_recv_msg st = sc_recv_msg c"
    and "cv_senders (mview (msgs w (sc_recv_msg c))) \<noteq> 0" "\<forall>m\<in>set (inbox mview c w). \<not> is_swap m"
    and "\<forall>(ptr, len, event)\<in>set (arrivals acts). event \<noteq> callback_prepare_to_send"
  shows "received E mview (quic w) (sc_fin_received_or_recv_msg_dropped c) st c w acts (run_receiver E acts st c w)"
  using assms
proof (induction acts arbitrary: st c w)
  case Nil
  then show ?case by (simp add: received_def)
next
  case (Cons act acts)
  show ?case
  proof (cases act)
    case (Arrives ptr len event)
    with Cons.prems(5) have ev: "event \<noteq> callback_prepare_to_send" by simp
    obtain c1 w1 where 1: "stream_handle_callback E ptr len event c w = Some (c1, w1)"
      "inbox mview c1 w1 = inbox mview c w @
         (if c_read E (quic w) ptr len \<noteq> [] \<and> \<not> sc_fin_received_or_recv_msg_dropped c
          then [MRecvData (c_read E (quic w) ptr len)] else []) @ end_message event"
      "user_listens mview c1 w1" "sc_recv_msg c1 = sc_recv_msg c" "quic w1 = quic w"
      "sc_fin_received_or_recv_msg_dropped c1 \<longleftrightarrow> sc_fin_received_or_recv_msg_dropped c \<or> end_message event \<noteq> []"
      "cv_senders (mview (msgs w1 (sc_recv_msg c))) = cv_senders (mview (msgs w (sc_recv_msg c)))"
      by (rule callback_listening [OF Cons.prems(1) ev refl]) (rule that)
    have "\<forall>m\<in>set (inbox mview c1 w1). \<not> is_swap m"
      using Cons.prems(4) by (auto simp: 1(2) end_message_def split: if_splits)
    from Cons.IH [OF 1(3) _ _ this] Cons.prems 1 Arrives show ?thesis by (auto simp: received_def)
  next
    case (Connection_Error err)
    obtain w1 where 1: "handle_connection_error E err c w = (c, w1)" "quic w1 = quic w"
      "mview (msgs w1 (sc_recv_msg c)) = mview (msgs w (sc_recv_msg c))\<lparr>cv_buffer := inbox mview c w @ [MError (err ())]\<rparr>"
      by (rule connection_error_listening [OF Cons.prems(1)])
    note i = inbox_appended [OF 1(3)]
    from Cons.IH [of c w1 st] Cons.prems 1(1,2) i Connection_Error show ?thesis by (auto simp: received_def)
  next
    case Connection_Close
    obtain w1 where 1: "handle_connection_close E c w = (c, w1)" "quic w1 = quic w"
      "mview (msgs w1 (sc_recv_msg c)) = mview (msgs w (sc_recv_msg c))\<lparr>cv_buffer := inbox mview c w @ [MClose]\<rparr>"
      by (rule connection_close_listening [OF Cons.prems(1)])
    note i = inbox_appended [OF 1(3)]
    from Cons.IH [of c w1 st] Cons.prems 1(1,2) i Connection_Close show ?thesis by (auto simp: received_def)
  next
    case Poll_Stream
    obtain w1 where 1: "quic w1 = quic w"
      "mview (msgs w1 (sc_recv_msg c)) = mview (msgs w (sc_recv_msg c))\<lparr>cv_buffer := tl (inbox mview c w)\<rparr>"
      "stream_poll E st w = Some (case inbox mview c w of [] \<Rightarrow> (Ok NotReady, st, w1)
         | m # _ \<Rightarrow> (message_result m, if m = MReset then st\<lparr>st_stream_reset := True\<rparr> else st, w1))"
      by (rule stream_poll_listening [OF Cons.prems(1-4)])
    have i: "inbox mview c w1 = tl (inbox mview c w)" "user_listens mview c w1"
      "cv_senders (mview (msgs w1 (sc_recv_msg c))) \<noteq> 0"
      using 1(2) Cons.prems(1,3) by (simp_all add: inbox_def user_listens_def)
    note IH = Cons.IH [OF i(2) _ i(3)]
    show ?thesis
    proof (cases "inbox mview c w")
      case Nil
      with IH [of st] i(1) 1 Cons.prems(2,5) Poll_Stream show ?thesis by (auto simp: received_def)
    next
      case (Cons m ms)
      let ?st = "if m = MReset then st\<lparr>st_stream_reset := True\<rparr> else st"
      have "message_result m \<noteq> Ok NotReady" by (cases m) simp_all
      moreover from IH [of ?st] Cons i(1) 1(1) Cons.prems(2,4,5) Poll_Stream
      have "received E mview (quic w) (sc_fin_received_or_recv_msg_dropped c) ?st c w1 acts (run_receiver E acts ?st c w1)"
        by auto
      ultimately show ?thesis
        using Cons i(1) 1(1,3) Poll_Stream
        by (auto simp: received_def is_reset_def intro!: exI [of _ "m # _"] split: if_splits)
    qed
  qed
qed

end

section \<open>The property\<close>

text \<open>C14.  Two users and picoquic between them.  In any interleaving of arrivals, polls, errors and
  the close of the connection on the receiving side, and of everything on the sending side with a
  careful exchange of the send channel, a user who listens reads a prefix of the bytes that the sink
  of the other user accepted, and errors only if the connection has them; and when the end of the
  stream is read on a stream that was neither reset nor stopped, on a connection that was not closed,
  everything that was ever accepted has been read and the sender is gone.\<close>

theorem end_to_end:
  assumes sender: "stream_output E mview dview out fin_out" "stream_reach E mview out fin_out True s"
    and receiver: "stream_channels E' mview' dview'"
      "stream_new E' sid cnx local_addr is_client sz w0 = Some (st, c, w)"
      "\<not> sc_fin_received_or_recv_msg_dropped c"
    and transport: "quic_transports E' (quic w) (out (quic (sys_world s))) (fin_out (quic (sys_world s))) [] (arrivals acts)"
      "\<forall>(ptr, len, event)\<in>set (arrivals acts). event \<noteq> callback_prepare_to_send"
  shows "\<exists>rs st' c' w'. run_receiver E' acts st c w = Some (rs, st', c', w') \<and>
    prefix (polled_bytes rs) (sys_accepted s) \<and>
    (\<forall>e. Err e \<in> set rs \<longrightarrow> (\<exists>err. Connection_Error err \<in> set acts \<and> e = err ())) \<and>
    (Ok (Ready None) \<in> set rs \<and> \<not> is_reset st' \<and> \<not> sys_stopped s \<and> Connection_Close \<notin> set acts \<longrightarrow>
       polled_bytes rs = sys_accepted s \<and> sys_sender s = None)"
proof -
  note new = stream_channels.stream_new_world [OF receiver(1,2)]
  have c: "user_listens mview' c w" "st_recv_msg st = sc_recv_msg c"
    "cv_senders (mview' (msgs w (sc_recv_msg c))) \<noteq> 0" "inbox mview' c w = []"
    using new(1,3,5) by (simp_all add: user_listens_def inbox_def view_new_def)
  have "\<not> is_reset st" using receiver(2)
    by (auto simp: stream_new_def is_reset_def Let_def split_beta split: Option.bind_splits)
  with stream_channels.run_receiver_inbox [OF receiver(1) c(1-3) _ transport(2)] c(4) receiver(3)
  obtain rs st' c' w' ms where run: "run_receiver E' acts st c w = Some (rs, st', c', w')"
    "filter (\<lambda>r. r \<noteq> Ok NotReady) rs = map message_result ms"
    "announces E' (quic w) False acts = ms @ inbox mview' c' w'"
    "is_reset st' \<longleftrightarrow> MReset \<in> set ms" by (auto simp: received_def)
  note bytes = polled_bytes_messages [OF run(2)]
  have pre: "prefix (polled_bytes rs) (out (quic (sys_world s)))"
    using announces_prefix [OF transport(1)] by (auto simp: run(3) bytes prefix_def)
  have results: "r \<in> set rs \<and> r \<noteq> Ok NotReady \<longleftrightarrow> r \<in> message_result ` set ms" for r
    using arg_cong [OF run(2), of set] by auto
  have sent: "out_inv (out (quic (sys_world s))) (fin_out (quic (sys_world s))) (sys_stopped s) (sys_sender s) (sys_accepted s)"
    by (rule stream_output.reach_out_inv [OF sender])
  have "prefix (polled_bytes rs) (sys_accepted s)"
    using pre sent unfolding out_inv_def by (meson prefix_order.trans)
  moreover have "\<exists>err. Connection_Error err \<in> set acts \<and> e = err ()" if "Err e \<in> set rs" for e
  proof -
    from that results [of "Err e"] obtain m where "m \<in> set ms" "message_result m = Err e" by force
    moreover from this(2) have "m = MError e" by (cases m) simp_all
    ultimately have "MError e \<in> set (announces E' (quic w) False acts)" by (simp add: run(3))
    then show ?thesis by (rule announces_errors)
  qed
  moreover have "polled_bytes rs = sys_accepted s \<and> sys_sender s = None"
    if "Ok (Ready None) \<in> set rs" "\<not> is_reset st'" "\<not> sys_stopped s" "Connection_Close \<notin> set acts"
  proof -
    have nr: "MReset \<notin> set ms" using that(2) run(4) by simp
    from that(1) results [of "Ok (Ready None)"] obtain m where m: "m \<in> set ms" "message_result m = Ok (Ready None)" by force
    from m(2) have "\<not> is_swap m \<Longrightarrow> m = MClose \<or> m = MReset" by (cases m) simp_all
    moreover have "\<not> is_swap m" using m(1) announces_no_swap [of E' "quic w" False acts] by (auto simp: run(3))
    ultimately have "MClose \<in> set ms" using m(1) nr by auto
    then obtain ms1 ms2 where ms: "ms = ms1 @ MClose # ms2" "MReset \<notin> set ms1"
      using nr by (auto dest!: split_list)
    with announces_end [OF transport(1) that(4), of ms1 "ms2 @ inbox mview' c' w'"] run(3)
    have "fin_out (quic (sys_world s))" "message_bytes ms1 = out (quic (sys_world s))" by simp_all
    with pre sent that(3) ms(1) show ?thesis by (auto simp: out_inv_def bytes)
  qed
  ultimately show ?thesis using run(1) by blast
qed

text \<open>The stream of the example, which sent three bytes and ended, and a receiver to whom they come
  one by one, the end with the last; its user polls in between.\<close>

definition sample_acts :: "recv_action list" where
  "sample_acts =
     [Poll_Stream, Arrives 1 1 callback_stream_data, Poll_Stream, Arrives 2 1 callback_stream_data,
      Connection_Error (\<lambda>_. MkError Unknown), Arrives 3 1 callback_stream_fin, Poll_Stream, Poll_Stream, Poll_Stream,
      Poll_Stream]"

theorem end_to_end_witness:
  "\<exists>rs st' c' w'.
     run_receiver record_env sample_acts (fst sample_new) (fst (snd sample_new)) (snd (snd sample_new)) = Some (rs, st', c', w') \<and>
     Ok (Ready None) \<in> set rs \<and> \<not> is_reset st' \<and> polled_bytes rs = [1, 2, 3]"
proof -
  have "quic_out (quic (snd sample_finished)) = [1, 2, 3]" "quic_fin (quic (snd sample_finished))"
    "\<not> sc_fin_received_or_recv_msg_dropped (fst (snd sample_new))"
    by code_simp+
  moreover have "quic_transports record_env (quic (snd (snd sample_new))) [1, 2, 3] True [] (arrivals sample_acts)"
    by code_simp
  moreover have "\<forall>(ptr, len, event)\<in>set (arrivals sample_acts). event \<noteq> callback_prepare_to_send"
    "Connection_Close \<notin> set sample_acts"
    by (simp_all add: sample_acts_def)
  ultimately obtain rs st' c' w' where 1:
    "run_receiver record_env sample_acts (fst sample_new) (fst (snd sample_new)) (snd (snd sample_new)) = Some (rs, st', c', w')"
    "Ok (Ready None) \<in> set rs \<and> \<not> is_reset st' \<longrightarrow> polled_bytes rs = [1, 2, 3]"
    using end_to_end [OF recorded.stream_output_axioms sample_end_reach rec.stream_channels_axioms sample_runs(1), of sample_acts]
    by (auto simp: sample_end_def)
  have "case run_receiver record_env sample_acts (fst sample_new) (fst (snd sample_new)) (snd (snd sample_new)) of
      Some (rs, st', c', w') \<Rightarrow> Ok (Ready None) \<in> set rs \<and> \<not> is_reset st' | None \<Rightarrow> False"
    by code_simp
  with 1 show ?thesis by auto
qed

end
