(* ===== verification/Verify_Memory.thy ===== *)
theory Verify_Memory
  imports Ffi_Props Quic_Lifetime "HOL-Library.AList"
begin

text \<open>
  The memory that \<^verbatim>\<open>src/ffi/verify_certificate.rs\<close> shares with C: the box of the
  user's handler, which picoquic keeps until it calls \<^verbatim>\<open>free_ctx\<close>, and a box with the
  public key for every accepted certificate, which \<^verbatim>\<open>verify_sign_callback\<close> takes back.
  The raw entry points are modelled on a heap, where using or freeing a box that is not
  allocated is the value \<open>None\<close>; around them the calls that C makes form a step relation.
\<close>

section \<open>The heap\<close>

text \<open>The allocated boxes by their addresses.  The allocator is a parameter: it is told the
  addresses in use, and it may use freed ones again.\<close>

record ('h, 'k) boxes =
  handler_boxes :: "(ptr \<times> 'h) list"
  key_boxes :: "(ptr \<times> 'k) list"

definition addresses :: "('h, 'k) boxes \<Rightarrow> ptr list" where
  "addresses B = map fst (handler_boxes B) @ map fst (key_boxes B)"

locale box_allocator =
  fixes fresh :: "ptr list \<Rightarrow> ptr"
  assumes fresh_new: "fresh ps \<notin> set ps"
    and fresh_not_null: "fresh ps \<noteq> 0"

definition next_address :: "ptr list \<Rightarrow> ptr" where
  "next_address ps = Suc (fold max ps 0)"

interpretation next_address: box_allocator next_address
proof unfold_locales
  fix ps show "next_address ps \<notin> set ps"
    using fold_max_bound [of "Suc (fold max ps 0)" ps 0] by (auto simp: next_address_def)
qed (simp add: next_address_def)

text \<open>\<^verbatim>\<open>Box::into_raw(Box::new(..))\<close> of a handler and of a key; \<^verbatim>\<open>get_handler\<close>
  and \<^verbatim>\<open>get_pkey\<close> are \<^verbatim>\<open>Box::from_raw\<close>: the box at this address is owned again,
  and it is freed at the end of the scope unless it is forgotten.\<close>

definition handler_into_raw ::
  "(ptr list \<Rightarrow> ptr) \<Rightarrow> 'h \<Rightarrow> ('h, 'k) boxes \<Rightarrow> ptr \<times> ('h, 'k) boxes" where
  "handler_into_raw fresh handler B =
     (let p = fresh (addresses B) in (p, B\<lparr>handler_boxes := (p, handler) # handler_boxes B\<rparr>))"

definition pkey_into_raw ::
  "(ptr list \<Rightarrow> ptr) \<Rightarrow> 'k \<Rightarrow> ('h, 'k) boxes \<Rightarrow> ptr \<times> ('h, 'k) boxes" where
  "pkey_into_raw fresh pkey B =
     (let p = fresh (addresses B) in (p, B\<lparr>key_boxes := (p, pkey) # key_boxes B\<rparr>))"

definition get_handler :: "ptr \<Rightarrow> ('h, 'k) boxes \<Rightarrow> 'h option" where
  "get_handler p B = map_of (handler_boxes B) p"

definition get_pkey :: "ptr \<Rightarrow> ('h, 'k) boxes \<Rightarrow> 'k option" where
  "get_pkey p B = map_of (key_boxes B) p"

definition handler_drop :: "ptr \<Rightarrow> ('h, 'k) boxes \<Rightarrow> ('h, 'k) boxes" where
  "handler_drop p B = B\<lparr>handler_boxes := AList.delete p (handler_boxes B)\<rparr>"

definition pkey_drop :: "ptr \<Rightarrow> ('h, 'k) boxes \<Rightarrow> ('h, 'k) boxes" where
  "pkey_drop p B = B\<lparr>key_boxes := AList.delete p (key_boxes B)\<rparr>"

section \<open>The entry points\<close>

text \<open>\<^verbatim>\<open>setup_callback\<close> gives the box away before it knows the result; a handler that
  picoquic refused is not taken back.\<close>

definition setup_callback_raw ::
  "(ptr list \<Rightarrow> ptr) \<Rightarrow> (ptr \<Rightarrow> int) \<Rightarrow> 'h \<Rightarrow> ('h, 'k) boxes \<Rightarrow>
   ptr \<times> (unit, error) result \<times> ('h, 'k) boxes" where
  "setup_callback_raw fresh set_callback handler B =
     (case handler_into_raw fresh handler B of (ctx, B) \<Rightarrow>
        (ctx, if set_callback ctx \<noteq> 0 then Err (error_from_kind OutOfMemoryError) else Ok (), B))"

definition free_ctx :: "ptr \<Rightarrow> ('h, 'k) boxes \<Rightarrow> ('h, 'k) boxes option" where
  "free_ctx ctx B = do { _ \<leftarrow> get_handler ctx B; Some (handler_drop ctx B) }"

text \<open>The key is taken back before anything else, so it is freed on every path.\<close>

definition verify_sign_callback_raw ::
  "ptls \<Rightarrow> ('x, 'k, 'v) openssl \<Rightarrow> ptr \<Rightarrow> bytes \<Rightarrow> bytes \<Rightarrow> ('h, 'k) boxes \<Rightarrow>
   (int \<times> ('h, 'k) boxes) option" where
  "verify_sign_callback_raw T ossl ctx data sign B = do {
     pkey \<leftarrow> get_pkey ctx B;
     Some (verify_sign_callback T ossl pkey data sign, pkey_drop ctx B)
   }"

text \<open>The handler is borrowed: it may change itself, and then it is forgotten, which leaves the box
  where it is.  A key is boxed when the certificate is accepted, and its address is written to
  \<^verbatim>\<open>verify_sign_ctx\<close>.\<close>

definition verify_certificate_callback_raw ::
  "(ptr list \<Rightarrow> ptr) \<Rightarrow> ptls \<Rightarrow> ('x, 'k, 'v) openssl \<Rightarrow> ('h, 'x) verify_handler \<Rightarrow> ptr \<Rightarrow>
   u64 \<Rightarrow> connection_type \<Rightarrow> bytes list \<Rightarrow> ('h, 'k) boxes \<Rightarrow>
   (int \<times> ptr option \<times> ('h, 'k) boxes) option" where
  "verify_certificate_callback_raw fresh T ossl verify ctx local_id con_type certs B = do {
     handler \<leftarrow> get_handler ctx B;
     (code, handler, pkey) \<leftarrow> verify_certificate_callback T ossl verify handler local_id con_type certs;
     let B = B\<lparr>handler_boxes := AList.update ctx handler (handler_boxes B)\<rparr>;
     (case pkey of
        None \<Rightarrow> Some (code, None, B)
      | Some pkey \<Rightarrow>
          (case pkey_into_raw fresh pkey B of (verify_sign_ctx, B) \<Rightarrow>
             Some (code, Some verify_sign_ctx, B)))
   }"

section \<open>The calls of C\<close>

text \<open>What picoquic and picotls remember: the installed handler, the handlers whose installation
  failed, and the context of every \<^verbatim>\<open>verify_sign\<close> that is still to be called.  They
  call it once, also (with empty data) when the handshake is given up, and
  \<^verbatim>\<open>free_ctx\<close> once, when the quic context is freed.\<close>

record ('h, 'k) tls_world =
  tls_boxes :: "('h, 'k) boxes"
  tls_ctx :: "ptr option"
  tls_refused :: "ptr list"
  tls_sign_ctxs :: "ptr list"

datatype 'h tls_event =
    Set_Callback 'h int
  | Verify_Certificate u64 connection_type "bytes list"
  | Verify_Sign ptr bytes bytes
  | Free_Ctx

fun tls_may :: "('h, 'k) tls_world \<Rightarrow> 'h tls_event \<Rightarrow> bool" where
  "tls_may W (Set_Callback handler res) = (tls_ctx W = None)"
| "tls_may W (Verify_Certificate local_id con_type certs) = (tls_ctx W \<noteq> None)"
| "tls_may W (Verify_Sign ctx data sign) = (ctx \<in> set (tls_sign_ctxs W))"
| "tls_may W Free_Ctx = (tls_ctx W \<noteq> None)"

fun tls_call ::
  "(ptr list \<Rightarrow> ptr) \<Rightarrow> ptls \<Rightarrow> ('x, 'k, 'v) openssl \<Rightarrow> ('h, 'x) verify_handler \<Rightarrow>
   'h tls_event \<Rightarrow> ('h, 'k) tls_world \<Rightarrow> ('h, 'k) tls_world option" where
  "tls_call fresh T ossl verify (Set_Callback handler res) W =
     (case setup_callback_raw fresh (\<lambda>_. res) handler (tls_boxes W) of (ctx, r, B) \<Rightarrow>
        (if is_err r
         then Some (W\<lparr>tls_boxes := B, tls_refused := ctx # tls_refused W\<rparr>)
         else Some (W\<lparr>tls_boxes := B, tls_ctx := Some ctx\<rparr>)))"
| "tls_call fresh T ossl verify (Verify_Certificate local_id con_type certs) W = do {
     ctx \<leftarrow> tls_ctx W;
     (code, sign_ctx, B) \<leftarrow> verify_certificate_callback_raw fresh T ossl verify ctx local_id con_type certs (tls_boxes W);
     Some (W\<lparr>tls_boxes := B,
       tls_sign_ctxs := (case sign_ctx of None \<Rightarrow> [] | Some p \<Rightarrow> [p]) @ tls_sign_ctxs W\<rparr>)
   }"
| "tls_call fresh T ossl verify (Verify_Sign ctx data sign) W = do {
     (code, B) \<leftarrow> verify_sign_callback_raw T ossl ctx data sign (tls_boxes W);
     Some (W\<lparr>tls_boxes := B, tls_sign_ctxs := remove1 ctx (tls_sign_ctxs W)\<rparr>)
   }"
| "tls_call fresh T ossl verify Free_Ctx W = do {
     ctx \<leftarrow> tls_ctx W;
     B \<leftarrow> free_ctx ctx (tls_boxes W);
     Some (W\<lparr>tls_boxes := B, tls_ctx := None\<rparr>)
   }"

definition tls_init :: "('h, 'k) tls_world" where
  "tls_init = \<lparr>tls_boxes = \<lparr>handler_boxes = [], key_boxes = []\<rparr>, tls_ctx = None,
     tls_refused = [], tls_sign_ctxs = []\<rparr>"

inductive tls_reach ::
  "(ptr list \<Rightarrow> ptr) \<Rightarrow> ptls \<Rightarrow> ('x, 'k, 'v) openssl \<Rightarrow> ('h, 'x) verify_handler \<Rightarrow>
   ('h, 'k) tls_world \<Rightarrow> bool"
  for fresh T ossl verify where
  tls_reach_init: "tls_reach fresh T ossl verify tls_init"
| tls_reach_call: "\<lbrakk>tls_reach fresh T ossl verify W; tls_may W c;
     tls_call fresh T ossl verify c W = Some W'\<rbrakk> \<Longrightarrow> tls_reach fresh T ossl verify W'"

section \<open>Ownership\<close>

text \<open>Every box has one owner in C, and C holds no other address.\<close>

definition tls_owned :: "('h, 'k) tls_world \<Rightarrow> bool" where
  "tls_owned W \<longleftrightarrow>
     distinct (addresses (tls_boxes W)) \<and> 0 \<notin> set (addresses (tls_boxes W)) \<and>
     fst ` set (handler_boxes (tls_boxes W)) = set_option (tls_ctx W) \<union> set (tls_refused W) \<and>
     set_option (tls_ctx W) \<inter> set (tls_refused W) = {} \<and>
     fst ` set (key_boxes (tls_boxes W)) = set (tls_sign_ctxs W) \<and>
     distinct (tls_sign_ctxs W)"

lemmas raw_defs = setup_callback_raw_def free_ctx_def verify_sign_callback_raw_def
  verify_certificate_callback_raw_def get_handler_def get_pkey_def handler_drop_def pkey_drop_def

lemma map_of_live: "p \<in> fst ` set xs \<longleftrightarrow> (\<exists>v. map_of xs p = Some v)"
  by (metis map_of_eq_None_iff not_None_eq)

lemma addresses_update:
  "p \<in> fst ` set (handler_boxes B) \<Longrightarrow>
   addresses (B\<lparr>handler_boxes := AList.update p h (handler_boxes B)\<rparr>) = addresses B"
  by (simp add: addresses_def update_keys)

lemma tls_ctx_live:
  assumes "tls_owned W" "tls_ctx W \<noteq> None"
  obtains ctx h where "tls_ctx W = Some ctx" "map_of (handler_boxes (tls_boxes W)) ctx = Some h"
proof -
  obtain ctx where ctx: "tls_ctx W = Some ctx" using assms(2) by blast
  with assms(1) have "ctx \<in> fst ` set (handler_boxes (tls_boxes W))" by (simp add: tls_owned_def)
  with ctx that show ?thesis unfolding map_of_live by blast
qed

text \<open>A call that C may make never uses a box that is gone.\<close>

lemma tls_call_returns:
  assumes owned: "tls_owned W" and may: "tls_may W c"
  shows "\<exists>W'. tls_call fresh T ossl verify c W = Some W'"
proof (cases c)
  case (Set_Callback handler res)
  then show ?thesis by (simp add: raw_defs split_beta)
next
  case (Verify_Certificate local_id con_type certs)
  with owned may obtain ctx h where h: "tls_ctx W = Some ctx" "map_of (handler_boxes (tls_boxes W)) ctx = Some h"
    by (rule_tac tls_ctx_live) auto
  obtain code h' key where
    "verify_certificate_callback T ossl verify h local_id con_type certs = Some (code, h', key)"
    using verify_certificate_total [of T ossl verify h local_id con_type certs] by blast
  with h Verify_Certificate show ?thesis
    by (cases key) (simp_all add: raw_defs Let_def split_beta)
next
  case (Verify_Sign ctx data sign)
  with owned may obtain k where "map_of (key_boxes (tls_boxes W)) ctx = Some k"
    unfolding tls_owned_def by (metis map_of_live tls_may.simps(3))
  with Verify_Sign show ?thesis by (simp add: raw_defs)
next
  case Free_Ctx
  with owned may obtain ctx h where "tls_ctx W = Some ctx" "map_of (handler_boxes (tls_boxes W)) ctx = Some h"
    by (rule_tac tls_ctx_live) auto
  with Free_Ctx show ?thesis by (simp add: raw_defs)
qed

context box_allocator begin

lemma owned_handler_into_raw:
  assumes "handler_into_raw fresh h (B :: ('h, 'k) boxes) = (p, B')"
  shows "p \<notin> set (addresses B)" "p \<noteq> 0"
    "handler_boxes B' = (p, h) # handler_boxes B" "key_boxes B' = key_boxes B"
  using assms fresh_new [of "addresses B"] fresh_not_null [of "addresses B"]
  by (auto simp: handler_into_raw_def Let_def)

lemma owned_pkey_into_raw:
  assumes "pkey_into_raw fresh k (B :: ('h, 'k) boxes) = (p, B')"
  shows "p \<notin> set (addresses B)" "p \<noteq> 0"
    "key_boxes B' = (p, k) # key_boxes B" "handler_boxes B' = handler_boxes B"
  using assms fresh_new [of "addresses B"] fresh_not_null [of "addresses B"]
  by (auto simp: pkey_into_raw_def Let_def)

lemma owned_set_callback:
  assumes "tls_owned W" "tls_may W (Set_Callback handler res)"
    and "tls_call fresh T ossl verify (Set_Callback handler res) W = Some W'"
  shows "tls_owned W'"
proof -
  obtain p B where B: "handler_into_raw fresh handler (tls_boxes W) = (p, B)" by fastforce
  from assms(3) B have W': "W' = (if res \<noteq> 0 then W\<lparr>tls_boxes := B, tls_refused := p # tls_refused W\<rparr>
      else W\<lparr>tls_boxes := B, tls_ctx := Some p\<rparr>)"
    by (simp add: raw_defs split: if_splits)
  from assms(1,2) owned_handler_into_raw [OF B] show ?thesis
    unfolding W' by (auto simp: tls_owned_def addresses_def)
qed

lemma owned_verify_certificate:
  assumes owned: "tls_owned W"
    and call: "tls_call fresh T ossl verify (Verify_Certificate local_id con_type certs) W = Some W'"
  shows "tls_owned W'"
proof -
  define U where "U ctx h = (tls_boxes W)\<lparr>handler_boxes := AList.update ctx h (handler_boxes (tls_boxes W))\<rparr>" for ctx h
  from call obtain ctx h h' where ctx: "tls_ctx W = Some ctx" "map_of (handler_boxes (tls_boxes W)) ctx = Some h"
    and W': "W' = W\<lparr>tls_boxes := U ctx h'\<rparr> \<or>
      (\<exists>k p B. pkey_into_raw fresh k (U ctx h') = (p, B) \<and>
         W' = W\<lparr>tls_boxes := B, tls_sign_ctxs := p # tls_sign_ctxs W\<rparr>)"
    by (auto simp: raw_defs U_def Let_def split: option.splits prod.splits Option.bind_splits) blast+
  have live: "ctx \<in> fst ` set (handler_boxes (tls_boxes W))" using ctx(2) by (metis map_of_live)
  then have keys: "fst ` set (handler_boxes (U ctx h')) = fst ` set (handler_boxes (tls_boxes W))"
    "addresses (U ctx h') = addresses (tls_boxes W)" "key_boxes (U ctx h') = key_boxes (tls_boxes W)"
    by (auto simp: U_def dom_update addresses_update)
  from W' show ?thesis
  proof (elim disjE exE conjE)
    assume "W' = W\<lparr>tls_boxes := U ctx h'\<rparr>"
    with owned keys show ?thesis by (simp add: tls_owned_def)
  next
    fix k p B
    assume B: "pkey_into_raw fresh k (U ctx h') = (p, B)"
      and W': "W' = W\<lparr>tls_boxes := B, tls_sign_ctxs := p # tls_sign_ctxs W\<rparr>"
    note new = owned_pkey_into_raw [OF B, unfolded keys]
    have "addresses B = map fst (handler_boxes (U ctx h')) @ p # map fst (key_boxes (tls_boxes W))"
      using new keys(3) by (simp add: addresses_def)
    moreover have "addresses (tls_boxes W) = map fst (handler_boxes (U ctx h')) @ map fst (key_boxes (tls_boxes W))"
      using keys by (simp add: addresses_def)
    ultimately show ?thesis
      using owned new(1,2) keys(1) unfolding W'
      by (auto simp: tls_owned_def new(3,4) addresses_def)
  qed
qed

lemma owned_verify_sign:
  assumes "tls_owned W" "tls_call fresh T ossl verify (Verify_Sign ctx data sign) W = Some W'"
  shows "tls_owned W'"
  using assms
  by (auto simp: tls_owned_def raw_defs addresses_def delete_keys distinct_removeAll image_set
      simp del: set_map split: Option.bind_splits)

lemma owned_free_ctx:
  assumes "tls_owned W" "tls_call fresh T ossl verify Free_Ctx W = Some W'"
  shows "tls_owned W'"
  using assms
  by (auto simp: tls_owned_def raw_defs addresses_def delete_keys distinct_removeAll image_set
      simp del: set_map split: Option.bind_splits)

lemma reach_owned: "tls_reach fresh T ossl verify W \<Longrightarrow> tls_owned W"
proof (induction rule: tls_reach.induct)
  case tls_reach_init
  show ?case by (simp add: tls_owned_def tls_init_def addresses_def)
next
  case (tls_reach_call W c W')
  then show ?case
    by (cases c) (blast intro: owned_set_callback owned_verify_certificate owned_verify_sign owned_free_ctx)+
qed

end

text \<open>C18.  Whatever certificates and signatures come in and whatever the handler answers: C never
  makes \<^verbatim>\<open>verify_certificate.rs\<close> use or free a box that is not allocated, and the
  allocated boxes are exactly the handler in use, the handlers that were refused, and one key for
  every signature that is still to be checked.  So nothing is left when C has given back what it
  holds, except the handlers whose installation failed, which nobody frees.\<close>

theorem verify_boxes_owned:
  assumes "box_allocator fresh" "tls_reach fresh T ossl verify W"
  shows "(tls_may W c \<longrightarrow> (\<exists>W'. tls_call fresh T ossl verify c W = Some W')) \<and>
    distinct (addresses (tls_boxes W)) \<and>
    fst ` set (handler_boxes (tls_boxes W)) = set_option (tls_ctx W) \<union> set (tls_refused W) \<and>
    fst ` set (key_boxes (tls_boxes W)) = set (tls_sign_ctxs W) \<and>
    (tls_ctx W = None \<and> tls_sign_ctxs W = [] \<longrightarrow>
       key_boxes (tls_boxes W) = [] \<and> fst ` set (handler_boxes (tls_boxes W)) = set (tls_refused W))"
proof -
  have owned: "tls_owned W" by (rule box_allocator.reach_owned [OF assms])
  with tls_call_returns [OF owned] show ?thesis by (auto simp: tls_owned_def)
qed

text \<open>A handler is installed and accepts a certificate; the signature is then checked with the key
  that was boxed, and the handler is freed.  A second \<^verbatim>\<open>verify_sign\<close> with the same
  context would be a use after free.\<close>

definition tls_accept :: "nat \<Rightarrow> u64 \<Rightarrow> connection_type \<Rightarrow> bytes \<Rightarrow> bytes list \<Rightarrow> (bool, error_stack) result \<times> nat" where
  "tls_accept h local_id con_type cert chain = (Ok True, Suc h)"

definition tls_sample_world :: "(nat, bytes) tls_world" where
  "tls_sample_world =
     \<lparr>tls_boxes = \<lparr>handler_boxes = [(1, 1)], key_boxes = [(2, [7])]\<rparr>, tls_ctx = Some 1,
      tls_refused = [], tls_sign_ctxs = [2]\<rparr>"

lemmas tls_run = tls_sample_world_def tls_accept_def tls_init_def raw_defs Let_def
  handler_into_raw_def pkey_into_raw_def addresses_def next_address_def
  verify_certificate_callback_def verify_certificate_callback_impl_def extract_certificates_def
  extract_certificate_def sample_openssl_def sample_ptls_def

lemma tls_sample_reach:
  "tls_reach next_address sample_ptls sample_openssl tls_accept tls_sample_world"
proof -
  let ?reach = "tls_reach next_address sample_ptls sample_openssl tls_accept"
  let ?W = "\<lparr>tls_boxes = \<lparr>handler_boxes = [(1, 0)], key_boxes = []\<rparr>, tls_ctx = Some 1,
      tls_refused = [], tls_sign_ctxs = []\<rparr>"
  have "?reach ?W"
    by (rule tls_reach_call [OF tls_reach_init, of "Set_Callback 0 0"]) (simp_all add: tls_run)
  then show ?thesis
    by (rule tls_reach_call [of _ _ _ _ _ "Verify_Certificate 5 Incoming [[7]]"]) (simp_all add: tls_run)
qed

theorem verify_boxes_owned_witness:
  "let call = tls_call next_address sample_ptls sample_openssl tls_accept (Verify_Sign 2 [3] [7, 3]) in
   (\<exists>W'. call tls_sample_world = Some W') \<and> Option.bind (call tls_sample_world) call = None"
proof -
  have "tls_may tls_sample_world (Verify_Sign 2 [3] [7, 3])" by (simp add: tls_sample_world_def)
  with verify_boxes_owned [OF next_address.box_allocator_axioms tls_sample_reach, of "Verify_Sign 2 [3] [7, 3]"]
  have "\<exists>W'. tls_call next_address sample_ptls sample_openssl tls_accept (Verify_Sign 2 [3] [7, 3]) tls_sample_world = Some W'"
    by blast
  then show ?thesis by (simp add: tls_run)
qed

end
