(* ===== verification/Unit_Tests.thy ===== *)
theory Unit_Tests
  imports Connections Quic_Ctx "HOL-Library.Sublist"
begin

text \<open>
  The unit tests of the sources (the \<^verbatim>\<open>tests\<close> modules of \<^verbatim>\<open>src/config.rs\<close>,
  \<^verbatim>\<open>src/ffi/connection.rs\<close> and \<^verbatim>\<open>src/ffi/quic_ctx.rs\<close>), run on the model: a test
  is the conjunction of its assertions, and each of them passes.  They validate the translation
  on the inputs that the authors of the program chose.
\<close>

section \<open>Stream ids\<close>

definition client_bidirectional_stream_id_generation :: bool where
  "client_bidirectional_stream_id_generation \<longleftrightarrow>
     4 = generate_stream_id 0 True Bidirectional \<and> 8 = generate_stream_id 1 True Bidirectional \<and>
     12 = generate_stream_id 2 True Bidirectional"

definition client_unidirectional_stream_id_generation :: bool where
  "client_unidirectional_stream_id_generation \<longleftrightarrow>
     6 = generate_stream_id 0 True Unidirectional \<and> 10 = generate_stream_id 1 True Unidirectional \<and>
     14 = generate_stream_id 2 True Unidirectional"

definition server_bidirectional_stream_id_generation :: bool where
  "server_bidirectional_stream_id_generation \<longleftrightarrow>
     5 = generate_stream_id 0 False Bidirectional \<and> 9 = generate_stream_id 1 False Bidirectional \<and>
     13 = generate_stream_id 2 False Bidirectional"

definition server_unidirectional_stream_id_generation :: bool where
  "server_unidirectional_stream_id_generation \<longleftrightarrow>
     7 = generate_stream_id 0 False Unidirectional \<and> 11 = generate_stream_id 1 False Unidirectional \<and>
     15 = generate_stream_id 2 False Unidirectional"

lemma stream_id_tests_pass:
  "client_bidirectional_stream_id_generation" "client_unidirectional_stream_id_generation"
  "server_bidirectional_stream_id_generation" "server_unidirectional_stream_id_generation"
  by code_simp+

section \<open>Connections\<close>

text \<open>The test expects a panic, which is the value \<open>None\<close>.\<close>

definition quic_ctx_dummy :: quic_ctx where
  "quic_ctx_dummy = \<lparr>qc_quic = 0, qc_max_delay = \<lparr>dur_secs = 10, dur_nanos = 0\<rparr>\<rparr>"

definition do_not_accept_unspecified_ip_address ::
  "('m, 'd, 'q, 'c, 'r, 'u, 's, 'n, 'e) cenv \<Rightarrow> 'q \<Rightarrow> bool" where
  "do_not_accept_unspecified_ip_address E q \<longleftrightarrow>
     Option.is_none (cnx_new E (qc_quic quic_ctx_dummy) (SocketAddrV4 0 12345) 0
       (map (of_nat \<circ> of_char) ''server'') q)"

lemma connection_test_passes: "do_not_accept_unspecified_ip_address E q"
  by (simp add: do_not_accept_unspecified_ip_address_def cnx_new_def)

section \<open>Durations\<close>

definition test_from_micro_seconds :: bool where
  "test_from_micro_seconds \<longleftrightarrow>
     duration_new 1 0 = from_micro_seconds 1000000 \<and>
     duration_new 0 1000 = from_micro_seconds 1 \<and>
     duration_new 1 5000 = from_micro_seconds 1000005 \<and>
     duration_new 0 500000 = from_micro_seconds 500"

definition test_as_micro_seconds :: bool where
  "test_as_micro_seconds \<longleftrightarrow>
     map_option as_micro_seconds (duration_new 1 0) = Some 1000000 \<and>
     map_option as_micro_seconds (duration_new 0 1000) = Some 1 \<and>
     map_option as_micro_seconds (duration_new 1 5000) = Some 1000005 \<and>
     map_option as_micro_seconds (duration_new 0 500000) = Some 500"

lemma duration_tests_pass: "test_from_micro_seconds" "test_as_micro_seconds"
  by (simp_all add: test_from_micro_seconds_def test_as_micro_seconds_def from_micro_seconds_eq as_micro_seconds_def
      duration_new_small)

section \<open>Configuration\<close>

text \<open>These tests unwrap a result; the panic message has the text of a custom error in it.\<close>

definition panics_with :: "string \<Rightarrow> (unit, error) result \<Rightarrow> bool" where
  "panics_with expected r =
     (case r of
        Err e \<Rightarrow> (case kind e of Custom msg \<Rightarrow> sublist expected msg | _ \<Rightarrow> False)
      | Ok _ \<Rightarrow> False)"

definition does_not_exist :: path where
  "does_not_exist = map (of_nat \<circ> of_char) ''/does/not/exist''"

definition non_existing_path_fails_verify :: "file_system \<Rightarrow> bool" where
  "non_existing_path_fails_verify fs =
     panics_with ''File does not exist''
       (config_verify fs (set_private_key_filename does_not_exist
          (set_certificate_chain_filename does_not_exist (config_default :: unit config))))"

definition set_private_key_and_not_certificate_fails_verify :: "file_system \<Rightarrow> bool" where
  "set_private_key_and_not_certificate_fails_verify fs =
     panics_with ''Either both'' (config_verify fs (set_private_key [] DER (config_default :: unit config)))"

definition set_certificate_and_not_private_key_fails_verify :: "file_system \<Rightarrow> bool" where
  "set_certificate_and_not_private_key_fails_verify fs =
     panics_with ''Either both'' (config_verify fs (set_certificate_chain [] DER (config_default :: unit config)))"

lemma config_tests_pass:
  "\<not> path_exists fs does_not_exist \<Longrightarrow> non_existing_path_fails_verify fs"
  "set_private_key_and_not_certificate_fails_verify fs" "set_certificate_and_not_private_key_fails_verify fs"
proof -
  have m: "panics_with expected (bail (expected @ rest))" for expected rest
    by (simp add: panics_with_def bail_def error_from_failure_def error_from_kind_def)
  note both = m [of "''Either both''" "'', private key and certificate chain need to be set or none of them!''", simplified]
  show "set_private_key_and_not_certificate_fails_verify fs" "set_certificate_and_not_private_key_fails_verify fs"
    using both by (simp_all add: set_private_key_and_not_certificate_fails_verify_def set_certificate_and_not_private_key_fails_verify_def
      config_verify_eq set_private_key_def set_certificate_chain_def config_default_def)
  assume "\<not> path_exists fs does_not_exist"
  then show "non_existing_path_fails_verify fs"
    using m [of "''File does not exist''" "'': '' @ debug_path fs does_not_exist"]
    by (simp add: non_existing_path_fails_verify_def config_verify_eq missing_files_def set_private_key_filename_def
      set_certificate_chain_filename_def config_default_def)
qed

end
