(* ===== verification/Spec2Isabelle.thy ===== *)
theory Spec2Isabelle
  imports Stream_Props Pipe_Props Receive_Props Ffi_Props Quic_Lifetime Connection_Props Inner_Props Contexts
    Loop_Props End_To_End Verify_Memory Unit_Tests
begin

text \<open>
  A verification development for \<^verbatim>\<open>picoquic-rs\<close>, the Rust wrapper that puts the
  \<^verbatim>\<open>picoquic\<close> C library behind \<^verbatim>\<open>futures 0.1\<close>.

  \<^bold>\<open>The program.\<close>  A user makes a \<^verbatim>\<open>Context\<close> from a \<^verbatim>\<open>Config\<close>.
  It spawns the event loop (\<^verbatim>\<open>ContextInner\<close>), which owns the UDP socket and the
  picoquic context, moves datagrams in both directions, and polls one
  \<^verbatim>\<open>connection::Context\<close> for each connection.  That one in turn polls a
  \<^verbatim>\<open>stream::Context\<close> for each stream.  The user holds the other ends: a
  \<^verbatim>\<open>Connection\<close> is a stream of new \<^verbatim>\<open>Stream\<close>s, a
  \<^verbatim>\<open>Stream\<close> is a stream of received data and a sink for data to send.  The two
  sides share nothing but channels.  Picoquic calls back into the event loop for new
  connections, received data, errors, and when it is ready to send.

  \<^bold>\<open>Model and sources\<close> (paths under \<^verbatim>\<open>src/src\<close>).
  \<^item> \<open>Prelude\<close>: machine integers, results and polls, addresses.
  \<^item> \<open>Errors\<close>: \<^verbatim>\<open>error.rs\<close>.
  \<^item> \<open>Channels\<close>: \<^verbatim>\<open>channel_with_error.rs\<close>, with the locale
    \<open>mpsc_channel\<close> for the channels of the futures library, interpreted on a channel that
    is its own view; \<open>Oneshot\<close> does the same for one-shot channels.
  \<^item> \<open>Swappable\<close>: \<^verbatim>\<open>swappable_stream.rs\<close>, with the locales
    \<open>poll_stream\<close> and \<open>poll_source\<close> for polled streams; a swappable stream of such
    streams is one again (a sublocale), and so is the receiver of a channel.
  \<^item> \<open>Stream_Ids\<close>, \<open>Streams\<close>: \<^verbatim>\<open>stream.rs\<close>, one definition for
    each method of \<^verbatim>\<open>Stream\<close> and \<^verbatim>\<open>Context\<close>; the lemmas are in
    \<open>Stream_Sending\<close> (collecting and writing buffers), \<open>Stream_Control\<close> (the control
    loop and the exchange of channels), \<open>Stream_Receiving\<close> (callbacks and the inbox) and
    \<open>Stream_User\<close> (the sink), all in the locale \<open>stream_channels\<close>;
    \<open>Stream_World\<close> says what each of them does to the whole world.
    \<open>Stream_Pipe\<close> extends it to \<open>stream_output\<close>, which says what picoquic has been
    given, with the invariant of the sending direction; \<open>Stream_System\<close> puts the user's
    stream, its context and everything else beside each other as a step relation
    (\<open>stream_step\<close>, \<open>stream_reach\<close>) and relates it to the specification \<open>pipe_step\<close>.
  \<^item> \<open>Durations\<close>, \<open>Configs\<close>, \<open>Verify_Certificate\<close>, \<open>Quic_Ctx\<close>:
    \<^verbatim>\<open>config.rs\<close>, \<^verbatim>\<open>verify_certificate.rs\<close>,
    \<^verbatim>\<open>ffi/verify_certificate.rs\<close>, \<^verbatim>\<open>ffi/quic_ctx.rs\<close>;
    \<open>Quic_Lifetime\<close> has the locale \<open>quic_alloc\<close> for who allocates C contexts, and
    \<open>Verify_Memory\<close> the boxes that the certificate callbacks share with C, on a heap with
    an allocator (locale \<open>box_allocator\<close>).
  \<^item> \<open>Connections\<close>: \<^verbatim>\<open>connection.rs\<close> and
    \<^verbatim>\<open>ffi/connection.rs\<close>; the lemmas are in \<open>Connection_Laws\<close> (the locale
    \<open>connection_channels\<close>, which extends \<open>stream_channels\<close>, stream requests and the
    invariant \<open>con_inv\<close> of the stream map), \<open>Connection_Events\<close> (polling and
    callbacks) and \<open>Connection_Ends\<close> (errors, closing, readiness).
  \<^item> \<open>Context_Inner\<close>, \<open>Contexts\<close>: \<^verbatim>\<open>context_inner.rs\<close>,
    \<^verbatim>\<open>context.rs\<close>, \<^verbatim>\<open>ffi/stateless_packet.rs\<close>.
  \<^item> The program as a whole.  \<open>Stream_Typing\<close> is a type system for the message
    channels (locale \<open>stream_library\<close>) and shows that every operation of a stream returns
    in a well-typed world and keeps it well typed; \<open>Connection_Typing\<close> carries this to
    connections (\<open>connection_library\<close>).  \<open>Context_Ownership\<close> counts the references
    to the shared contexts.  \<open>Loop_Safety\<close> puts everything together (\<open>loop_library\<close>):
    \<open>user_step\<close> and \<open>loop_step\<close> are what users and the event loop do, in any
    order, \<open>reach\<close> the states that the program reaches, \<open>run_ok\<close> and
    \<open>callback_ok\<close> what is relied on when picoquic calls back (\<open>event_loop\<close>).
    \<open>Loop_Progress\<close> adds why the loops end (\<open>loop_progress\<close>): each has a measure
    in the socket, in picoquic or in a queue.
  \<^item> \<open>End_To_End\<close>: a sending and a receiving stream composed, with picoquic between them.
  \<^item> \<open>Stream_Props\<close>, \<open>Pipe_Props\<close>, \<open>Receive_Props\<close>, \<open>Ffi_Props\<close>, \<open>Quic_Lifetime\<close>,
    \<open>Connection_Props\<close>, \<open>Inner_Props\<close>, \<open>Loop_Props\<close>: the properties, each with a
    witness on a recording environment in which the C library is a list of the calls made to it;
    in \<open>Loop_Props\<close> it also calls back, sends packets and ends connections, and all the
    locales of the whole program are interpreted on it.
  \<^item> \<open>Unit_Tests\<close>: the unit tests of the sources, run on the model.

  \<^bold>\<open>State.\<close>  Everything that two parties share lives in one record, the world, that
  grows with the layers (\<open>world\<close>, \<open>con_world\<close>, \<open>inner_world\<close>): channels under
  handles, reference-counted contexts under handles, and the state of the C library.  The
  environment (\<open>stream_env\<close>, \<open>con_env\<close>, \<open>inner_env\<close>, \<open>quic_env\<close>) holds
  the code that is not in the repository: channels, OpenSSL, tokio and picoquic.  A method takes
  its receiver and the world and returns both; \<open>None\<close> is a panic, a use after free, or a
  loop without end.  Loops that may not end are partial functions into options, and their
  theorems say that they return; only the event loop is bounded by its own counter (50 rounds
  without sleeping).  Code of picoquic that calls back is a \<open>c_run\<close>: it stops at each
  callback and continues with the state that the callback left.

  \<^bold>\<open>What the properties show.\<close> The program as a whole: in every state that
  it reaches, with any number of users, connections and streams, nothing panics and no freed
  context of a connection (on the Rust side) is touched; polling the event loop returns, since
  every loop in it ends, and as long as the user keeps the context (\<open>user_waits\<close>) it is not
  ready and has arranged a new wake-up (\<open>wake_arranged\<close>); dropping the context ends it; the
  contexts of connections outlive their callbacks; all channels are well typed; prepared packets
  reach the socket in order.
  A stream as a whole: in every interleaving of the user, the context and the rest, no operation
  panics; and if the send channel is exchanged carefully, which means never while an exchange still
  waits for the context, the stream is a pipe that loses, repeats and reorders nothing, does not get
  stuck and ends behind the last byte.  Received data reaches the user's polls in order.  Both ends
  together, again with a careful exchange: if picoquic transports a stream in order, the receiving
  user reads a prefix of what the sending user's sink accepted, and all of it when the end of a
  stream is read that was not reset, stopped or closed with its connection.
  Sending: a request of picoquic gets the next pending bytes with an exact fin bit.  Control
  messages are worked off in order, and exchanging the channel twice before they are loses data.
  Stream ids are unique up to the bound of the counter, and the assertion on them holds.  Errors
  and closing reach every party that waits.  A certificate is accepted exactly when all of the chain
  parses, the handler agrees and there is a key; a signature only when it is valid under the right
  settings (locale \<open>openssl_verifier\<close>), or empty.  No C context leaks, and no box that is
  shared with C is used after it was freed; none is lost but the handlers that picoquic refused.

  \<^bold>\<open>Flaws.\<close>  Several theorems record behaviour that looks unintended: the callback of a
  connection is cleared after picoquic deleted the connection (\<open>deleted_connection_used\<close>), so
  the memory of picoquic itself, which is not modelled, is not safe; a second resize loses data, a
  datagram overwrites an unsent packet, an empty signature is accepted, a connect call to an
  unspecified address stops the event loop, the reason of a failed connect is lost, a late callback
  revives an id, a refused certificate handler leaks.

  \<^bold>\<open>What is relied on.\<close>  The whole program rests on \<open>event_loop\<close> and
  \<open>loop_progress\<close>: picoquic only calls contexts that it was given; it gives a context up
  before the callback that closes it (\<open>callback_ok\<close>; the sources depend on this and do not
  say it); it names streams that can exist; its queues and the socket run dry, which the measures of
  \<open>loop_progress\<close> express.  Users stay below the bound of the stream counter and do not
  connect to an unspecified address (which would stop the loop).  \<open>c_memory\<close> says that
  picoquic has a buffer for the data it asks for, and \<open>stream_output\<close> watches the output of
  one stream, so that there the C library serves this stream only.

  \<^bold>\<open>Not modelled.\<close> \<^verbatim>\<open>lib.rs\<close> (re-exports and
  documentation), the bindings and build script of \<^verbatim>\<open>picoquic-sys\<close>,
  examples and integration tests; logging, backtraces and \<^verbatim>\<open>Debug\<close>
  output; task wake-ups inside the channel libraries; threads: every method runs to its end
  before the next, as the mutexes of the contexts enforce. Lengths are natural numbers, with the
  bounds under which no sum overflows proved where lengths are added; stream ids, times and
  error codes are words.
\<close>

end
